(* ===== verification/C_Prelude.thy ===== *)
theory C_Prelude
  imports Main "HOL-Library.AList"
begin

text \<open>
  The C run time the drivers share: an allocation ledger (malloc, calloc, free, and the
  life of every other handle the code opens and closes), mutexes, condition variables and
  reads of caller-supplied arrays.

  A \<^theory_text>\<open>mach\<close> is the machine state every operation threads through.
  \<^item> \<open>oom\<close>: the outcomes of the coming allocations (\<open>True\<close>: this one returns NULL or an
    error code); the empty list means that every further allocation succeeds. Theorems
    hold for every list, so an operation is checked with each of its allocations failing.
  \<^item> \<open>fresh\<close>, \<open>live\<close>: the next unused resource number and the numbers acquired and not
    yet given back: heap blocks, library handles, mutexes, condition variables, threads.
  \<^item> \<open>held\<close>: the mutexes held by the running thread; \<open>signals\<close>: the condition variables
    signalled so far, latest first.
  \<^item> \<open>fault\<close>: set by what C leaves undefined: a free of something not live (double free),
    an unlock of a mutex not held, a second lock of a held one, a read past an array.
  \<^item> \<open>ext\<close>: everything outside the sources (client library, server, operating system).
\<close>

named_theorems ledger \<open>how the primitive operations change the ledger\<close>

section \<open>The ledger\<close>

datatype 'a cell = Cell (addr: nat) (contents: 'a)

record 'w mach =
  oom :: "bool list"
  fresh :: nat
  live :: "nat set"
  held :: "nat set"
  signals :: "nat list"
  fault :: bool
  ext :: 'w

text \<open>A handle that a library call has just opened.\<close>

definition rnew :: "'a \<Rightarrow> 'w mach \<Rightarrow> 'a cell \<times> 'w mach" where
  "rnew v m = (Cell (fresh m) v, m\<lparr>fresh := Suc (fresh m), live := insert (fresh m) (live m)\<rparr>)"

text \<open>\<open>malloc\<close>, \<open>calloc\<close> and the \<open>pthread_*_init\<close> calls: they consume one outcome.\<close>

definition halloc :: "'a \<Rightarrow> 'w mach \<Rightarrow> 'a cell option \<times> 'w mach" where
  "halloc v m =
     (case oom m of
        [] \<Rightarrow> (let (c, m1) = rnew v m in (Some c, m1))
      | b # bs \<Rightarrow>
          (if b then (None, m\<lparr>oom := bs\<rparr>)
           else (let (c, m1) = rnew v (m\<lparr>oom := bs\<rparr>) in (Some c, m1))))"

definition rfree :: "nat \<Rightarrow> 'w mach \<Rightarrow> 'w mach" where
  "rfree a m = (if a \<in> live m then m\<lparr>live := live m - {a}\<rparr> else m\<lparr>fault := True\<rparr>)"

text \<open>\<open>free\<close>, which accepts NULL.\<close>

definition cfree :: "'a cell option \<Rightarrow> 'w mach \<Rightarrow> 'w mach" where
  "cfree p m = (case p of None \<Rightarrow> m | Some c \<Rightarrow> rfree (addr c) m)"

fun free_all :: "nat list \<Rightarrow> 'w mach \<Rightarrow> 'w mach" where
  "free_all [] m = m"
| "free_all (a # as) m = free_all as (rfree a m)"

definition mutex_lock :: "nat \<Rightarrow> 'w mach \<Rightarrow> 'w mach" where
  "mutex_lock a m =
     (if a \<in> held m then m\<lparr>fault := True\<rparr> else m\<lparr>held := insert a (held m)\<rparr>)"

definition mutex_unlock :: "nat \<Rightarrow> 'w mach \<Rightarrow> 'w mach" where
  "mutex_unlock a m =
     (if a \<in> held m then m\<lparr>held := held m - {a}\<rparr> else m\<lparr>fault := True\<rparr>)"

definition cond_signal :: "nat \<Rightarrow> 'w mach \<Rightarrow> 'w mach" where
  "cond_signal a m = m\<lparr>signals := a # signals m\<rparr>"

text \<open>The first \<open>n\<close> entries of a caller's array; reading past its end is a fault.\<close>

definition read_array :: "nat \<Rightarrow> 'a list \<Rightarrow> 'w mach \<Rightarrow> 'a list \<times> 'w mach" where
  "read_array n xs m = (take n xs, (if n \<le> length xs then m else m\<lparr>fault := True\<rparr>))"

text \<open>An array element; past the end is a fault.\<close>

definition read_at :: "'a list \<Rightarrow> int \<Rightarrow> 'w mach \<Rightarrow> 'a option \<times> 'w mach" where
  "read_at xs i m = (if 0 \<le> i \<and> nat i < length xs then (Some (xs ! nat i), m) else (None, m\<lparr>fault := True\<rparr>))"

text \<open>A string argument is the bytes before the NUL; NULL is \<open>None\<close>.\<close>

definition dup_string :: "string option \<Rightarrow> 'w mach \<Rightarrow> string cell option \<times> 'w mach" where
  "dup_string s m = (case s of None \<Rightarrow> (None, m) | Some b \<Rightarrow> halloc b m)"

definition opt_ids :: "'a cell option \<Rightarrow> nat list" where
  "opt_ids p = (case p of None \<Rightarrow> [] | Some c \<Rightarrow> [addr c])"

lemma opt_ids_simps [simp]: "opt_ids None = []" "opt_ids (Some c) = [addr c]"
  by (simp_all add: opt_ids_def)

section \<open>Reasoning about the ledger\<close>

text \<open>
  \<open>ledger_ok\<close>: live numbers have been handed out. \<open>acquired m xs m'\<close>: between \<open>m\<close> and
  \<open>m'\<close> exactly the new resources \<open>xs\<close> were acquired, every other resource is as it was,
  no mutex changed hands and no fault was raised.
\<close>

definition ledger_ok :: "'w mach \<Rightarrow> bool" where
  "ledger_ok m \<longleftrightarrow> (\<forall>a \<in> live m. a < fresh m)"

definition acquired :: "'w mach \<Rightarrow> nat list \<Rightarrow> 'w mach \<Rightarrow> bool" where
  "acquired m xs m' \<longleftrightarrow>
     distinct xs \<and> (\<forall>x \<in> set xs. fresh m \<le> x \<and> x < fresh m') \<and> fresh m \<le> fresh m' \<and>
     live m' = live m \<union> set xs \<and> held m' = held m \<and> fault m' = fault m"

lemma acquired_refl [simp, intro]: "acquired m [] m"
  by (simp add: acquired_def)

lemma acquired_trans:
  "acquired m xs m1 \<Longrightarrow> acquired m1 ys m2 \<Longrightarrow> acquired m (xs @ ys) m2"
  by (fastforce simp: acquired_def)

lemma acquired_ledger_ok: "ledger_ok m \<Longrightarrow> acquired m xs m' \<Longrightarrow> ledger_ok m'"
  by (fastforce simp: ledger_ok_def acquired_def)

lemma acquired_nil_trans [trans]:
  "acquired m [] m1 \<Longrightarrow> acquired m1 ys m2 \<Longrightarrow> acquired m ys m2"
  using acquired_trans [of m "[]" m1 ys m2] by simp

lemma acquired_perm:
  "acquired m xs m' \<Longrightarrow> set ys = set xs \<Longrightarrow> distinct ys \<Longrightarrow> acquired m ys m'"
  by (simp add: acquired_def)

lemma rnew_acquired: "rnew v m = (c, m') \<Longrightarrow> acquired m [addr c] m' \<and> contents c = v"
  by (auto simp: rnew_def acquired_def)

lemma halloc_Some: "halloc v m = (Some c, m') \<Longrightarrow> acquired m [addr c] m' \<and> contents c = v"
  by (auto simp: halloc_def rnew_def acquired_def split: list.splits if_splits)

lemma halloc_None: "halloc v m = (None, m') \<Longrightarrow> acquired m [] m'"
  by (auto simp: halloc_def rnew_def acquired_def split: list.splits if_splits)

lemma halloc_frame [ledger]:
  "halloc v m = (r, m') \<Longrightarrow> signals m' = signals m \<and> ext m' = ext m"
  by (auto simp: halloc_def rnew_def split: list.splits if_splits)

lemma halloc_plenty: "oom m = [] \<Longrightarrow> \<exists>c m'. halloc v m = (Some c, m') \<and> oom m' = []"
  by (auto simp: halloc_def rnew_def)

lemma dup_string_Some:
  "dup_string s m = (Some c, m') \<Longrightarrow> acquired m [addr c] m' \<and> s = Some (contents c)"
  by (auto simp: dup_string_def dest: halloc_Some split: option.splits)

lemma dup_string_None: "dup_string s m = (None, m') \<Longrightarrow> acquired m [] m'"
  by (auto simp: dup_string_def dest: halloc_None split: option.splits)

lemma dup_string_frame [ledger]:
  "dup_string s m = (r, m') \<Longrightarrow> signals m' = signals m \<and> ext m' = ext m"
  by (auto simp: dup_string_def dest: halloc_frame split: option.splits)

lemma dup_string_plenty:
  "oom m = [] \<Longrightarrow> \<exists>c m'. dup_string (Some b) m = (Some c, m') \<and> oom m' = []"
  by (simp add: dup_string_def halloc_plenty)

subsection \<open>Giving resources back\<close>

lemma free_all_append: "free_all (xs @ ys) m = free_all ys (free_all xs m)"
  by (induction xs arbitrary: m) auto

lemma cfree_free_all: "cfree p m = free_all (opt_ids p) m"
  by (simp add: cfree_def split: option.splits)

lemma fold_cfree: "fold cfree cs m = free_all (concat (map opt_ids cs)) m"
  by (induction cs arbitrary: m) (simp_all add: cfree_free_all free_all_append)

lemma free_all_live:
  "distinct xs \<Longrightarrow> set xs \<subseteq> live m \<Longrightarrow> free_all xs m = m\<lparr>live := live m - set xs\<rparr>"
proof (induction xs arbitrary: m)
  case Nil
  then show ?case by simp
next
  case (Cons a xs)
  then have a: "a \<in> live m" and xs: "distinct xs" "set xs \<subseteq> live m - {a}"
    by auto
  have "live m - {a} - set xs = live m - set (a # xs)"
    by auto
  with a show ?case
    using Cons.IH [of "m\<lparr>live := live m - {a}\<rparr>"] xs by (simp add: rfree_def)
qed

text \<open>Freeing what was acquired restores the ledger: the law behind every rollback.\<close>

lemma acquired_free_all:
  assumes ok: "ledger_ok m" and acq: "acquired m xs m'"
    and ys: "distinct ys" "set ys \<subseteq> set xs"
  shows "acquired m (filter (\<lambda>x. x \<notin> set ys) xs) (free_all ys m')"
proof -
  have "free_all ys m' = m'\<lparr>live := live m' - set ys\<rparr>"
    using acq ys by (intro free_all_live) (auto simp: acquired_def)
  moreover have "live m \<inter> set ys = {}"
    using ok acq ys(2) by (force simp: ledger_ok_def acquired_def)
  ultimately show ?thesis
    using acq by (auto simp: acquired_def)
qed

lemma acquired_drop:
  assumes "ledger_ok m" "acquired m (xs @ ys) m'" "set zs = set ys" "distinct zs"
  shows "acquired m xs (free_all zs m')"
proof -
  have "filter (\<lambda>x. x \<notin> set zs) (xs @ ys) = xs"
    using assms(2,3) by (auto simp: acquired_def filter_empty_conv filter_id_conv)
  with acquired_free_all [OF assms(1,2,4)] assms(3) show ?thesis by simp
qed

lemma acquired_free_every:
  assumes "ledger_ok m" "acquired m xs m'" "distinct ys" "set ys = set xs"
  shows "acquired m [] (free_all ys m')"
proof -
  have "filter (\<lambda>x. x \<notin> set ys) xs = []"
    using assms(4) by simp
  with acquired_free_all [OF assms(1-3)] assms(4) show ?thesis
    by simp
qed

lemma acquired_rfree_one:
  "ledger_ok m \<Longrightarrow> acquired m [a] m' \<Longrightarrow> acquired m [] (rfree a m')"
  using acquired_free_every [of m "[a]" m' "[a]"] by simp

lemma free_all_frame [ledger]:
  "held (free_all xs m) = held m" "ext (free_all xs m) = ext m"
  "signals (free_all xs m) = signals m" "fresh (free_all xs m) = fresh m"
  "oom (free_all xs m) = oom m"
  by (induction xs arbitrary: m) (auto simp: rfree_def)

lemma rfree_frame [ledger]:
  "held (rfree a m) = held m" "ext (rfree a m) = ext m" "signals (rfree a m) = signals m"
  "fresh (rfree a m) = fresh m" "oom (rfree a m) = oom m"
  by (simp_all add: rfree_def)

lemma rfree_ext_update: "rfree a (m\<lparr>ext := w\<rparr>) = (rfree a m)\<lparr>ext := w\<rparr>"
  by (simp add: rfree_def)

lemma free_all_ext_update: "free_all xs (m\<lparr>ext := w\<rparr>) = (free_all xs m)\<lparr>ext := w\<rparr>"
  by (induction xs arbitrary: m) (simp_all add: rfree_ext_update)

lemma free_all_acquired_back:
  assumes "distinct xs" "set xs \<subseteq> live m"
  shows "live (free_all xs m) = live m - set xs \<and> fault (free_all xs m) = fault m"
  using free_all_live [OF assms] by simp

text \<open>\<open>released m X m'\<close>: from \<open>m\<close> to \<open>m'\<close> exactly \<open>X\<close> was given back.\<close>

definition released :: "'w mach \<Rightarrow> nat set \<Rightarrow> 'w mach \<Rightarrow> bool" where
  "released m X m' \<longleftrightarrow>
     live m' = live m - X \<and> held m' = held m \<and> fault m' = fault m \<and> fresh m \<le> fresh m'"

lemma released_refl [simp, intro]: "released m {} m"
  by (simp add: released_def)

lemma released_trans: "released m X m1 \<Longrightarrow> released m1 Y m2 \<Longrightarrow> released m (X \<union> Y) m2"
  by (auto simp: released_def)

lemma released_ledger_ok: "ledger_ok m \<Longrightarrow> released m X m' \<Longrightarrow> ledger_ok m'"
  by (fastforce simp: ledger_ok_def released_def)

lemma released_ext [simp]: "released m X (m'\<lparr>ext := w\<rparr>) = released m X m'"
  by (simp add: released_def)

lemma released_from_ext [simp]: "released (m\<lparr>ext := w\<rparr>) X m' = released m X m'"
  by (simp add: released_def)

lemma free_all_released:
  "distinct xs \<Longrightarrow> set xs \<subseteq> live m \<Longrightarrow> released m (set xs) (free_all xs m)"
  by (simp add: released_def free_all_live)

lemma rfree_released: "a \<in> live m \<Longrightarrow> released m {a} (rfree a m)"
  using free_all_released [of "[a]" m] by simp

lemma acquired_released:
  "ledger_ok m0 \<Longrightarrow> acquired m0 xs m \<Longrightarrow> released m (set xs) m' \<Longrightarrow> acquired m0 [] m'"
  by (force simp: acquired_def released_def ledger_ok_def)

lemma acquired_then_released:
  "ledger_ok m \<Longrightarrow> acquired m xs m1 \<Longrightarrow> released m1 (set xs \<union> X) m' \<Longrightarrow> released m X m'"
proof -
  assume ok: "ledger_ok m" and acq: "acquired m xs m1" and rel: "released m1 (set xs \<union> X) m'"
  have "live m \<inter> set xs = {}" using ok acq by (force simp: ledger_ok_def acquired_def)
  then have "live m' = live m - X" using acq rel by (auto simp: acquired_def released_def)
  with acq rel show ?thesis by (simp add: acquired_def released_def)
qed

lemma acquired_nil: "acquired m [] m' \<Longrightarrow> released m {} m'"
  by (simp add: acquired_def released_def)

subsection \<open>Locks\<close>

lemma lock_unlock:
  assumes "a \<notin> held m" and "acquired (mutex_lock a m) xs m'"
  shows "acquired m xs (mutex_unlock a m')"
  using assms by (auto simp: mutex_lock_def mutex_unlock_def acquired_def)

lemma lock_refused: "a \<notin> held m \<Longrightarrow> acquired m [] (mutex_unlock a (mutex_lock a m))"
  by (rule lock_unlock) simp_all

lemma mutex_frame [ledger]:
  "live (mutex_lock a m) = live m" "fresh (mutex_lock a m) = fresh m"
  "signals (mutex_lock a m) = signals m" "oom (mutex_lock a m) = oom m"
  "ext (mutex_lock a m) = ext m"
  "live (mutex_unlock a m) = live m" "fresh (mutex_unlock a m) = fresh m"
  "signals (mutex_unlock a m) = signals m" "oom (mutex_unlock a m) = oom m"
  "ext (mutex_unlock a m) = ext m"
  by (simp_all add: mutex_lock_def mutex_unlock_def)

lemma signal_frame [ledger]:
  "live (cond_signal a m) = live m" "fresh (cond_signal a m) = fresh m"
  "held (cond_signal a m) = held m" "fault (cond_signal a m) = fault m"
  "oom (cond_signal a m) = oom m" "ext (cond_signal a m) = ext m"
  "signals (cond_signal a m) = a # signals m"
  by (simp_all add: cond_signal_def)

lemma ledger_ok_lock [simp]: "ledger_ok (mutex_lock a m) = ledger_ok m"
  by (simp add: ledger_ok_def ledger)

lemma acquired_ext [simp]: "acquired m xs (m'\<lparr>ext := w\<rparr>) = acquired m xs m'"
  by (simp add: acquired_def)

lemma acquired_from_ext [simp]: "acquired (m\<lparr>ext := w\<rparr>) xs m' = acquired m xs m'"
  by (simp add: acquired_def)

lemma ledger_ok_ext [simp]: "ledger_ok (m\<lparr>ext := w\<rparr>) = ledger_ok m"
  by (simp add: ledger_ok_def)

lemma acquired_signal [simp]: "acquired m xs (cond_signal a m') = acquired m xs m'"
  by (simp add: acquired_def ledger)

lemma lock_signal_unlock:
  "a \<notin> held m \<Longrightarrow> released m {} (mutex_unlock a (cond_signal b (mutex_lock a m)))"
  by (simp add: released_def mutex_lock_def mutex_unlock_def cond_signal_def)

lemma read_array_enough: "n \<le> length xs \<Longrightarrow> read_array n xs m = (take n xs, m)"
  by (simp add: read_array_def)

end
