(* ===== verification/C_Time.thy ===== *)
theory C_Time
  imports C_Prelude "HOL-Library.Signed_Division"
begin

text \<open>
  The time arithmetic of the pools: absolute deadlines (\<open>deadline_from_ms\<close> of the pools,
  \<open>compute_deadline\<close> of the libpq worker), the time left (\<open>ms_until\<close>) and the next
  \<open>select\<close> timeout (\<open>next_select_tv\<close>). The clock reading, \<open>clock_gettime\<close>'s output, is
  an argument. C's \<open>/\<close> and \<open>%\<close> truncate towards zero: \<open>sdiv\<close> and \<open>smod\<close> of the
  library. The values are unbounded integers; the code's are 64-bit.
\<close>

record timespec =
  tv_sec :: int
  tv_nsec :: int

record timeval =
  tval_sec :: int
  tval_usec :: int

definition deadline_from_ms :: "timespec \<Rightarrow> int \<Rightarrow> timespec" where
  "deadline_from_ms now delta_ms =
     (let s = tv_sec now + delta_ms sdiv 1000;
          ns = tv_nsec now + (delta_ms smod 1000) * 1000000
      in if ns \<ge> 1000000000 then \<lparr>tv_sec = s + 1, tv_nsec = ns - 1000000000\<rparr>
         else \<lparr>tv_sec = s, tv_nsec = ns\<rparr>)"

definition compute_deadline :: "timespec \<Rightarrow> int \<Rightarrow> timespec" where
  "compute_deadline now timeout_ms =
     (let s = tv_sec now + timeout_ms sdiv 1000;
          ns = tv_nsec now + (timeout_ms smod 1000) * 1000000
      in if ns \<ge> 1000000000 then \<lparr>tv_sec = s + 1, tv_nsec = ns - 1000000000\<rparr>
         else \<lparr>tv_sec = s, tv_nsec = ns\<rparr>)"

definition ms_until :: "timespec \<Rightarrow> timespec \<Rightarrow> int" where
  "ms_until deadline now =
     (let s_diff = tv_sec deadline - tv_sec now;
          ns_diff = tv_nsec deadline - tv_nsec now
      in s_diff * 1000 + ns_diff sdiv 1000000)"

definition WORKER_SHUTDOWN_POLL_MS :: int where
  "WORKER_SHUTDOWN_POLL_MS = 1000"

text \<open>\<open>None\<close> is the return value 0: the deadline has expired.\<close>

definition next_select_tv :: "bool \<Rightarrow> timespec \<Rightarrow> timespec \<Rightarrow> timeval option" where
  "next_select_tv has_deadline deadline now =
     (let budget_ms =
            (if has_deadline then
               (let b = ms_until deadline now
                in if b \<le> 0 then None
                   else Some (if b > WORKER_SHUTDOWN_POLL_MS then WORKER_SHUTDOWN_POLL_MS else b))
             else Some WORKER_SHUTDOWN_POLL_MS)
      in case budget_ms of
           None \<Rightarrow> None
         | Some b \<Rightarrow> Some \<lparr>tval_sec = b sdiv 1000, tval_usec = (b smod 1000) * 1000\<rparr>)"

section \<open>Nanoseconds\<close>

definition ns_of :: "timespec \<Rightarrow> int" where
  "ns_of t = tv_sec t * 1000000000 + tv_nsec t"

definition us_of :: "timeval \<Rightarrow> int" where
  "us_of t = tval_sec t * 1000000 + tval_usec t"

text \<open>What \<open>clock_gettime\<close> documents: nanoseconds in \<open>[0, 10^9)\<close>.\<close>

definition normal :: "timespec \<Rightarrow> bool" where
  "normal t \<longleftrightarrow> 0 \<le> tv_nsec t \<and> tv_nsec t < 1000000000"

lemma sdiv_nonneg: "0 \<le> (a::int) \<Longrightarrow> 0 < b \<Longrightarrow> a sdiv b = a div b"
  by (cases "a = 0") (simp_all add: signed_divide_int_def)

lemma smod_nonneg: "0 \<le> (a::int) \<Longrightarrow> 0 < b \<Longrightarrow> a smod b = a mod b"
  using smod_int_alt_def [of a b] by (cases "a = 0") (simp_all add: signed_modulo_int_def sdiv_nonneg minus_div_mult_eq_mod)

lemma sdiv_neg: "(a::int) < 0 \<Longrightarrow> 0 < b \<Longrightarrow> a sdiv b = - ((- a) div b)"
  by (simp add: signed_divide_int_def)

lemma deadline_core:
  assumes "normal now" "0 \<le> d"
  shows "normal (deadline_from_ms now d)"
    and "ns_of (deadline_from_ms now d) = ns_of now + d * 1000000"
proof -
  have q: "d sdiv 1000 = d div 1000" "d smod 1000 = d mod 1000"
    using assms(2) by (simp_all add: sdiv_nonneg smod_nonneg)
  have "0 \<le> d mod 1000" "d mod 1000 \<le> 999"
    by simp_all
  then show "normal (deadline_from_ms now d)"
    using assms(1) by (auto simp: deadline_from_ms_def normal_def q Let_def)
  have "d div 1000 * 1000000000 + d mod 1000 * 1000000 = d * 1000000"
    using div_mult_mod_eq [of d 1000] by linarith
  then show "ns_of (deadline_from_ms now d) = ns_of now + d * 1000000"
    by (simp add: deadline_from_ms_def ns_of_def q Let_def)
qed

lemma compute_deadline_same: "compute_deadline = deadline_from_ms"
  by (intro ext) (simp add: compute_deadline_def deadline_from_ms_def)

lemma sdiv_million_bounds:
  "(a::int) - 1000000 < a sdiv 1000000 * 1000000" "a sdiv 1000000 * 1000000 < a + 1000000"
  by (cases "a < 0"; simp add: sdiv_neg sdiv_nonneg; presburger)+

lemma ms_until_accurate:
  "\<bar>ms_until d n * 1000000 - (ns_of d - ns_of n)\<bar> < 1000000"
  using sdiv_million_bounds [of "tv_nsec d - tv_nsec n"]
  by (auto simp: ms_until_def ns_of_def Let_def abs_if algebra_simps)

lemma seconds_nonpos: "(s::int) * 1000000000 + f \<le> 0 \<Longrightarrow> - 1000000000 < f \<Longrightarrow> s \<le> 0"
  by linarith

lemma millis_nonpos:
  assumes "(s::int) * 1000000000 + f \<le> 0"
  shows "f div 1000000 \<le> - s * 1000"
proof -
  have "f \<le> (- s * 1000) * 1000000"
    using assms by simp
  then have "f div 1000000 \<le> (- s * 1000) * 1000000 div 1000000"
    by (rule zdiv_mono1) simp
  then show ?thesis by simp
qed

lemma ms_until_expired:
  assumes "normal d" "normal n" "ns_of d \<le> ns_of n"
  shows "ms_until d n \<le> 0"
proof -
  let ?s = "tv_sec d - tv_sec n" and ?f = "tv_nsec d - tv_nsec n"
  have le: "?s * 1000000000 + ?f \<le> 0"
    using assms(3) by (simp add: ns_of_def algebra_simps)
  have f: "- 1000000000 < ?f" "?f < 1000000000"
    using assms(1,2) by (auto simp: normal_def)
  show ?thesis
  proof (cases "?f < 0")
    case True
    then have "?f sdiv 1000000 \<le> 0"
      by (simp add: sdiv_neg pos_imp_zdiv_nonneg_iff)
    moreover have "?s \<le> 0"
      using le f(1) by (rule seconds_nonpos)
    ultimately show ?thesis
      by (simp add: ms_until_def Let_def)
  next
    case False
    then have "?f sdiv 1000000 = ?f div 1000000"
      by (simp add: sdiv_nonneg)
    moreover have "?f div 1000000 \<le> - ?s * 1000"
      using le by (rule millis_nonpos)
    ultimately show ?thesis
      by (simp add: ms_until_def Let_def)
  qed
qed

lemma next_select_tv_us:
  "next_select_tv h d n = Some tv \<Longrightarrow>
   \<exists>b. 0 < b \<and> b \<le> 1000 \<and> us_of tv = b * 1000 \<and> (h \<longrightarrow> b \<le> ms_until d n) \<and>
       0 \<le> tval_usec tv \<and> tval_usec tv < 1000000"
proof -
  have ms: "b div 1000 * 1000000 + b mod 1000 * 1000 = b * 1000" for b :: int
    using div_mult_mod_eq [of b 1000] by linarith
  assume "next_select_tv h d n = Some tv"
  then show ?thesis
    by (auto simp: next_select_tv_def Let_def us_of_def sdiv_nonneg smod_nonneg ms
        WORKER_SHUTDOWN_POLL_MS_def split: if_splits)
qed

lemma next_select_tv_None: "next_select_tv h d n = None \<longleftrightarrow> h \<and> ms_until d n \<le> 0"
  by (simp add: next_select_tv_def Let_def)

end
