(* ===== verification/Pg_Env.thy ===== *)
theory Pg_Env
  imports C_Time
begin

text \<open>
  What the PostgreSQL driver calls outside its sources: libpq, \<open>select\<close> and the clock.
  Each is a field of \<open>pg_env\<close>, an argument of every definition that uses it, over an
  abstract outside world \<open>'w\<close>; connection handles are the numbers the ledger gives them
  and \<open>'r\<close> is what a \<open>PGresult\<close> holds. The wrappers below add the life of the handles
  to the ledger: a \<open>PGresult\<close> is live from \<open>PQgetResult\<close> to \<open>PQclear\<close>, a \<open>PGconn\<close> from
  \<open>PQconnectdb\<close> to \<open>PQfinish\<close>.
\<close>

text \<open>\<open>select\<close>: -1 with or without EINTR, 0, or ready (readable or only writable).\<close>

datatype select_rc = SelError bool | SelTimeout | SelReady bool

record pg_params =
  par_n :: int
  par_types :: "int list option"
  par_values :: "string option list option"
  par_lengths :: "int list option"
  par_formats :: "int list option"
  par_result_format :: int

record ('w, 'r) pg_env =
  PQconnectdb :: "nat \<Rightarrow> string \<Rightarrow> 'w \<Rightarrow> 'w"
  PQstatus_ok :: "nat \<Rightarrow> 'w \<Rightarrow> bool"
  PQsetnonblocking :: "nat \<Rightarrow> 'w \<Rightarrow> 'w"
  PQfinish :: "nat \<Rightarrow> 'w \<Rightarrow> 'w"
  PQsocket :: "nat \<Rightarrow> 'w \<Rightarrow> int"
  PQsendQuery :: "nat \<Rightarrow> string \<Rightarrow> 'w \<Rightarrow> int \<times> 'w"
  PQsendQueryParams :: "nat \<Rightarrow> string \<Rightarrow> pg_params \<Rightarrow> 'w \<Rightarrow> int \<times> 'w"
  PQflush :: "nat \<Rightarrow> 'w \<Rightarrow> int \<times> 'w"
  PQconsumeInput :: "nat \<Rightarrow> 'w \<Rightarrow> int \<times> 'w"
  PQisBusy :: "nat \<Rightarrow> 'w \<Rightarrow> bool \<times> 'w"
  PQgetResult :: "nat \<Rightarrow> 'w \<Rightarrow> 'r option \<times> 'w"
  PQenterPipelineMode :: "nat \<Rightarrow> 'w \<Rightarrow> int \<times> 'w"
  PQexitPipelineMode :: "nat \<Rightarrow> 'w \<Rightarrow> int \<times> 'w"
  PQpipelineSync :: "nat \<Rightarrow> 'w \<Rightarrow> int \<times> 'w"
  PQtrans_inerror :: "nat \<Rightarrow> 'w \<Rightarrow> bool"
  PQexec :: "nat \<Rightarrow> string \<Rightarrow> 'w \<Rightarrow> 'r option \<times> 'w"
  PQgetCancel_ok :: "nat \<Rightarrow> 'w \<Rightarrow> bool"
  PQcancel :: "nat \<Rightarrow> 'w \<Rightarrow> 'w"
  select_io :: "int \<Rightarrow> bool \<Rightarrow> timeval \<Rightarrow> 'w \<Rightarrow> select_rc \<times> 'w"
  clock_gettime :: "'w \<Rightarrow> timespec \<times> 'w"
  shutdown_meanwhile :: "nat \<Rightarrow> 'w \<Rightarrow> bool \<times> 'w"

text \<open>
  \<open>select_io sock also_write tv\<close> waits for \<open>sock\<close> to be readable, or also writable.
  \<open>shutdown_meanwhile pg\<close> tells whether another thread has set the connection's
  \<open>shutdown_requested\<close> since the worker took the request.
\<close>

definition pq_connect :: "('w, 'r) pg_env \<Rightarrow> string \<Rightarrow> 'w mach \<Rightarrow> nat \<times> 'w mach" where
  "pq_connect E ci m =
     (let (c, m1) = rnew () m
      in (addr c, m1\<lparr>ext := PQconnectdb E (addr c) ci (ext m1)\<rparr>))"

definition pq_finish :: "('w, 'r) pg_env \<Rightarrow> nat \<Rightarrow> 'w mach \<Rightarrow> 'w mach" where
  "pq_finish E p m = rfree p (m\<lparr>ext := PQfinish E p (ext m)\<rparr>)"

definition pq_result :: "'r option \<times> 'w \<Rightarrow> 'w mach \<Rightarrow> 'r cell option \<times> 'w mach" where
  "pq_result rw m =
     (case rw of
        (None, w) \<Rightarrow> (None, m\<lparr>ext := w\<rparr>)
      | (Some r, w) \<Rightarrow> (let (c, m1) = rnew r (m\<lparr>ext := w\<rparr>) in (Some c, m1)))"

definition pq_getResult :: "('w, 'r) pg_env \<Rightarrow> nat \<Rightarrow> 'w mach \<Rightarrow> 'r cell option \<times> 'w mach" where
  "pq_getResult E p m = pq_result (PQgetResult E p (ext m)) m"

definition pq_exec :: "('w, 'r) pg_env \<Rightarrow> nat \<Rightarrow> string \<Rightarrow> 'w mach \<Rightarrow> 'r cell option \<times> 'w mach" where
  "pq_exec E p s m = pq_result (PQexec E p s (ext m)) m"

definition pq_clear :: "'r cell \<Rightarrow> 'w mach \<Rightarrow> 'w mach" where
  "pq_clear c m = rfree (addr c) m"

text \<open>The \<open>PGcancel\<close> object lives only inside a call, so it never enters the ledger.\<close>

definition pq_cancel :: "('w, 'r) pg_env \<Rightarrow> nat \<Rightarrow> 'w \<Rightarrow> 'w" where
  "pq_cancel E p w = (if PQgetCancel_ok E p w then PQcancel E p w else w)"

lemma pq_result_Some:
  "pq_result rw m = (Some c, m') \<Longrightarrow> acquired m [addr c] m' \<and> fst rw = Some (contents c)"
  by (cases rw) (auto simp: pq_result_def rnew_def acquired_def split: option.splits)

lemma pq_result_None: "pq_result rw m = (None, m') \<Longrightarrow> acquired m [] m' \<and> fst rw = None"
  by (cases rw) (auto simp: pq_result_def rnew_def acquired_def split: option.splits)

lemma pq_result_oom [ledger]: "pq_result rw m = (r, m') \<Longrightarrow> oom m' = oom m \<and> signals m' = signals m"
  by (cases rw) (auto simp: pq_result_def rnew_def split: option.splits)

lemma pq_connect_acquired: "pq_connect E ci m = (p, m') \<Longrightarrow> acquired m [p] m'"
  by (auto simp: pq_connect_def rnew_def acquired_def)

end
