(* ===== verification/Pg_Conn.thy ===== *)
theory Pg_Conn
  imports Pg_Env
begin

text \<open>
  One PostgreSQL connection: \<open>struct native_conn\<close> of native_pool_internal.h and the
  operations of native_pool.c on it: the slot payload and its release, the four submit
  functions, the multi-read result chain and \<open>poll_result\<close>. A \<open>native_conn_t*\<close> argument
  is an option (\<open>None\<close>: NULL); an operation returns the updated connection. 0/1 fields
  are \<open>bool\<close>; messages to stderr are left out.
\<close>

section \<open>State\<close>

text \<open>A chain node, at some address of the connection's \<open>chain_store\<close>.\<close>

record 'r pg_result_node =
  nd_result :: "'r cell"
  nd_next :: "nat option"

record 'r native_conn =
  pg :: "nat option"
  index :: int
  in_use :: bool
  worker :: nat
  slot_mutex :: nat
  slot_cond :: nat
  slot_filled :: bool
  is_pipeline :: bool
  is_params :: bool
  is_multi_read :: bool
  sql :: "string cell list cell option"
  sql_count :: int
  n_params :: int
  param_types :: "int list cell option"
  param_values :: "string cell option list cell option"
  param_lengths :: "int list cell option"
  param_formats :: "int list cell option"
  result_format :: int
  port_id :: int
  timeout_ms :: int
  chain_store :: "(nat \<times> 'r pg_result_node) list"
  chain_head :: "nat option"
  chain_tail :: "nat option"
  shutdown_requested :: bool

section \<open>The slot payload\<close>

text \<open>
  \<open>for (i = 0; i < n; i++) free(v[i]); free(v)\<close>: the loop bound is a separate field, so an
  array shorter than the bound is read past its end.
\<close>

definition free_vector :: "int \<Rightarrow> 'a cell option list cell option \<Rightarrow> 'w mach \<Rightarrow> 'w mach" where
  "free_vector n v m =
     (case v of
        None \<Rightarrow> m
      | Some c \<Rightarrow>
          (let (es, m1) = read_array (nat n) (contents c) m
           in rfree (addr c) (fold cfree es m1)))"

definition native_pool_free_slot_payload ::
  "'r native_conn \<Rightarrow> 'w mach \<Rightarrow> 'r native_conn \<times> 'w mach" where
  "native_pool_free_slot_payload conn m =
     (let m1 = free_vector (sql_count conn)
                 (map_option (\<lambda>c. Cell (addr c) (map Some (contents c))) (sql conn)) m;
          m2 = free_vector (n_params conn) (param_values conn) m1;
          m3 = cfree (param_types conn) m2;
          m4 = cfree (param_lengths conn) m3;
          m5 = cfree (param_formats conn) m4
      in (conn\<lparr>sql := None, sql_count := 0, is_pipeline := False,
               param_values := None, param_types := None, param_lengths := None,
               param_formats := None, n_params := 0, is_params := False,
               is_multi_read := False, result_format := 0, port_id := 0, timeout_ms := 0\<rparr>, m5))"

section \<open>Submitting\<close>

text \<open>The copy loop of \<open>submit_locked\<close>: on a failed copy the earlier copies are freed.\<close>

fun dup_queries ::
  "string option list \<Rightarrow> string cell list \<Rightarrow> 'w mach \<Rightarrow> string cell list option \<times> 'w mach" where
  "dup_queries [] copies m = (Some copies, m)"
| "dup_queries (q # qs) copies m =
     (case dup_string q m of
        (None, m1) \<Rightarrow> (None, free_all (map addr copies) m1)
      | (Some c, m1) \<Rightarrow> dup_queries qs (copies @ [c]) m1)"

definition submit_locked ::
  "'r native_conn option \<Rightarrow> bool \<Rightarrow> bool \<Rightarrow> string option list option \<Rightarrow> int \<Rightarrow> int \<Rightarrow> int \<Rightarrow>
   'w mach \<Rightarrow> int \<times> 'r native_conn option \<times> 'w mach" where
  "submit_locked conn pipeline multi_read queries count port timeout m =
     (case (conn, queries) of
        (Some c, Some qs) \<Rightarrow>
          (if count \<le> 0 then (0, conn, m)
           else let m1 = mutex_lock (slot_mutex c) m in
             (if slot_filled c \<or> shutdown_requested c then
                (0, conn, mutex_unlock (slot_mutex c) m1)
              else (case halloc () m1 of
                  (None, m2) \<Rightarrow> (0, conn, mutex_unlock (slot_mutex c) m2)
                | (Some v, m2) \<Rightarrow>
                    (let (qv, m3) = read_array (nat count) qs m2 in
                     (case dup_queries qv [] m3 of
                        (None, m4) \<Rightarrow> (0, conn, mutex_unlock (slot_mutex c) (rfree (addr v) m4))
                      | (Some copies, m4) \<Rightarrow>
                          (1, Some (c\<lparr>slot_filled := True, is_pipeline := pipeline,
                                      is_multi_read := multi_read,
                                      sql := Some (Cell (addr v) copies), sql_count := count,
                                      port_id := port, timeout_ms := timeout\<rparr>),
                           mutex_unlock (slot_mutex c) (cond_signal (slot_cond c) m4)))))))
      | _ \<Rightarrow> (0, conn, m))"

definition pool_submit_query ::
  "'r native_conn option \<Rightarrow> string option \<Rightarrow> int \<Rightarrow> int \<Rightarrow> 'w mach \<Rightarrow>
   int \<times> 'r native_conn option \<times> 'w mach" where
  "pool_submit_query conn q port timeout m =
     submit_locked conn False False (Some [q]) 1 port timeout m"

definition pool_submit_pipeline ::
  "'r native_conn option \<Rightarrow> string option list option \<Rightarrow> int \<Rightarrow> int \<Rightarrow> int \<Rightarrow> 'w mach \<Rightarrow>
   int \<times> 'r native_conn option \<times> 'w mach" where
  "pool_submit_pipeline conn queries query_count port timeout m =
     submit_locked conn True False queries query_count port timeout m"

definition pool_submit_multi_read ::
  "'r native_conn option \<Rightarrow> string option list option \<Rightarrow> int \<Rightarrow> int \<Rightarrow> int \<Rightarrow> 'w mach \<Rightarrow>
   int \<times> 'r native_conn option \<times> 'w mach" where
  "pool_submit_multi_read conn queries query_count port timeout m =
     submit_locked conn False True queries query_count port timeout m"

text \<open>
  One parameter value: the caller's buffer is the readable bytes at the pointer. A text
  value (format 0) is copied up to and with its NUL; a binary one has its given length. A
  negative length is a huge \<open>size_t\<close>, which \<open>malloc\<close> refuses. Copying more bytes than the
  buffer has is a fault.
\<close>

definition dup_param :: "int \<Rightarrow> int \<Rightarrow> string \<Rightarrow> 'w mach \<Rightarrow> string cell option \<times> 'w mach" where
  "dup_param len fmt buf m =
     (if fmt = 0 then
        (let m1 = (if CHR 0x00 \<in> set buf then m else m\<lparr>fault := True\<rparr>)
         in halloc (takeWhile (\<lambda>b. b \<noteq> CHR 0x00) buf @ [CHR 0x00]) m1)
      else if len < 0 then (None, m)
      else (let (bytes, m1) = read_array (nat len) buf m in halloc bytes m1))"

text \<open>
  The value loop: NULL stays NULL. The three lists run in step; a shorter one ends the loop
  early, which \<open>read_array\<close> has already recorded as a fault.
\<close>

fun dup_params ::
  "string option list \<Rightarrow> int list \<Rightarrow> int list \<Rightarrow> string cell option list \<Rightarrow> 'w mach \<Rightarrow>
   string cell option list option \<times> 'w mach" where
  "dup_params (None # vs) (l # ls) (f # fs) copies m = dup_params vs ls fs (copies @ [None]) m"
| "dup_params (Some b # vs) (l # ls) (f # fs) copies m =
     (case dup_param l f b m of
        (None, m1) \<Rightarrow> (None, fold cfree copies m1)
      | (Some c, m1) \<Rightarrow> dup_params vs ls fs (copies @ [Some c]) m1)"
| "dup_params _ _ _ copies m = (Some copies, m)"

text \<open>
  The parameter arrays, as committed to the slot. All four allocations are tried before the
  NULL checks; \<open>calloc\<close> zeroes the types, which stay zero when the caller passes NULL.
\<close>

definition copy_params ::
  "int \<Rightarrow> int list option \<Rightarrow> string option list \<Rightarrow> int list \<Rightarrow> int list \<Rightarrow> 'w mach \<Rightarrow>
   (int list cell \<times> string cell option list cell \<times> int list cell \<times> int list cell) option \<times> 'w mach"
where
  "copy_params n types vals lens fmts m =
     (let (t, m1) = halloc () m; (l, m2) = halloc () m1;
          (f, m3) = halloc () m2; (v, m4) = halloc () m3
      in case (t, l, f, v) of
           (Some t, Some l, Some f, Some v) \<Rightarrow>
             (let (tys, m5) = (case types of None \<Rightarrow> (replicate (nat n) 0, m4)
                                | Some ts \<Rightarrow> read_array (nat n) ts m4);
                  (lns, m6) = read_array (nat n) lens m5;
                  (fms, m7) = read_array (nat n) fmts m6;
                  (vls, m8) = read_array (nat n) vals m7
              in case dup_params vls lns fms [] m8 of
                   (None, m9) \<Rightarrow> (None, free_all [addr v, addr f, addr l, addr t] m9)
                 | (Some copies, m9) \<Rightarrow>
                     (Some (Cell (addr t) tys, Cell (addr v) copies,
                            Cell (addr l) lns, Cell (addr f) fms), m9))
         | _ \<Rightarrow> (None, cfree v (cfree f (cfree l (cfree t m4)))))"

definition pool_submit_query_params ::
  "'r native_conn option \<Rightarrow> string option \<Rightarrow> int \<Rightarrow> int list option \<Rightarrow> string option list option \<Rightarrow>
   int list option \<Rightarrow> int list option \<Rightarrow> int \<Rightarrow> int \<Rightarrow> int \<Rightarrow> 'w mach \<Rightarrow>
   int \<times> 'r native_conn option \<times> 'w mach" where
  "pool_submit_query_params conn q n types vals lens fmts resfmt port timeout m =
     (case (conn, q) of
        (Some c, Some text) \<Rightarrow>
          (if n < 0 then (0, conn, m)
           else if n > 0 \<and> (vals = None \<or> lens = None \<or> fmts = None) then (0, conn, m)
           else let m1 = mutex_lock (slot_mutex c) m in
             (if slot_filled c \<or> shutdown_requested c then
                (0, conn, mutex_unlock (slot_mutex c) m1)
              else (case dup_string (Some text) m1 of
                  (None, m2) \<Rightarrow> (0, conn, mutex_unlock (slot_mutex c) m2)
                | (Some s, m2) \<Rightarrow>
                    (case halloc () m2 of
                       (None, m3) \<Rightarrow> (0, conn, mutex_unlock (slot_mutex c) (rfree (addr s) m3))
                     | (Some sv, m3) \<Rightarrow>
                         (let committed = c\<lparr>slot_filled := True, is_pipeline := False,
                                is_params := True, sql := Some (Cell (addr sv) [s]),
                                sql_count := 1, n_params := n, param_types := None,
                                param_values := None, param_lengths := None,
                                param_formats := None, result_format := resfmt,
                                port_id := port, timeout_ms := timeout\<rparr>
                          in if n > 0 then
                               (case copy_params n types (the vals) (the lens) (the fmts) m3 of
                                  (None, m4) \<Rightarrow>
                                    (0, conn, mutex_unlock (slot_mutex c)
                                       (free_all [addr s, addr sv] m4))
                                | (Some (t, v, l, f), m4) \<Rightarrow>
                                    (1, Some (committed\<lparr>param_types := Some t,
                                                param_values := Some v, param_lengths := Some l,
                                                param_formats := Some f\<rparr>),
                                     mutex_unlock (slot_mutex c) (cond_signal (slot_cond c) m4)))
                             else
                               (1, Some committed,
                                mutex_unlock (slot_mutex c) (cond_signal (slot_cond c) m3)))))))
      | _ \<Rightarrow> (0, conn, m))"

section \<open>The multi-read result chain\<close>

text \<open>
  The loop of \<open>native_pool_free_result_chain\<close>. A freed node leaves the store, so the loop
  ends on every chain; reaching an address that holds no node is a use after free.
\<close>

function free_chain_loop ::
  "nat option \<Rightarrow> (nat \<times> 'r pg_result_node) list \<Rightarrow> 'w mach \<Rightarrow>
   (nat \<times> 'r pg_result_node) list \<times> 'w mach" where
  "free_chain_loop None st m = (st, m)"
| "free_chain_loop (Some a) st m =
     (case map_of st a of
        None \<Rightarrow> (st, m\<lparr>fault := True\<rparr>)
      | Some nd \<Rightarrow>
          free_chain_loop (nd_next nd) (AList.delete a st)
            (rfree a (pq_clear (nd_result nd) m)))"
  by pat_completeness auto
termination
proof (relation "measure (\<lambda>(p, st, m). length st)", goal_cases)
  case (2 a st m nd)
  then have "a \<in> fst ` set st"
    by (metis (no_types, lifting) domI dom_map_of_conv_image_fst)
  then have "length (AList.delete a st) < length st"
    unfolding AList.delete_eq by (force simp: length_filter_less)
  then show ?case by simp
qed simp

definition native_pool_free_result_chain ::
  "'r native_conn \<Rightarrow> 'w mach \<Rightarrow> 'r native_conn \<times> 'w mach" where
  "native_pool_free_result_chain conn m =
     (let (st, m1) = free_chain_loop (chain_head conn) (chain_store conn) m
      in (conn\<lparr>chain_store := st, chain_head := None, chain_tail := None\<rparr>, m1))"

definition native_pool_chain_append ::
  "'r native_conn \<Rightarrow> 'r cell \<Rightarrow> 'w mach \<Rightarrow> int \<times> 'r native_conn \<times> 'w mach" where
  "native_pool_chain_append conn result m =
     (case halloc () m of
        (None, m1) \<Rightarrow> (0, conn, m1)
      | (Some c, m1) \<Rightarrow>
          (let node = addr c;
               st = AList.update node \<lparr>nd_result = result, nd_next = None\<rparr> (chain_store conn)
           in case chain_tail conn of
                None \<Rightarrow>
                  (1, conn\<lparr>chain_store := st, chain_head := Some node, chain_tail := Some node\<rparr>, m1)
              | Some t \<Rightarrow>
                  (case map_of st t of
                     None \<Rightarrow> (1, conn\<lparr>chain_store := st, chain_tail := Some node\<rparr>, m1\<lparr>fault := True\<rparr>)
                   | Some nd \<Rightarrow>
                       (1, conn\<lparr>chain_store := AList.update t (nd\<lparr>nd_next := Some node\<rparr>) st,
                                chain_tail := Some node\<rparr>, m1))))"

definition poll_result ::
  "('w, 'r) pg_env \<Rightarrow> 'r native_conn option \<Rightarrow> 'w mach \<Rightarrow>
   'r cell option \<times> 'r native_conn option \<times> 'w mach" where
  "poll_result E conn m =
     (case conn of
        None \<Rightarrow> (None, conn, m)
      | Some c \<Rightarrow>
          (case pg c of
             None \<Rightarrow> (None, conn, m)
           | Some p \<Rightarrow>
               (case chain_head c of
                  Some a \<Rightarrow>
                    (case map_of (chain_store c) a of
                       None \<Rightarrow> (None, conn, m\<lparr>fault := True\<rparr>)
                     | Some nd \<Rightarrow>
                         (Some (nd_result nd),
                          Some (c\<lparr>chain_store := AList.delete a (chain_store c),
                                  chain_head := nd_next nd,
                                  chain_tail := (if nd_next nd = None then None else chain_tail c)\<rparr>),
                          rfree a m))
                | None \<Rightarrow> (let (r, m1) = pq_getResult E p m in (r, conn, m1)))))"

definition pool_cancel :: "('w, 'r) pg_env \<Rightarrow> 'r native_conn option \<Rightarrow> 'w mach \<Rightarrow> 'w mach" where
  "pool_cancel E conn m =
     (case conn of
        None \<Rightarrow> m
      | Some c \<Rightarrow> (case pg c of None \<Rightarrow> m | Some p \<Rightarrow> m\<lparr>ext := pq_cancel E p (ext m)\<rparr>))"

section \<open>What the slot owns\<close>

definition vec_ids :: "'a cell option list cell option \<Rightarrow> nat list" where
  "vec_ids v = (case v of None \<Rightarrow> [] | Some c \<Rightarrow> concat (map opt_ids (contents c)) @ [addr c])"

definition sql_ids :: "string cell list cell option \<Rightarrow> nat list" where
  "sql_ids v = (case v of None \<Rightarrow> [] | Some c \<Rightarrow> map addr (contents c) @ [addr c])"

definition slot_ids :: "'r native_conn \<Rightarrow> nat list" where
  "slot_ids c = sql_ids (sql c) @ vec_ids (param_values c) @ opt_ids (param_types c) @
     opt_ids (param_lengths c) @ opt_ids (param_formats c)"

lemma ids_simps [simp]:
  "vec_ids None = []" "vec_ids (Some v) = concat (map opt_ids (contents v)) @ [addr v]"
  "sql_ids None = []" "sql_ids (Some q) = map addr (contents q) @ [addr q]"
  by (simp_all add: vec_ids_def sql_ids_def)

text \<open>
  The slot invariant. An empty slot owns nothing and has every mode flag down, which is why
  a submit need only raise its own flag; a full slot has its counts in step with its arrays
  and exactly one way to be executed.
\<close>

definition clean_slot :: "'r native_conn \<Rightarrow> bool" where
  "clean_slot c \<longleftrightarrow> sql c = None \<and> sql_count c = 0 \<and> \<not> is_pipeline c \<and> \<not> is_params c \<and>
     \<not> is_multi_read c \<and> n_params c = 0 \<and> param_types c = None \<and> param_values c = None \<and>
     param_lengths c = None \<and> param_formats c = None"

definition full_slot :: "'r native_conn \<Rightarrow> bool" where
  "full_slot c \<longleftrightarrow>
     (\<exists>v. sql c = Some v \<and> contents v \<noteq> [] \<and> sql_count c = int (length (contents v))) \<and>
     (case param_values c of
        None \<Rightarrow> n_params c = 0 \<and> param_types c = None \<and> param_lengths c = None \<and>
          param_formats c = None
      | Some v \<Rightarrow> is_params c \<and> n_params c = int (length (contents v))) \<and>
     \<not> (is_pipeline c \<and> is_multi_read c) \<and> \<not> (is_params c \<and> (is_pipeline c \<or> is_multi_read c)) \<and>
     (\<not> is_pipeline c \<and> \<not> is_multi_read c \<longrightarrow> sql_count c = 1)"

definition slot_inv :: "'r native_conn \<Rightarrow> bool" where
  "slot_inv c \<longleftrightarrow> (if slot_filled c then full_slot c else clean_slot c)"

lemma clean_slot_ids: "clean_slot c \<Longrightarrow> slot_ids c = []"
  by (simp add: clean_slot_def slot_ids_def)

subsection \<open>Release\<close>

lemma free_vector_ids:
  "(\<And>c. v = Some c \<Longrightarrow> nat n = length (contents c)) \<Longrightarrow> free_vector n v m = free_all (vec_ids v) m"
  by (cases v) (simp_all add: free_vector_def read_array_enough fold_cfree free_all_append)

lemma vec_ids_some: "vec_ids (map_option (\<lambda>c. Cell (addr c) (map Some (contents c))) q) = sql_ids q"
  by (cases q) (simp_all add: comp_def concat_map_singleton)

lemma free_slot_payload_eq:
  fixes m :: "'w mach"
  assumes "slot_inv c \<or> clean_slot c"
  shows "\<exists>c'. native_pool_free_slot_payload c m = (c', free_all (slot_ids c) m) \<and> clean_slot c' \<and>
     slot_filled c' = slot_filled c"
proof -
  have sq: "nat (sql_count c) = length (contents v)" if "sql c = Some v" for v
    using assms that by (auto simp: slot_inv_def full_slot_def clean_slot_def split: if_splits)
  have pv: "nat (n_params c) = length (contents v)" if "param_values c = Some v" for v
    using assms that by (auto simp: slot_inv_def full_slot_def clean_slot_def split: if_splits)
  have "free_vector (sql_count c)
      (map_option (\<lambda>c. Cell (addr c) (map Some (contents c))) (sql c)) m = free_all (sql_ids (sql c)) m"
    using sq by (subst free_vector_ids) (auto simp: vec_ids_some)
  moreover have "free_vector (n_params c) (param_values c) m1 = free_all (vec_ids (param_values c)) m1"
    for m1 :: "'w mach"
    using pv by (intro free_vector_ids) auto
  ultimately show ?thesis
    by (auto simp: native_pool_free_slot_payload_def slot_ids_def Let_def cfree_free_all
        free_all_append clean_slot_def)
qed

subsection \<open>The copy loops\<close>

lemma dup_queries_Some:
  "dup_queries qs cs m = (Some ds, m') \<Longrightarrow>
   \<exists>new. ds = cs @ new \<and> map (\<lambda>c. Some (contents c)) new = qs \<and> acquired m (map addr new) m'"
proof (induction qs arbitrary: cs m)
  case Nil
  then show ?case by auto
next
  case (Cons q qs)
  then obtain c m1 where c: "dup_string q m = (Some c, m1)"
    and rest: "dup_queries qs (cs @ [c]) m1 = (Some ds, m')"
    by (auto split: prod.splits option.splits)
  from dup_string_Some [OF c] have q: "q = Some (contents c)" and a1: "acquired m [addr c] m1"
    by auto
  from Cons.IH [OF rest] obtain new where
    "ds = (cs @ [c]) @ new" "map (\<lambda>c. Some (contents c)) new = qs" "acquired m1 (map addr new) m'"
    by blast
  with q acquired_trans [OF a1, of "map addr new" m'] show ?case
    by (intro exI [of _ "c # new"]) auto
qed

lemma acquired_rollback:
  "ledger_ok m \<Longrightarrow> acquired m xs m1 \<Longrightarrow> acquired m1 [] m2 \<Longrightarrow> acquired m [] (free_all xs m2)"
  using acquired_trans [of m xs m1 "[]" m2] acquired_free_every [of m xs m2 xs]
  by (auto simp: acquired_def)

lemma dup_queries_None:
  assumes ok: "ledger_ok m0"
  shows "acquired m0 (map addr cs) m \<Longrightarrow> dup_queries qs cs m = (None, m') \<Longrightarrow> acquired m0 [] m'"
proof (induction qs arbitrary: cs m)
  case Nil
  then show ?case by simp
next
  case (Cons q qs)
  show ?case
  proof (cases "dup_string q m")
    case (Pair r m1)
    show ?thesis
    proof (cases r)
      case None
      with Cons.prems Pair have "m' = free_all (map addr cs) m1" by simp
      with Cons.prems(1) dup_string_None [of q m m1] Pair None ok show ?thesis
        by (simp add: acquired_rollback)
    next
      case (Some c)
      with Cons.prems Pair have "dup_queries qs (cs @ [c]) m1 = (None, m')" by simp
      moreover have "acquired m0 (map addr (cs @ [c])) m1"
        using acquired_trans [OF Cons.prems(1)] dup_string_Some [of q m c m1] Pair Some by simp
      ultimately show ?thesis
        using Cons.IH by blast
    qed
  qed
qed

lemma dup_queries_frame:
  "dup_queries qs cs m = (r, m') \<Longrightarrow> signals m' = signals m \<and> ext m' = ext m"
proof (induction qs arbitrary: cs m)
  case Nil
  then show ?case by simp
next
  case (Cons q qs)
  then show ?case
    by (fastforce split: prod.splits option.splits dest: dup_string_frame simp: free_all_frame)
qed

lemma dup_queries_plenty:
  "oom m = [] \<Longrightarrow> None \<notin> set qs \<Longrightarrow> \<exists>ds m'. dup_queries qs cs m = (Some ds, m')"
proof (induction qs arbitrary: cs m)
  case Nil
  then show ?case by simp
next
  case (Cons q qs)
  then obtain b where "q = Some b" by (cases q) auto
  moreover from Cons.prems obtain c m1 where "dup_string (Some b) m = (Some c, m1)" "oom m1 = []"
    using dup_string_plenty by blast
  ultimately show ?case
    using Cons by simp
qed

subsection \<open>Submission is all or nothing\<close>

text \<open>
  What one submission does to connection and ledger: refused, it changes neither and leaves
  the mutex as it was; accepted, the slot owns exactly the resources acquired and the worker
  has been signalled once.
\<close>

definition submit_refused :: "'r native_conn \<Rightarrow> 'w mach \<Rightarrow> int \<times> 'r native_conn option \<times> 'w mach \<Rightarrow> bool" where
  "submit_refused c m res \<longleftrightarrow>
     (\<exists>m'. res = (0, Some c, m') \<and> acquired m [] m' \<and> signals m' = signals m \<and> ext m' = ext m)"

definition submit_accepted ::
  "'r native_conn \<Rightarrow> 'w mach \<Rightarrow> int \<Rightarrow> int \<Rightarrow> int \<times> 'r native_conn option \<times> 'w mach \<Rightarrow> bool" where
  "submit_accepted c m port timeout res \<longleftrightarrow>
     (\<exists>c' m'. res = (1, Some c', m') \<and> \<not> slot_filled c \<and> \<not> shutdown_requested c \<and>
        slot_filled c' \<and> slot_inv c' \<and> port_id c' = port \<and> timeout_ms c' = timeout \<and>
        acquired m (slot_ids c') m' \<and> signals m' = slot_cond c # signals m \<and> ext m' = ext m)"

text \<open>No field but those of the slot changes.\<close>

definition same_but_slot :: "'r native_conn \<Rightarrow> 'r native_conn \<Rightarrow> bool" where
  "same_but_slot c c' \<longleftrightarrow>
     c' = c\<lparr>slot_filled := slot_filled c', is_pipeline := is_pipeline c', is_params := is_params c',
       is_multi_read := is_multi_read c', sql := sql c', sql_count := sql_count c',
       n_params := n_params c', param_types := param_types c', param_values := param_values c',
       param_lengths := param_lengths c', param_formats := param_formats c',
       result_format := result_format c', port_id := port_id c', timeout_ms := timeout_ms c'\<rparr>"

lemma lock_frame_eq: "a \<notin> held m \<Longrightarrow> mutex_unlock a (mutex_lock a m) = m"
  by (simp add: mutex_lock_def mutex_unlock_def)

lemma mutex_unlock_signals [simp]:
  "signals (mutex_unlock a m) = signals m" "ext (mutex_unlock a m) = ext m"
  by (simp_all add: ledger)

lemma submit_locked_refuses:
  assumes "slot_filled c \<or> shutdown_requested c" "slot_mutex c \<notin> held m"
  shows "submit_refused c m (submit_locked (Some c) p mr qs n port t m)"
  using assms by (cases qs) (auto simp: submit_locked_def submit_refused_def Let_def lock_frame_eq)

text \<open>The array and the copies: given back when one cannot be made, in the slot otherwise.\<close>

lemma copies_refused:
  assumes ok: "ledger_ok m" and nh: "l \<notin> held m" and v: "acquired (mutex_lock l m) [a] m2"
    and dup: "dup_queries qs [] m2 = (None, m4)"
  shows "acquired m [] (mutex_unlock l (rfree a m4))"
proof -
  have ok2: "ledger_ok m2" using ok acquired_ledger_ok [OF _ v] by simp
  have "acquired m2 [] m4" using dup_queries_None [OF ok2, of "[]" m2 qs m4] dup by simp
  with v ok have "acquired (mutex_lock l m) [] (free_all [a] m4)"
    by (intro acquired_rollback [of "mutex_lock l m" "[a]" m2 m4]) auto
  then show ?thesis using nh by (auto intro: lock_unlock)
qed

lemma copies_accepted:
  fixes port t :: int
  assumes nh: "slot_mutex c \<notin> held m" and v: "acquired (mutex_lock (slot_mutex c) m) [a] m2"
    and dup: "dup_queries qs [] m2 = (Some ds, m4)" and fr: "signals m4 = signals m" "ext m4 = ext m"
    and clean: "clean_slot c" "\<not> slot_filled c" "\<not> shutdown_requested c" and n: "0 < n" "length qs = nat n"
    and mode: "\<not> (p \<and> mr)" "\<not> p \<and> \<not> mr \<Longrightarrow> n = 1"
  defines "c' \<equiv> c\<lparr>slot_filled := True, is_pipeline := p, is_multi_read := mr,
        sql := Some (Cell a ds), sql_count := n, port_id := port, timeout_ms := t\<rparr>"
    and "m' \<equiv> mutex_unlock (slot_mutex c) (cond_signal (slot_cond c) m4)"
  shows "submit_accepted c m port t (1, Some c', m') \<and> same_but_slot c c' \<and> map (\<lambda>q. Some (contents q)) ds = qs"
proof -
  from dup dup_queries_Some [of qs "[]" m2 ds m4]
  have ds: "map (\<lambda>q. Some (contents q)) ds = qs" "acquired m2 (map addr ds) m4" by auto
  have lends: "length ds = nat n" using arg_cong [OF ds(1), of length] n by simp
  have "acquired (mutex_lock (slot_mutex c) m) (map addr ds @ [a]) m4"
    using acquired_trans [OF v ds(2)]
    by (rule acquired_perm) (use acquired_trans [OF v ds(2)] in \<open>auto simp: acquired_def\<close>)
  then have "acquired m (slot_ids c') m'"
    using nh clean(1) by (auto simp: slot_ids_def clean_slot_def c'_def m'_def intro!: lock_unlock)
  moreover have "slot_inv c'"
    using clean n lends mode by (auto simp: slot_inv_def full_slot_def clean_slot_def c'_def)
  ultimately show ?thesis
    using clean fr ds(1) n by (auto simp: c'_def m'_def submit_accepted_def same_but_slot_def ledger clean_slot_def)
qed

lemma submit_locked_cases:
  fixes port t :: int
  assumes ok: "ledger_ok m" and nh: "slot_mutex c \<notin> held m"
    and len: "nat n \<le> length qs" and inv: "slot_inv c"
    and mode: "\<not> (p \<and> mr)" "\<not> p \<and> \<not> mr \<Longrightarrow> n = 1"
  defines "res \<equiv> submit_locked (Some c) p mr (Some qs) n port t m"
  shows "submit_refused c m res \<or>
    (submit_accepted c m port t res \<and> 0 < n \<and>
     (\<exists>c' m'. res = (1, Some c', m') \<and> same_but_slot c c' \<and> is_pipeline c' = p \<and>
        is_multi_read c' = mr \<and> \<not> is_params c' \<and>
        map (\<lambda>q. Some (contents q)) (contents (the (sql c'))) = take (nat n) qs))"
proof (cases "n \<le> 0 \<or> slot_filled c \<or> shutdown_requested c")
  case True
  then show ?thesis
    using nh by (auto simp: res_def submit_locked_def submit_refused_def Let_def lock_frame_eq)
next
  case False
  let ?m1 = "mutex_lock (slot_mutex c) m"
  obtain r m2 where alloc: "halloc () ?m1 = (r, m2)" by (cases "halloc () ?m1")
  show ?thesis
  proof (cases r)
    case None
    then have "acquired m [] (mutex_unlock (slot_mutex c) m2)"
      using nh halloc_None [of "()" ?m1 m2] alloc by (auto intro: lock_unlock)
    with False None alloc halloc_frame [OF alloc] show ?thesis
      by (auto simp: res_def submit_locked_def submit_refused_def Let_def ledger)
  next
    case (Some v)
    then have v: "acquired ?m1 [addr v] m2"
      using halloc_Some [of "()" ?m1 v m2] alloc by simp
    obtain r4 m4 where dup: "dup_queries (take (nat n) qs) [] m2 = (r4, m4)"
      by (cases "dup_queries (take (nat n) qs) [] m2")
    have fr: "signals m4 = signals m" "ext m4 = ext m"
      using dup_queries_frame [OF dup] halloc_frame [OF alloc] by (simp_all add: ledger)
    show ?thesis
    proof (cases r4)
      case None
      have "acquired m [] (mutex_unlock (slot_mutex c) (rfree (addr v) m4))"
        by (rule copies_refused [OF ok nh v dup [unfolded None]])
      moreover have "signals (rfree (addr v) m4) = signals m" "ext (rfree (addr v) m4) = ext m"
        using fr free_all_frame [of "[addr v]" m4] by simp_all
      ultimately show ?thesis
        using False Some None alloc dup len
        by (auto simp: res_def submit_locked_def submit_refused_def Let_def read_array_enough)
    next
      case ds: (Some ds)
      let ?c' = "c\<lparr>slot_filled := True, is_pipeline := p, is_multi_read := mr,
        sql := Some (Cell (addr v) ds), sql_count := n, port_id := port, timeout_ms := t\<rparr>"
      have clean: "clean_slot c" "\<not> slot_filled c" "\<not> shutdown_requested c" "0 < n" "length (take (nat n) qs) = nat n"
        using inv False len by (auto simp: slot_inv_def)
      have "res = (1, Some ?c', mutex_unlock (slot_mutex c) (cond_signal (slot_cond c) m4))"
        using False Some ds alloc dup len by (simp add: res_def submit_locked_def Let_def read_array_enough)
      with copies_accepted [OF nh v dup [unfolded ds] fr clean mode, of port t] clean(1,4) show ?thesis
        by (auto simp: clean_slot_def)
    qed
  qed
qed

end
