(* ===== verification/Pg_Params.thy ===== *)
theory Pg_Params
  imports Pg_Conn
begin

text \<open>
  Submission with parameters (\<open>pool_submit_query_params\<close>): under the caller's side of the
  contract (arrays as long as announced, text values NUL-terminated, binary buffers as long
  as their length says) the copies equal the caller's values and every failed allocation
  gives back all that came before it.
\<close>

section \<open>One value\<close>

definition param_ok :: "int \<Rightarrow> int \<Rightarrow> string \<Rightarrow> bool" where
  "param_ok len fmt buf \<longleftrightarrow> (if fmt = 0 then CHR 0x00 \<in> set buf else nat len \<le> length buf)"

text \<open>The bytes the worker hands to libpq for a value.\<close>

definition value_bytes :: "int \<Rightarrow> int \<Rightarrow> string \<Rightarrow> string" where
  "value_bytes len fmt buf =
     (if fmt = 0 then takeWhile (\<lambda>b. b \<noteq> CHR 0x00) buf @ [CHR 0x00] else take (nat len) buf)"

lemma dup_param_Some:
  "param_ok l f b \<Longrightarrow> dup_param l f b m = (Some c, m') \<Longrightarrow>
   acquired m [addr c] m' \<and> contents c = value_bytes l f b"
  by (auto simp: param_ok_def dup_param_def value_bytes_def read_array_enough Let_def
      split: if_splits dest: halloc_Some)

lemma dup_param_None: "param_ok l f b \<Longrightarrow> dup_param l f b m = (None, m') \<Longrightarrow> acquired m [] m'"
  by (auto simp: param_ok_def dup_param_def read_array_enough Let_def
      split: if_splits dest: halloc_None)

lemma dup_param_frame:
  "dup_param l f b m = (r, m') \<Longrightarrow> signals m' = signals m \<and> ext m' = ext m"
  by (auto simp: dup_param_def read_array_def Let_def split: if_splits dest!: halloc_frame)

section \<open>The value loop\<close>

fun params_ok :: "string option list \<Rightarrow> int list \<Rightarrow> int list \<Rightarrow> bool" where
  "params_ok (v # vs) (l # ls) (f # fs) =
     ((case v of None \<Rightarrow> True | Some b \<Rightarrow> param_ok l f b) \<and> params_ok vs ls fs)"
| "params_ok vs ls fs = (vs = [] \<and> ls = [] \<and> fs = [])"

fun params_bytes :: "string option list \<Rightarrow> int list \<Rightarrow> int list \<Rightarrow> string option list" where
  "params_bytes (v # vs) (l # ls) (f # fs) = map_option (value_bytes l f) v # params_bytes vs ls fs"
| "params_bytes _ _ _ = []"

definition val_ids :: "string cell option list \<Rightarrow> nat list" where
  "val_ids vs = concat (map opt_ids vs)"

lemma val_ids_simps [simp]:
  "val_ids [] = []" "val_ids (v # vs) = opt_ids v @ val_ids vs"
  "val_ids (vs @ ws) = val_ids vs @ val_ids ws"
  by (simp_all add: val_ids_def)

lemma params_ok_length: "params_ok vs ls fs \<Longrightarrow> length ls = length vs \<and> length fs = length vs"
  by (induction vs ls fs rule: params_ok.induct) auto

lemma dup_params_Some:
  "params_ok vs ls fs \<Longrightarrow> dup_params vs ls fs cs m = (Some ds, m') \<Longrightarrow>
   \<exists>new. ds = cs @ new \<and> map (map_option contents) new = params_bytes vs ls fs \<and>
     acquired m (val_ids new) m'"
proof (induction vs ls fs cs m rule: dup_params.induct)
  case (1 vs l ls f fs cs m)
  then obtain new where "ds = (cs @ [None]) @ new"
    "map (map_option contents) new = params_bytes vs ls fs" "acquired m (val_ids new) m'"
    by auto
  then show ?case
    by (intro exI [of _ "None # new"]) auto
next
  case (2 b vs l ls f fs cs m)
  then obtain c m1 where c: "dup_param l f b m = (Some c, m1)"
    and rest: "dup_params vs ls fs (cs @ [Some c]) m1 = (Some ds, m')"
    by (auto split: prod.splits option.splits)
  have ok: "param_ok l f b" "params_ok vs ls fs"
    using "2.prems"(1) by auto
  from "2.IH" [OF c [symmetric] refl ok(2) rest] obtain new where
    new: "ds = (cs @ [Some c]) @ new" "map (map_option contents) new = params_bytes vs ls fs"
      "acquired m1 (val_ids new) m'"
    by blast
  have c1: "acquired m [addr c] m1" "contents c = value_bytes l f b"
    using dup_param_Some [OF ok(1) c] by simp_all
  show ?case
    using new c1(2) acquired_trans [OF c1(1) new(3)]
    by (intro exI [of _ "Some c # new"]) auto
qed auto

lemma fold_cfree_vals: "fold cfree cs m = free_all (val_ids cs) m"
  by (simp add: fold_cfree val_ids_def)

lemma dup_params_None:
  assumes ok0: "ledger_ok m0"
  shows "params_ok vs ls fs \<Longrightarrow> acquired m0 (val_ids cs) m \<Longrightarrow>
    dup_params vs ls fs cs m = (None, m') \<Longrightarrow> acquired m0 [] m'"
proof (induction vs ls fs cs m rule: dup_params.induct)
  case (2 b vs l ls f fs cs m)
  have ok: "param_ok l f b" "params_ok vs ls fs"
    using "2.prems"(1) by auto
  obtain r m1 where r: "dup_param l f b m = (r, m1)" by (cases "dup_param l f b m")
  show ?case
  proof (cases r)
    case None
    with r "2.prems"(3) have "m' = free_all (val_ids cs) m1"
      by (simp add: fold_cfree_vals)
    moreover have "acquired m [] m1"
      using dup_param_None [OF ok(1)] r None by simp
    ultimately show ?thesis
      using acquired_rollback [OF ok0 "2.prems"(2)] by simp
  next
    case (Some c)
    with r "2.prems"(3) have "dup_params vs ls fs (cs @ [Some c]) m1 = (None, m')"
      by simp
    moreover have "acquired m [addr c] m1"
      using dup_param_Some [OF ok(1), of m c m1] r Some by simp
    then have "acquired m0 (val_ids (cs @ [Some c])) m1"
      using acquired_trans [OF "2.prems"(2), of "[addr c]" m1] by simp
    ultimately show ?thesis
      using "2.IH" [OF r [symmetric] Some ok(2)] by blast
  qed
qed auto

lemma dup_params_frame:
  "dup_params vs ls fs cs m = (r, m') \<Longrightarrow> signals m' = signals m \<and> ext m' = ext m"
proof (induction vs ls fs cs m rule: dup_params.induct)
  case (2 b vs l ls f fs cs m)
  then show ?case
    by (fastforce split: prod.splits option.splits dest: dup_param_frame
        simp: fold_cfree_vals free_all_frame)
qed auto

section \<open>The parameter arrays\<close>

lemma cfree_chain:
  "cfree v (cfree f (cfree l (cfree t m))) =
   free_all (opt_ids t @ opt_ids l @ opt_ids f @ opt_ids v) m"
  by (simp add: cfree_free_all free_all_append)

lemma halloc_opt: "halloc v m = (r, m') \<Longrightarrow> acquired m (opt_ids r) m'"
  by (cases r) (auto dest: halloc_Some halloc_None)

text \<open>Four allocations in a row, whatever each returns.\<close>

lemma halloc4:
  assumes "halloc a m = (t, m1)" "halloc b m1 = (l, m2)" "halloc c m2 = (f, m3)"
    "halloc d m3 = (v, m4)"
  shows "acquired m (opt_ids t @ opt_ids l @ opt_ids f @ opt_ids v) m4 \<and>
    signals m4 = signals m \<and> ext m4 = ext m"
proof -
  note 1 = halloc_opt [OF assms(1)] and 2 = halloc_opt [OF assms(2)]
    and 3 = halloc_opt [OF assms(3)] and 4 = halloc_opt [OF assms(4)]
  have "acquired m (opt_ids t @ opt_ids l @ opt_ids f @ opt_ids v) m4"
    using acquired_trans [OF 1 acquired_trans [OF 2 acquired_trans [OF 3 4]]] by simp
  then show ?thesis
    using assms by (auto dest!: halloc_frame)
qed

definition types_sent :: "int \<Rightarrow> int list option \<Rightarrow> int list" where
  "types_sent n types = (case types of None \<Rightarrow> replicate (nat n) 0 | Some ts \<Rightarrow> take (nat n) ts)"

text \<open>The caller's side: every array has at least \<open>n\<close> entries, every buffer its bytes.\<close>

definition caller_ok ::
  "int \<Rightarrow> int list option \<Rightarrow> string option list \<Rightarrow> int list \<Rightarrow> int list \<Rightarrow> bool" where
  "caller_ok n types vals lens fmts \<longleftrightarrow>
     (\<forall>ts. types = Some ts \<longrightarrow> nat n \<le> length ts) \<and> nat n \<le> length vals \<and>
     nat n \<le> length lens \<and> nat n \<le> length fmts \<and>
     params_ok (take (nat n) vals) (take (nat n) lens) (take (nat n) fmts)"

lemma copy_params_allocated:
  assumes caller: "caller_ok n types vals lens fmts"
    and al: "halloc () m = (Some t, m1)" "halloc () m1 = (Some l, m2)" "halloc () m2 = (Some f, m3)" "halloc () m3 = (Some v, m4)"
  shows "copy_params n types vals lens fmts m =
    (case dup_params (take (nat n) vals) (take (nat n) lens) (take (nat n) fmts) [] m4 of
       (None, m9) \<Rightarrow> (None, free_all [addr v, addr f, addr l, addr t] m9)
     | (Some cs, m9) \<Rightarrow> (Some (Cell (addr t) (types_sent n types), Cell (addr v) cs,
         Cell (addr l) (take (nat n) lens), Cell (addr f) (take (nat n) fmts)), m9))"
  using caller by (cases types) (simp_all add: copy_params_def al caller_ok_def read_array_enough types_sent_def
    del: free_all.simps split: option.split prod.split)

text \<open>The copies behind the four arrays: all made, or the arrays given back with the ones made.\<close>

lemma copied_values_law:
  assumes ok: "ledger_ok m" and ps: "params_ok vs ls fs" and a4: "acquired m [a, b, c, d] m4"
    and run: "dup_params vs ls fs [] m4 = (r, m9)"
  shows "case r of
      None \<Rightarrow> acquired m [] (free_all [d, c, b, a] m9)
    | Some cs \<Rightarrow> acquired m (val_ids cs @ [d, a, b, c]) m9 \<and> map (map_option contents) cs = params_bytes vs ls fs"
proof (cases r)
  case None
  have "acquired m4 [] m9"
    using dup_params_None [OF _ ps, of m4 "[]" m4 m9] acquired_ledger_ok [OF ok a4] run None by simp
  then have a9: "acquired m [a, b, c, d] m9" using acquired_trans [OF a4, of "[]" m9] by simp
  then have "distinct [d, c, b, a]" by (auto simp: acquired_def)
  then have "acquired m [] (free_all [d, c, b, a] m9)" by (rule acquired_free_every [OF ok a9]) auto
  with None show ?thesis by (simp del: free_all.simps)
next
  case (Some cs)
  from dup_params_Some [OF ps, of "[]" m4 cs m9] run Some
  have cs: "map (map_option contents) cs = params_bytes vs ls fs" "acquired m4 (val_ids cs) m9" by auto
  have "acquired m (val_ids cs @ [d, a, b, c]) m9"
    using acquired_trans [OF a4 cs(2)]
    by (rule acquired_perm) (use acquired_trans [OF a4 cs(2)] in \<open>auto simp: acquired_def\<close>)
  with cs(1) Some show ?thesis by simp
qed

lemma copy_params_cases:
  assumes ok: "ledger_ok m" and caller: "caller_ok n types vals lens fmts"
    and res: "copy_params n types vals lens fmts m = (r, m')"
  shows "signals m' = signals m \<and> ext m' = ext m \<and>
    (case r of
       None \<Rightarrow> acquired m [] m'
     | Some (t, v, l, f) \<Rightarrow>
         acquired m (val_ids (contents v) @ [addr v, addr t, addr l, addr f]) m' \<and>
         contents t = types_sent n types \<and> contents l = take (nat n) lens \<and>
         contents f = take (nat n) fmts \<and>
         map (map_option contents) (contents v) =
           params_bytes (take (nat n) vals) (take (nat n) lens) (take (nat n) fmts))"
proof -
  obtain t m1 l m2 f m3 v m4 where al: "halloc () m = (t, m1)" "halloc () m1 = (l, m2)"
    "halloc () m2 = (f, m3)" "halloc () m3 = (v, m4)"
    by (metis surj_pair)
  note h4 = halloc4 [OF al]
  show ?thesis
  proof (cases "t = None \<or> l = None \<or> f = None \<or> v = None")
    case True
    let ?ids = "opt_ids t @ opt_ids l @ opt_ids f @ opt_ids v"
    have "(r, m') = (None, free_all ?ids m4)"
      using True res al by (auto simp: copy_params_def cfree_chain split: option.splits)
    moreover have "acquired m [] (free_all ?ids m4)"
      using ok h4 by (intro acquired_rollback [of m ?ids m4]) auto
    ultimately show ?thesis
      using h4 by (simp add: free_all_frame)
  next
    case False
    then obtain tc lc fc vc where c: "t = Some tc" "l = Some lc" "f = Some fc" "v = Some vc"
      by auto
    let ?vs = "take (nat n) vals" and ?ls = "take (nat n) lens" and ?fs = "take (nat n) fmts"
    obtain r9 m9 where d: "dup_params ?vs ?ls ?fs [] m4 = (r9, m9)"
      by (cases "dup_params ?vs ?ls ?fs [] m4")
    have ps: "params_ok ?vs ?ls ?fs"
      using caller by (simp add: caller_ok_def)
    have a4: "acquired m [addr tc, addr lc, addr fc, addr vc] m4"
      using h4 c by simp
    have "signals m9 = signals m" "ext m9 = ext m"
      using dup_params_frame [OF d] h4 by simp_all
    with copy_params_allocated [OF caller al [unfolded c]] copied_values_law [OF ok ps a4 d] d res
    show ?thesis
      by (cases r9) (auto simp: free_all_frame simp del: free_all.simps)
  qed
qed

section \<open>What the worker will find\<close>

text \<open>The request a full slot holds, as the caller meant it.\<close>

datatype pg_request =
    Single string
  | Pipeline "string list"
  | MultiRead "string list"
  | WithParams string pg_params

definition slot_sql :: "'r native_conn \<Rightarrow> string list" where
  "slot_sql c = (case sql c of None \<Rightarrow> [] | Some v \<Rightarrow> map contents (contents v))"

definition slot_params :: "'r native_conn \<Rightarrow> pg_params" where
  "slot_params c =
     \<lparr>par_n = n_params c,
      par_types = map_option contents (param_types c),
      par_values = map_option (\<lambda>v. map (map_option contents) (contents v)) (param_values c),
      par_lengths = map_option contents (param_lengths c),
      par_formats = map_option contents (param_formats c),
      par_result_format = result_format c\<rparr>"

definition slot_request :: "'r native_conn \<Rightarrow> pg_request" where
  "slot_request c =
     (if is_params c then WithParams (hd (slot_sql c)) (slot_params c)
      else if is_multi_read c then MultiRead (slot_sql c)
      else if is_pipeline c then Pipeline (slot_sql c)
      else Single (hd (slot_sql c)))"

text \<open>The parameter block a call of \<open>pool_submit_query_params\<close> describes.\<close>

definition params_of ::
  "int \<Rightarrow> int list option \<Rightarrow> string option list \<Rightarrow> int list \<Rightarrow> int list \<Rightarrow> int \<Rightarrow> pg_params" where
  "params_of n types vals lens fmts rf =
     (if n > 0 then
        \<lparr>par_n = n, par_types = Some (types_sent n types),
         par_values = Some (params_bytes (take (nat n) vals) (take (nat n) lens) (take (nat n) fmts)),
         par_lengths = Some (take (nat n) lens), par_formats = Some (take (nat n) fmts),
         par_result_format = rf\<rparr>
      else \<lparr>par_n = n, par_types = None, par_values = None, par_lengths = None,
            par_formats = None, par_result_format = rf\<rparr>)"

lemma params_bytes_length:
  "params_ok vs ls fs \<Longrightarrow> length (params_bytes vs ls fs) = length vs"
  by (induction vs ls fs rule: params_ok.induct) auto

lemma slot_sql_some: "sql c = Some v \<Longrightarrow> slot_sql c = map contents (contents v)"
  by (simp add: slot_sql_def)

section \<open>The submit function\<close>

text \<open>Refusals after the argument checks: slot busy, or shut down.\<close>

lemma submit_params_refuses:
  assumes "slot_filled c \<or> shutdown_requested c" "slot_mutex c \<notin> held m"
  shows "submit_refused c m
    (pool_submit_query_params (Some c) q n types vals lens fmts rf port t m)"
  using assms
  by (cases q) (auto simp: pool_submit_query_params_def submit_refused_def Let_def lock_frame_eq)

lemma refused_after_lock:
  assumes "slot_mutex c \<notin> held m" "acquired (mutex_lock (slot_mutex c) m) [] m'"
    "signals m' = signals m" "ext m' = ext m"
  shows "submit_refused c m (0, Some c, mutex_unlock (slot_mutex c) m')"
  using assms lock_unlock by (auto simp: submit_refused_def)

text \<open>
  The common end of an accepted submission: the slot is committed, the worker signalled, the
  mutex released.
\<close>

lemma accepted_after_lock:
  assumes "slot_mutex c \<notin> held m" "\<not> slot_filled c" "\<not> shutdown_requested c"
    "acquired (mutex_lock (slot_mutex c) m) ids m'" "set ids = set (slot_ids c')"
    "distinct (slot_ids c')" "signals m' = signals m" "ext m' = ext m"
    "slot_filled c'" "slot_inv c'" "port_id c' = port" "timeout_ms c' = t"
  shows "submit_accepted c m port t
    (1, Some c', mutex_unlock (slot_mutex c) (cond_signal (slot_cond c) m'))"
proof -
  have "acquired m (slot_ids c') (mutex_unlock (slot_mutex c) (cond_signal (slot_cond c) m'))"
    using assms(1) acquired_perm [OF assms(4)] assms(5,6) by (auto intro!: lock_unlock)
  with assms show ?thesis
    by (auto simp: submit_accepted_def ledger)
qed

text \<open>The slot with a parameterised statement, before its parameters are set.\<close>

definition with_statement ::
  "'r native_conn \<Rightarrow> string cell \<Rightarrow> nat \<Rightarrow> int \<Rightarrow> int \<Rightarrow> int \<Rightarrow> int \<Rightarrow> 'r native_conn" where
  "with_statement c sc sv n rf port t = c\<lparr>slot_filled := True, is_pipeline := False, is_params := True,
     sql := Some (Cell sv [sc]), sql_count := 1, n_params := n, param_types := None,
     param_values := None, param_lengths := None, param_formats := None,
     result_format := rf, port_id := port, timeout_ms := t\<rparr>"

definition request_accepted ::
  "'r native_conn \<Rightarrow> 'w mach \<Rightarrow> int \<Rightarrow> int \<Rightarrow> pg_request \<Rightarrow> int \<times> 'r native_conn option \<times> 'w mach \<Rightarrow> bool" where
  "request_accepted c m port t req res \<longleftrightarrow> submit_accepted c m port t res \<and>
     (\<exists>c' m'. res = (1, Some c', m') \<and> same_but_slot c c' \<and> slot_request c' = req)"

lemma statement_accepted:
  assumes nh: "slot_mutex c \<notin> held m" and free: "\<not> slot_filled c" "\<not> shutdown_requested c" and clean: "clean_slot c"
    and a: "acquired (mutex_lock (slot_mutex c) m) [addr sc, sv] m'" and fr: "signals m' = signals m" "ext m' = ext m"
  shows "request_accepted c m port t (WithParams (contents sc) (params_of 0 types vals lens fmts rf))
    (1, Some (with_statement c sc sv 0 rf port t), mutex_unlock (slot_mutex c) (cond_signal (slot_cond c) m'))"
proof -
  let ?c = "with_statement c sc sv 0 rf port t"
  have "submit_accepted c m port t (1, Some ?c, mutex_unlock (slot_mutex c) (cond_signal (slot_cond c) m'))"
  proof (rule accepted_after_lock [OF nh free a])
    show "slot_inv ?c" using clean by (simp add: with_statement_def slot_inv_def full_slot_def clean_slot_def)
  qed (use a fr clean in \<open>auto simp: with_statement_def slot_ids_def acquired_def\<close>)
  moreover have "slot_request ?c = WithParams (contents sc) (params_of 0 types vals lens fmts rf)"
    by (simp add: with_statement_def slot_request_def slot_sql_def slot_params_def params_of_def)
  ultimately show ?thesis
    using clean by (auto simp: request_accepted_def with_statement_def same_but_slot_def clean_slot_def)
qed

lemma parameters_accepted:
  assumes nh: "slot_mutex c \<notin> held m" and free: "\<not> slot_filled c" "\<not> shutdown_requested c" and clean: "clean_slot c"
    and n: "n > 0" "caller_ok n types vals lens fmts"
    and a: "acquired (mutex_lock (slot_mutex c) m) [addr sc, sv] m1"
    and a': "acquired m1 (val_ids (contents vv) @ [addr vv, addr tt, addr ll, addr ff]) m'"
    and fr: "signals m' = signals m" "ext m' = ext m"
    and tl: "contents tt = types_sent n types" "contents ll = take (nat n) lens" "contents ff = take (nat n) fmts"
    and v: "map (map_option contents) (contents vv) = params_bytes (take (nat n) vals) (take (nat n) lens) (take (nat n) fmts)"
  shows "request_accepted c m port t (WithParams (contents sc) (params_of n types vals lens fmts rf))
    (1, Some ((with_statement c sc sv n rf port t)\<lparr>param_types := Some tt, param_values := Some vv,
        param_lengths := Some ll, param_formats := Some ff\<rparr>), mutex_unlock (slot_mutex c) (cond_signal (slot_cond c) m'))"
proof -
  let ?c = "(with_statement c sc sv n rf port t)\<lparr>param_types := Some tt, param_values := Some vv,
    param_lengths := Some ll, param_formats := Some ff\<rparr>"
  note aa = acquired_trans [OF a a']
  have "length (contents vv) = nat n"
    using arg_cong [OF v, of length] n(2) by (simp add: caller_ok_def params_bytes_length)
  then have inv: "slot_inv ?c" using clean n by (simp add: with_statement_def slot_inv_def full_slot_def clean_slot_def)
  have "submit_accepted c m port t (1, Some ?c, mutex_unlock (slot_mutex c) (cond_signal (slot_cond c) m'))"
  proof (rule accepted_after_lock [OF nh free aa])
    show "distinct (slot_ids ?c)" using aa by (auto simp: with_statement_def slot_ids_def val_ids_def acquired_def)
  qed (use aa fr inv in \<open>auto simp: with_statement_def slot_ids_def val_ids_def\<close>)
  moreover have "slot_request ?c = WithParams (contents sc) (params_of n types vals lens fmts rf)"
    using n(1) tl v by (simp add: with_statement_def slot_request_def slot_sql_def slot_params_def params_of_def)
  ultimately show ?thesis
    using clean by (auto simp: request_accepted_def with_statement_def same_but_slot_def clean_slot_def)
qed

definition with_parameters ::
  "'r native_conn \<Rightarrow> string cell \<Rightarrow> nat \<Rightarrow> int \<Rightarrow> int list option \<Rightarrow> string option list \<Rightarrow> int list \<Rightarrow> int list \<Rightarrow> int \<Rightarrow>
   int \<Rightarrow> int \<Rightarrow> 'w mach \<Rightarrow> int \<times> 'r native_conn option \<times> 'w mach" where
  "with_parameters c sc sv n types vals lens fmts rf port t m1 =
        (if n > 0 then
           (case copy_params n types vals lens fmts m1 of
              (None, m2) \<Rightarrow> (0, Some c, mutex_unlock (slot_mutex c) (free_all [addr sc, sv] m2))
            | (Some (tt, vv, ll, ff), m2) \<Rightarrow>
                (1, Some ((with_statement c sc sv n rf port t)\<lparr>param_types := Some tt, param_values := Some vv,
                    param_lengths := Some ll, param_formats := Some ff\<rparr>),
                 mutex_unlock (slot_mutex c) (cond_signal (slot_cond c) m2)))
         else (1, Some (with_statement c sc sv n rf port t), mutex_unlock (slot_mutex c) (cond_signal (slot_cond c) m1)))"

text \<open>The statement's copy and the vector that holds it: both, or neither is kept.\<close>

lemma submit_params_start:
  fixes port t rf :: int and q :: string and types :: "int list option" and vals :: "string option list"
    and lens fmts :: "int list"
  assumes ok: "ledger_ok m" and nh: "slot_mutex c \<notin> held m"
    and free: "\<not> slot_filled c" "\<not> shutdown_requested c" and n: "0 \<le> n"
  defines "res \<equiv> pool_submit_query_params (Some c) (Some q) n types
      (if n > 0 then Some vals else None) (if n > 0 then Some lens else None)
      (if n > 0 then Some fmts else None) rf port t m"
  shows "submit_refused c m res \<or>
    (\<exists>sc sv m1. acquired (mutex_lock (slot_mutex c) m) [addr sc, sv] m1 \<and> contents sc = q \<and>
       signals m1 = signals m \<and> ext m1 = ext m \<and>
       res = with_parameters c sc sv n types vals lens fmts rf port t m1)"
proof -
  let ?m0 = "mutex_lock (slot_mutex c) m"
  have ok0: "ledger_ok ?m0" using ok by simp
  obtain rs m1 where s: "dup_string (Some q) ?m0 = (rs, m1)" by (cases "dup_string (Some q) ?m0")
  note fr1 = dup_string_frame [OF s]
  note start = res_def pool_submit_query_params_def s
  show ?thesis
  proof (cases rs)
    case None
    then have "res = (0, Some c, mutex_unlock (slot_mutex c) m1)" using free n by (simp add: start)
    moreover have "acquired ?m0 [] m1" using dup_string_None [of "Some q" ?m0 m1] s None by simp
    ultimately show ?thesis using refused_after_lock [OF nh] fr1 by (simp add: ledger)
  next
    case (Some sc)
    have as: "acquired ?m0 [addr sc] m1" "contents sc = q"
      using dup_string_Some [of "Some q" ?m0 sc m1] s Some by simp_all
    obtain rv m2 where v: "halloc () m1 = (rv, m2)" by (cases "halloc () m1")
    note fr2 = halloc_frame [OF v]
    show ?thesis
    proof (cases rv)
      case None
      then have "res = (0, Some c, mutex_unlock (slot_mutex c) (rfree (addr sc) m2))"
        using free n v Some by (simp add: start)
      moreover have "acquired ?m0 [] (rfree (addr sc) m2)"
        using acquired_rollback [OF ok0 as(1)] halloc_None [of "()" m1 m2] v None by simp
      ultimately show ?thesis
        using refused_after_lock [OF nh, of "rfree (addr sc) m2"] fr1 fr2 free_all_frame [of "[addr sc]" m2]
        by (simp add: ledger)
    next
      case rv: (Some sv)
      have "acquired ?m0 [addr sc, addr sv] m2"
        using acquired_trans [OF as(1), of "[addr sv]" m2] halloc_Some [of "()" m1 sv m2] v rv by simp
      moreover have "signals m2 = signals m" "ext m2 = ext m" using fr1 fr2 by (simp_all add: ledger)
      ultimately show ?thesis
        using as(2) free n v rv Some
        by (intro disjI2 exI [of _ sc] exI [of _ "addr sv"] exI [of _ m2])
          (auto simp: start with_parameters_def with_statement_def Let_def split: prod.splits option.splits)
    qed
  qed
qed

lemma submit_params_cases:
  fixes port t rf :: int and m :: "'w mach" and q :: string
  assumes ok: "ledger_ok m" and nh: "slot_mutex c \<notin> held m" and inv: "slot_inv c"
    and caller: "n > 0 \<Longrightarrow> caller_ok n types vals lens fmts"
  defines "res \<equiv> pool_submit_query_params (Some c) (Some q) n types
      (if n > 0 then Some vals else None) (if n > 0 then Some lens else None)
      (if n > 0 then Some fmts else None) rf port t m"
  shows "submit_refused c m res \<or> request_accepted c m port t (WithParams q (params_of n types vals lens fmts rf)) res"
proof (cases "n < 0 \<or> slot_filled c \<or> shutdown_requested c")
  case True
  then show ?thesis
    using nh by (auto simp: res_def pool_submit_query_params_def submit_refused_def Let_def lock_frame_eq)
next
  case False
  then have free: "\<not> slot_filled c" "\<not> shutdown_requested c" "0 \<le> n" and clean: "clean_slot c"
    using inv by (auto simp: slot_inv_def)
  from submit_params_start [OF ok nh free, of q types vals lens fmts rf port t, folded res_def] show ?thesis
  proof (elim disjE exE conjE)
    fix sc sv m1 assume a: "acquired (mutex_lock (slot_mutex c) m) [addr sc, sv] m1" "contents sc = q"
      "signals m1 = signals m" "ext m1 = ext m" and res: "res = with_parameters c sc sv n types vals lens fmts rf port t m1"
    show ?thesis
    proof (cases "n > 0")
      case False
      with statement_accepted [OF nh free(1,2) clean a(1,3,4)] a(2) free(3) show ?thesis by (simp add: res with_parameters_def)
    next
      case True
      obtain r m2 where cp: "copy_params n types vals lens fmts m1 = (r, m2)" by (cases "copy_params n types vals lens fmts m1")
      have ok0: "ledger_ok (mutex_lock (slot_mutex c) m)" using ok by simp
      note cc = copy_params_cases [OF acquired_ledger_ok [OF ok0 a(1)] caller [OF True] cp]
      show ?thesis
      proof (cases r)
        case None
        then have "acquired (mutex_lock (slot_mutex c) m) [] (free_all [addr sc, sv] m2)"
          using acquired_rollback [OF ok0 a(1)] cc by (simp del: free_all.simps)
        from refused_after_lock [OF nh this] cc a(3,4) True None show ?thesis
          by (simp add: res with_parameters_def cp ledger del: free_all.simps)
      next
        case (Some p)
        obtain tt vv ll ff where p: "p = (tt, vv, ll, ff)" by (cases p)
        from cc Some p have c: "acquired m1 (val_ids (contents vv) @ [addr vv, addr tt, addr ll, addr ff]) m2"
          "contents tt = types_sent n types" "contents ll = take (nat n) lens" "contents ff = take (nat n) fmts"
          "map (map_option contents) (contents vv) = params_bytes (take (nat n) vals) (take (nat n) lens) (take (nat n) fmts)"
          "signals m2 = signals m" "ext m2 = ext m" using a(3,4) by simp_all
        from parameters_accepted [OF nh free(1,2) clean True caller [OF True] a(1) c(1,6,7,2-5)] a(2) True
        show ?thesis by (simp add: res with_parameters_def cp Some p)
      qed
    qed
  qed simp
qed

end
