(* ===== verification/Linked_Chain.thy ===== *)
theory Linked_Chain
  imports C_Prelude
begin

text \<open>
  Singly linked nodes on the heap: \<open>chain_at nx S p as\<close> says that following the links
  \<open>nx\<close> of the store \<open>S\<close> from the pointer \<open>p\<close> visits exactly the addresses \<open>as\<close> and ends
  at NULL. The result chains of the PostgreSQL and MySQL connections are such lists.
\<close>

fun chain_at :: "('n \<Rightarrow> nat option) \<Rightarrow> (nat \<Rightarrow> 'n option) \<Rightarrow> nat option \<Rightarrow> nat list \<Rightarrow> bool" where
  "chain_at nx S p [] = (p = None)"
| "chain_at nx S p (a # as) = (p = Some a \<and> (\<exists>nd. S a = Some nd \<and> chain_at nx S (nx nd) as))"

lemma chain_at_cong:
  "(\<And>a. a \<in> set as \<Longrightarrow> S a = T a) \<Longrightarrow> chain_at nx S p as = chain_at nx T p as"
  by (induction as arbitrary: p) auto

lemma chain_at_unique: "chain_at nx S p as \<Longrightarrow> chain_at nx S p bs \<Longrightarrow> as = bs"
proof (induction as arbitrary: p bs)
  case Nil
  then show ?case by (cases bs) auto
next
  case (Cons a as)
  then show ?case by (cases bs) auto
qed

lemma chain_at_dom: "chain_at nx S p as \<Longrightarrow> set as \<subseteq> dom S"
  by (induction as arbitrary: p) auto

text \<open>Linking a new node behind the last one.\<close>

lemma chain_at_snoc:
  assumes "chain_at nx S p (as @ [t])" "distinct (as @ [t])" "b \<notin> set (as @ [t])"
    "nx nd' = Some b" "nx new = None"
  shows "chain_at nx (S(t \<mapsto> nd', b \<mapsto> new)) p (as @ [t, b])"
  using assms
proof (induction as arbitrary: p)
  case Nil
  then show ?case by auto
next
  case (Cons a as)
  then obtain na where na: "S a = Some na" "chain_at nx S (nx na) (as @ [t])" and p: "p = Some a"
    by auto
  have "a \<noteq> t" "a \<noteq> b" using Cons.prems by auto
  with Cons.IH [OF na(2)] Cons.prems na p show ?case by auto
qed

end
