(* ===== verification/Pg_Chain.thy ===== *)
theory Pg_Chain
  imports Pg_Conn Linked_Chain
begin

text \<open>
  The multi-read result chain of a connection is a queue: the linked nodes from
  \<open>chain_head\<close> to \<open>chain_tail\<close> hold a list of results, \<open>native_pool_chain_append\<close> adds one
  at the end, \<open>poll_result\<close> takes the first, \<open>native_pool_free_result_chain\<close> clears every
  result and node. The abstraction is \<open>chain_results\<close>; \<open>chain_inv\<close> is what ties the
  pointers together.
\<close>

section \<open>The chain invariant\<close>

text \<open>
  \<open>chain_inv c as\<close>: the store holds exactly the nodes \<open>as\<close>, linked in this order from the
  head, and the tail is the last of them.
\<close>

definition chain_inv :: "'r native_conn \<Rightarrow> nat list \<Rightarrow> bool" where
  "chain_inv c as \<longleftrightarrow>
     chain_at nd_next (map_of (chain_store c)) (chain_head c) as \<and> distinct as \<and>
     dom (map_of (chain_store c)) = set as \<and>
     chain_tail c = (if as = [] then None else Some (last as))"

definition node_cell :: "'r native_conn \<Rightarrow> nat \<Rightarrow> 'r cell" where
  "node_cell c a = nd_result (the (map_of (chain_store c) a))"

definition chain_cells :: "'r native_conn \<Rightarrow> nat list \<Rightarrow> 'r cell list" where
  "chain_cells c as = map (node_cell c) as"

text \<open>The resources the chain owns: every result and its node.\<close>

definition chain_ids :: "'r native_conn \<Rightarrow> nat list \<Rightarrow> nat list" where
  "chain_ids c as = concat (map (\<lambda>a. [addr (node_cell c a), a]) as)"

lemma chain_ids_simps [simp]:
  "chain_ids c [] = []" "chain_ids c (a # as) = addr (node_cell c a) # a # chain_ids c as"
  "chain_ids c (as @ bs) = chain_ids c as @ chain_ids c bs"
  by (simp_all add: chain_ids_def)

lemma set_chain_ids: "set as \<subseteq> set (chain_ids c as)"
  by (induction as) auto

lemma chain_inv_empty: "chain_inv c [] \<longleftrightarrow> chain_store c = [] \<and> chain_head c = None \<and> chain_tail c = None"
  by (auto simp: chain_inv_def)

lemma chain_inv_head: "chain_inv c as \<Longrightarrow> chain_head c = (case as of [] \<Rightarrow> None | a # _ \<Rightarrow> Some a)"
  by (cases as) (auto simp: chain_inv_def)

subsection \<open>Append\<close>

lemma append_fresh_node:
  assumes inv: "chain_inv c as" and b: "b \<notin> set as"
    and st: "st = AList.update b \<lparr>nd_result = r, nd_next = None\<rparr> (chain_store c)"
  shows "chain_tail c = None \<Longrightarrow>
      chain_inv (c\<lparr>chain_store := st, chain_head := Some b, chain_tail := Some b\<rparr>) [b] \<and> as = []"
    and "chain_tail c = Some t \<Longrightarrow> \<exists>nd. map_of st t = Some nd \<and>
      chain_inv (c\<lparr>chain_store := AList.update t (nd\<lparr>nd_next := Some b\<rparr>) st, chain_tail := Some b\<rparr>)
        (as @ [b])"
proof -
  assume "chain_tail c = None"
  with inv have "as = []" by (auto simp: chain_inv_def split: if_splits)
  with inv have "chain_store c = []" by (auto simp: chain_inv_def)
  with st \<open>as = []\<close>
  show "chain_inv (c\<lparr>chain_store := st, chain_head := Some b, chain_tail := Some b\<rparr>) [b] \<and> as = []"
    by (auto simp: chain_inv_def)
next
  assume t: "chain_tail c = Some t"
  with inv obtain as' where as: "as = as' @ [t]"
    by (cases as rule: rev_cases) (auto simp: chain_inv_def split: if_splits)
  let ?S = "map_of (chain_store c)"
  obtain nd where nd: "?S t = Some nd"
    using inv as chain_at_dom [of nd_next ?S "chain_head c" as] by (auto simp: chain_inv_def)
  have tb: "t \<noteq> b" using b as by auto
  have "chain_at nd_next (?S(t \<mapsto> nd\<lparr>nd_next := Some b\<rparr>, b \<mapsto> \<lparr>nd_result = r, nd_next = None\<rparr>))
      (chain_head c) (as' @ [t, b])"
    using inv as b nd by (intro chain_at_snoc) (auto simp: chain_inv_def)
  moreover have "?S(b \<mapsto> \<lparr>nd_result = r, nd_next = None\<rparr>, t \<mapsto> nd\<lparr>nd_next := Some b\<rparr>) =
      ?S(t \<mapsto> nd\<lparr>nd_next := Some b\<rparr>, b \<mapsto> \<lparr>nd_result = r, nd_next = None\<rparr>)"
    using tb by (simp add: fun_upd_twist)
  ultimately have "chain_inv (c\<lparr>chain_store := AList.update t (nd\<lparr>nd_next := Some b\<rparr>) st,
      chain_tail := Some b\<rparr>) (as @ [b])"
    using inv as b tb nd by (auto simp: chain_inv_def st update_conv')
  moreover have "map_of st t = Some nd"
    using nd tb by (simp add: st update_conv')
  ultimately show "\<exists>nd. map_of st t = Some nd \<and>
      chain_inv (c\<lparr>chain_store := AList.update t (nd\<lparr>nd_next := Some b\<rparr>) st, chain_tail := Some b\<rparr>)
        (as @ [b])"
    by blast
qed

text \<open>Updating a link leaves the results where they are.\<close>

lemma node_cell_update:
  "map_of (chain_store c) t = Some nd \<Longrightarrow> nd_result nd' = nd_result nd \<Longrightarrow>
   node_cell (c\<lparr>chain_store := AList.update t nd' (chain_store c), chain_tail := x\<rparr>) a = node_cell c a"
  by (simp add: node_cell_def update_conv')

lemma chain_append_ok:
  assumes inv: "chain_inv c as" and own: "set as \<subseteq> live m" and ok: "ledger_ok m"
    and res: "native_pool_chain_append c r m = (1, c', m')"
  shows "\<exists>b. chain_inv c' (as @ [b]) \<and> acquired m [b] m' \<and> node_cell c' b = r \<and>
     (\<forall>a \<in> set as. node_cell c' a = node_cell c a)"
proof -
  from res obtain cl m1 where al: "halloc () m = (Some cl, m1)"
    by (auto simp: native_pool_chain_append_def split: prod.splits option.splits)
  define b where "b = addr cl"
  define st where "st = AList.update b \<lparr>nd_result = r, nd_next = None\<rparr> (chain_store c)"
  have acq: "acquired m [b] m1"
    using halloc_Some [OF al] by (simp add: b_def)
  have fresh: "b \<notin> set as"
    using acq own ok by (fastforce simp: acquired_def ledger_ok_def)
  show ?thesis
  proof (cases "chain_tail c")
    case None
    with append_fresh_node(1) [OF inv fresh st_def] res al acq show ?thesis
      by (auto simp: native_pool_chain_append_def b_def st_def node_cell_def update_conv' Let_def)
  next
    case (Some t)
    with append_fresh_node(2) [OF inv fresh st_def] obtain nd where nd: "map_of st t = Some nd"
      and inv': "chain_inv (c\<lparr>chain_store := AList.update t (nd\<lparr>nd_next := Some b\<rparr>) st,
        chain_tail := Some b\<rparr>) (as @ [b])"
      by blast
    have c': "c' = c\<lparr>chain_store := AList.update t (nd\<lparr>nd_next := Some b\<rparr>) st, chain_tail := Some b\<rparr>"
      and m': "m' = m1"
      using res al Some nd by (auto simp: native_pool_chain_append_def b_def st_def Let_def)
    have tb: "t \<noteq> b"
      using Some inv fresh by (auto simp: chain_inv_def split: if_splits)
    show ?thesis
      using inv' acq fresh nd tb
      by (intro exI [of _ b]) (auto simp: c' m' node_cell_def update_conv' st_def)
  qed
qed

lemma chain_append_oom:
  "native_pool_chain_append c r m = (0, c', m') \<Longrightarrow> c' = c \<and> acquired m [] m'"
  by (auto simp: native_pool_chain_append_def Let_def dest: halloc_None
      split: prod.splits option.splits)

lemma chain_append_result:
  "native_pool_chain_append c r m = (k, c', m') \<Longrightarrow> k = 0 \<or> k = 1"
  by (auto simp: native_pool_chain_append_def Let_def split: prod.splits option.splits)

subsection \<open>Take the first\<close>

lemma chain_inv_tail:
  assumes inv: "chain_inv c (a # as)"
  obtains nd where "map_of (chain_store c) a = Some nd" "nd_result nd = node_cell c a"
    "chain_inv (c\<lparr>chain_store := AList.delete a (chain_store c), chain_head := nd_next nd,
       chain_tail := (if nd_next nd = None then None else chain_tail c)\<rparr>) as"
proof -
  let ?S = "map_of (chain_store c)"
  from inv obtain nd where nd: "?S a = Some nd" "chain_at nd_next ?S (nd_next nd) as" "a \<notin> set as"
    by (auto simp: chain_inv_def)
  have "chain_at nd_next (?S(a := None)) (nd_next nd) as"
    using nd(2,3) by (subst chain_at_cong [of as _ ?S]) auto
  then have "chain_inv (c\<lparr>chain_store := AList.delete a (chain_store c), chain_head := nd_next nd,
       chain_tail := (if nd_next nd = None then None else chain_tail c)\<rparr>) as"
    using inv nd by (cases as) (auto simp: chain_inv_def delete_conv')
  with nd(1) show thesis
    using that by (simp add: node_cell_def)
qed

lemma poll_result_chain:
  assumes "pg c = Some p" "chain_inv c (a # as)"
  shows "\<exists>c'. poll_result E (Some c) m = (Some (node_cell c a), Some c', rfree a m) \<and>
     chain_inv c' as \<and> (\<forall>b \<in> set as. node_cell c' b = node_cell c b)"
proof -
  from assms(2) obtain nd where nd: "map_of (chain_store c) a = Some nd" "nd_result nd = node_cell c a"
    "chain_inv (c\<lparr>chain_store := AList.delete a (chain_store c), chain_head := nd_next nd,
       chain_tail := (if nd_next nd = None then None else chain_tail c)\<rparr>) as"
    by (rule chain_inv_tail)
  have "a \<notin> set as" using assms(2) by (simp add: chain_inv_def)
  with nd assms chain_inv_head [OF assms(2)] show ?thesis
    by (auto simp: poll_result_def node_cell_def delete_conv')
qed

subsection \<open>Free the whole chain\<close>

lemma free_chain_loop_eq:
  "chain_at nd_next (map_of st) p as \<Longrightarrow> distinct as \<Longrightarrow> dom (map_of st) = set as \<Longrightarrow>
   free_chain_loop p st m =
     ([], free_all (concat (map (\<lambda>a. [addr (nd_result (the (map_of st a))), a]) as)) m)"
proof (induction as arbitrary: p st m)
  case Nil
  then show ?case by simp
next
  case (Cons a as)
  then obtain nd where p: "p = Some a" and nd: "map_of st a = Some nd"
    and rest: "chain_at nd_next (map_of st) (nd_next nd) as"
    by auto
  have cut: "map_of (AList.delete a st) b = map_of st b" if "b \<in> set as" for b
    using Cons.prems(2) that by (auto simp: delete_conv')
  have "chain_at nd_next (map_of (AList.delete a st)) (nd_next nd) as"
    using rest cut by (subst chain_at_cong [of as _ "map_of st"]) auto
  moreover have "dom (map_of (AList.delete a st)) = set as"
    using Cons.prems(2,3) by (auto simp: delete_conv')
  moreover have eq: "concat (map (\<lambda>b. [addr (nd_result (the (map_of (AList.delete a st) b))), b]) as) =
      concat (map (\<lambda>b. [addr (nd_result (the (map_of st b))), b]) as)"
    using cut by (intro arg_cong [of _ _ concat] map_cong) auto
  ultimately show ?case
    using Cons.IH [of "AList.delete a st" "nd_next nd"] Cons.prems(2) p nd
    by (simp add: pq_clear_def eq)
qed

lemma free_result_chain_eq:
  assumes "chain_inv c as"
  shows "native_pool_free_result_chain c m =
    (c\<lparr>chain_store := [], chain_head := None, chain_tail := None\<rparr>, free_all (chain_ids c as) m)"
  using assms free_chain_loop_eq [of "chain_store c" "chain_head c" as m]
  by (simp add: native_pool_free_result_chain_def chain_inv_def chain_ids_def node_cell_def)

end
