(* ===== verification/Lease_Contract.thy ===== *)
theory Lease_Contract
  imports C_Time
begin

text \<open>
  The contract of a pool's free list, common to the four drivers: \<open>acquire\<close> hands out a
  connection nobody holds, \<open>release\<close> takes it back. The locale \<open>lease_pool\<close> states what
  one scan of the connection array and one release must satisfy; its lemmas are about
  whole runs of clients and about the waiting loop. The locale \<open>conn_array\<close> gives that
  contract to an array of connections with an in-use mark, which is what each driver's pool
  theory interprets.
\<close>

section \<open>The loops the four pools share\<close>

text \<open>
  \<open>for (i = 0; i < max_size; i++) if (conns[i].in_use == 0)\<close>, the scan of the four
  \<open>acquire\<close> functions, for any in-use mark.
\<close>

fun scan_free :: "('c \<Rightarrow> bool) \<Rightarrow> 'c list \<Rightarrow> nat \<Rightarrow> nat option" where
  "scan_free used [] i = None"
| "scan_free used (c # cs) i = (if \<not> used c then Some i else scan_free used cs (Suc i))"

text \<open>
  One return from the condition wait: whether the thread was signalled, the time then, and
  what other threads did to the pool while the mutex was released. A timed wait returns
  ETIMEDOUT when it was not signalled and the deadline has passed; anything else is a
  signal or a spurious wake-up.
\<close>

record 'p wake =
  wk_signalled :: bool
  wk_now :: timespec
  wk_others :: "'p \<Rightarrow> 'p"

datatype acquire_result = Granted nat | Refused | Blocked

definition timed_out :: "bool \<Rightarrow> timespec \<Rightarrow> 'p wake \<Rightarrow> bool" where
  "timed_out use_deadline deadline w \<longleftrightarrow>
     use_deadline \<and> \<not> wk_signalled w \<and> ns_of deadline \<le> ns_of (wk_now w)"

text \<open>
  The \<open>while (1)\<close> loop of the four \<open>acquire\<close> functions, which differ only in their types:
  \<open>down\<close> reads the pool's shutdown flag, \<open>acq\<close> is its scan. With no wake-up left the
  thread is still waiting.
\<close>

fun acquire_loop ::
  "('p \<Rightarrow> bool) \<Rightarrow> ('p \<Rightarrow> nat option \<times> 'p) \<Rightarrow> int \<Rightarrow> timespec \<Rightarrow> 'p wake list \<Rightarrow> 'p \<Rightarrow>
   acquire_result \<times> 'p" where
  "acquire_loop down acq effective_ms deadline ws p =
     (if down p then (Refused, p)
      else case acq p of
          (Some i, q) \<Rightarrow> (Granted i, q)
        | (None, _) \<Rightarrow>
            (if effective_ms = 0 then (Refused, p)
             else case ws of
                 [] \<Rightarrow> (Blocked, p)
               | w # ws' \<Rightarrow>
                   (if timed_out (effective_ms > 0) deadline w then (Refused, wk_others w p)
                    else acquire_loop down acq effective_ms deadline ws' (wk_others w p))))"

declare acquire_loop.simps [simp del]

text \<open>The pool as the wake-ups left it, up to the wake-up that ended the call.\<close>

fun after_wakes :: "'p wake list \<Rightarrow> 'p \<Rightarrow> 'p" where
  "after_wakes [] p = p"
| "after_wakes (w # ws) p = after_wakes ws (wk_others w p)"

section \<open>The contract\<close>

datatype lease_op = Take | Give nat

text \<open>
  A run of clients that release only what they hold: the pool and the handles held, in the
  order they were handed out, latest first.
\<close>

fun lease_run ::
  "('p \<Rightarrow> nat option \<times> 'p) \<Rightarrow> (nat \<Rightarrow> 'p \<Rightarrow> 'p) \<Rightarrow> lease_op list \<Rightarrow> 'p \<times> nat list \<Rightarrow> 'p \<times> nat list"
where
  "lease_run acq rel [] s = s"
| "lease_run acq rel (Take # ops) (p, hs) =
     (case acq p of
        (Some i, q) \<Rightarrow> lease_run acq rel ops (q, i # hs)
      | (None, q) \<Rightarrow> lease_run acq rel ops (q, hs))"
| "lease_run acq rel (Give i # ops) (p, hs) =
     (if i \<in> set hs then lease_run acq rel ops (rel i p, remove1 i hs)
      else lease_run acq rel ops (p, hs))"

locale lease_pool =
  fixes capacity :: "'p \<Rightarrow> nat" and leased :: "'p \<Rightarrow> nat set"
    and acquire :: "'p \<Rightarrow> nat option \<times> 'p" and release :: "nat \<Rightarrow> 'p \<Rightarrow> 'p"
  assumes acquire_Some: "acquire p = (Some i, q) \<Longrightarrow>
      i < capacity p \<and> i \<notin> leased p \<and> leased q = insert i (leased p) \<and> capacity q = capacity p"
    and acquire_None: "acquire p = (None, q) \<Longrightarrow> q = p \<and> {..<capacity p} \<subseteq> leased p"
    and release_leased: "leased (release i p) = leased p - {i}"
    and release_capacity: "capacity (release i p) = capacity p"
begin

definition tracks :: "'p \<times> nat list \<Rightarrow> bool" where
  "tracks s \<longleftrightarrow> (case s of (p, hs) \<Rightarrow> distinct hs \<and> set hs = leased p \<and> set hs \<subseteq> {..<capacity p})"

lemma tracks_take:
  assumes "tracks (p, hs)"
  shows "acquire p = (Some i, q) \<Longrightarrow> tracks (q, i # hs)"
    and "acquire p = (None, q) \<Longrightarrow> tracks (q, hs)"
  using assms by (auto simp: tracks_def dest!: acquire_Some acquire_None)

lemma tracks_give: "tracks (p, hs) \<Longrightarrow> tracks (release i p, remove1 i hs)"
  by (auto simp: tracks_def release_leased release_capacity)

lemma lease_run_tracks:
  "tracks s \<Longrightarrow> tracks (lease_run acquire release ops s)"
proof (induction ops arbitrary: s)
  case Nil
  then show ?case by simp
next
  case (Cons x ops)
  obtain p hs where s: "s = (p, hs)" by (cases s)
  show ?case
  proof (cases x)
    case Take
    with Cons s show ?thesis
      by (auto split: prod.splits option.splits intro: tracks_take)
  next
    case (Give i)
    with Cons s show ?thesis
      by (auto intro: tracks_give)
  qed
qed

text \<open>Mutual exclusion: no connection is in two hands.\<close>

lemma run_distinct:
  assumes "leased p = {}" and "lease_run acquire release ops (p, []) = (q, hs)"
  shows "distinct hs \<and> set hs = leased q \<and> length hs \<le> capacity q"
proof -
  have "tracks (p, [])"
    using assms(1) by (simp add: tracks_def)
  then have t: "tracks (q, hs)"
    using lease_run_tracks [of "(p, [])" ops] assms(2) by simp
  then have "card (set hs) \<le> card {..<capacity q}"
    by (intro card_mono) (auto simp: tracks_def)
  with t show ?thesis
    by (auto simp: tracks_def dest: distinct_card)
qed

text \<open>A connection given back can be handed out again: after a release a take succeeds.\<close>

lemma take_after_give:
  assumes "i < capacity p"
  shows "\<exists>j q. acquire (release i p) = (Some j, q)"
proof (cases "acquire (release i p)")
  case (Pair r q)
  show ?thesis
  proof (cases r)
    case None
    with Pair have "acquire (release i p) = (None, q)" by simp
    from acquire_None [OF this] assms show ?thesis
      by (auto simp: release_leased release_capacity)
  next
    case (Some j)
    with Pair show ?thesis by blast
  qed
qed

text \<open>What a wait ends with.\<close>

lemma acquire_loop_granted:
  "acquire_loop down acquire eff d ws p = (Granted i, q) \<Longrightarrow>
   \<exists>k \<le> length ws. let p1 = after_wakes (take k ws) p
     in acquire p1 = (Some i, q) \<and> i < capacity p1 \<and> i \<notin> leased p1 \<and> \<not> down p1"
proof (induction ws arbitrary: p)
  case Nil
  then show ?case
    by (auto simp: acquire_loop.simps [of down acquire eff d "[]" p] Let_def dest: acquire_Some
        split: if_splits prod.splits option.splits)
next
  case (Cons w ws)
  show ?case
  proof (cases "acquire_loop down acquire eff d (w # ws) p = acquire_loop down acquire eff d ws (wk_others w p)")
    case True
    with Cons.prems Cons.IH [of "wk_others w p"] obtain k where "k \<le> length ws"
      "let p1 = after_wakes (take k ws) (wk_others w p)
       in acquire p1 = (Some i, q) \<and> i < capacity p1 \<and> i \<notin> leased p1 \<and> \<not> down p1"
      by auto
    then show ?thesis
      by (intro exI [of _ "Suc k"]) auto
  next
    case False
    with Cons.prems have "acquire p = (Some i, q)" "\<not> down p"
      by (auto simp: acquire_loop.simps [of down acquire eff d "w # ws" p] split: if_splits prod.splits option.splits)
    then show ?thesis
      by (intro exI [of _ 0]) (auto dest: acquire_Some)
  qed
qed

text \<open>
  A refusal has one of three causes: the pool is shutting down, the call is a non-blocking
  probe of a full pool, or the deadline has passed.
\<close>

lemma acquire_loop_refused:
  "acquire_loop down acquire eff d ws p = (Refused, q) \<Longrightarrow>
   down q \<or> (eff = 0 \<and> q = p \<and> {..<capacity p} \<subseteq> leased p) \<or>
   (0 < eff \<and> (\<exists>w \<in> set ws. \<not> wk_signalled w \<and> ns_of d \<le> ns_of (wk_now w)))"
proof (induction ws arbitrary: p)
  case Nil
  then show ?case
    by (auto simp: acquire_loop.simps [of down acquire eff d "[]" p] dest: acquire_None
        split: if_splits prod.splits option.splits)
next
  case (Cons w ws)
  show ?case
  proof (cases "acquire_loop down acquire eff d (w # ws) p = acquire_loop down acquire eff d ws (wk_others w p) \<and> eff \<noteq> 0")
    case True
    with Cons.prems Cons.IH [of "wk_others w p"] show ?thesis by auto
  next
    case False
    with Cons.prems show ?thesis
      by (auto simp: acquire_loop.simps [of down acquire eff d "w # ws" p] timed_out_def dest: acquire_None
          split: if_splits prod.splits option.splits)
  qed
qed

lemma acquire_loop_returns:
  "0 < eff \<Longrightarrow> (\<exists>w \<in> set ws. \<not> wk_signalled w \<and> ns_of d \<le> ns_of (wk_now w)) \<Longrightarrow>
   fst (acquire_loop down acquire eff d ws p) \<noteq> Blocked"
proof (induction ws arbitrary: p)
  case Nil
  then show ?case by simp
next
  case (Cons w ws)
  then show ?case
    by (auto simp: acquire_loop.simps [of down acquire eff d "w # ws" p] timed_out_def
        split: prod.splits option.splits)
qed

end

section \<open>An array of connections\<close>

lemma scan_free_None: "scan_free used cs k = None \<longleftrightarrow> (\<forall>c \<in> set cs. used c)"
  by (induction cs arbitrary: k) auto

lemma scan_free_Some:
  "scan_free used cs k = Some i \<Longrightarrow>
   k \<le> i \<and> i < k + length cs \<and> \<not> used (cs ! (i - k)) \<and> (\<forall>j < i - k. used (cs ! j))"
proof (induction cs arbitrary: k)
  case Nil
  then show ?case by simp
next
  case (Cons c cs)
  show ?case
  proof (cases "used c")
    case False
    with Cons.prems show ?thesis by simp
  next
    case True
    with Cons.prems have s: "scan_free used cs (Suc k) = Some i" by simp
    from Cons.IH [OF s] have "i - k = Suc (i - Suc k)" by arith
    with Cons.IH [OF s] True show ?thesis
      by (auto simp: nth_Cons split: nat.splits)
  qed
qed

definition array_capacity :: "('p \<Rightarrow> int) \<Rightarrow> ('p \<Rightarrow> 'c list) \<Rightarrow> 'p \<Rightarrow> nat" where
  "array_capacity max_size conns p = min (nat (max_size p)) (length (conns p))"

definition array_leased :: "('p \<Rightarrow> int) \<Rightarrow> ('p \<Rightarrow> 'c list) \<Rightarrow> ('c \<Rightarrow> bool) \<Rightarrow> 'p \<Rightarrow> nat set" where
  "array_leased max_size conns used p = {i. i < array_capacity max_size conns p \<and> used (conns p ! i)}"

lemma array_fresh_unleased:
  "\<forall>c \<in> set (conns p). \<not> used c \<Longrightarrow> array_leased max_size conns used p = {}"
  by (auto simp: array_leased_def array_capacity_def)

text \<open>
  \<open>mark b i\<close> sets the in-use mark of connection \<open>i\<close>; \<open>acquire\<close> scans the first
  \<open>max_size\<close> connections and marks the first free one.
\<close>

locale conn_array =
  fixes max_size :: "'p \<Rightarrow> int" and conns :: "'p \<Rightarrow> 'c list" and used :: "'c \<Rightarrow> bool"
    and mark :: "bool \<Rightarrow> nat \<Rightarrow> 'p \<Rightarrow> 'p" and acquire :: "'p \<Rightarrow> nat option \<times> 'p"
  assumes mark_size: "max_size (mark b i p) = max_size p"
    and mark_length: "length (conns (mark b i p)) = length (conns p)"
    and mark_used: "j < length (conns p) \<Longrightarrow>
      used (conns (mark b i p) ! j) = (if j = i then b else used (conns p ! j))"
    and acquire_scan: "acquire p = (case scan_free used (take (nat (max_size p)) (conns p)) 0 of
      None \<Rightarrow> (None, p) | Some i \<Rightarrow> (Some i, mark True i p))"
begin

lemma capacity_mark: "array_capacity max_size conns (mark b i p) = array_capacity max_size conns p"
  by (simp add: array_capacity_def mark_size mark_length)

lemma leased_mark:
  "i < array_capacity max_size conns p \<Longrightarrow>
   array_leased max_size conns used (mark True i p) = insert i (array_leased max_size conns used p)"
  "array_leased max_size conns used (mark False i p) = array_leased max_size conns used p - {i}"
  by (auto simp: array_leased_def capacity_mark) (auto simp: array_capacity_def mark_used split: if_splits)

lemma scan_acquires:
  assumes "acquire p = (Some i, q)"
  shows "i < array_capacity max_size conns p \<and> i \<notin> array_leased max_size conns used p \<and>
    q = mark True i p \<and> (\<forall>j < i. j \<in> array_leased max_size conns used p)"
proof -
  let ?cs = "take (nat (max_size p)) (conns p)"
  from assms have s: "scan_free used ?cs 0 = Some i" and q: "q = mark True i p"
    by (auto simp: acquire_scan split: option.splits)
  from scan_free_Some [OF s] show ?thesis
    by (auto simp: q array_capacity_def array_leased_def)
qed

lemma scan_refuses:
  assumes "acquire p = (None, q)"
  shows "q = p \<and> array_leased max_size conns used p = {..<array_capacity max_size conns p}"
proof -
  let ?cs = "take (nat (max_size p)) (conns p)"
  from assms have s: "scan_free used ?cs 0 = None" and q: "q = p"
    by (auto simp: acquire_scan split: option.splits)
  have "used (conns p ! i)" if "i < array_capacity max_size conns p" for i
  proof -
    have "?cs ! i \<in> set ?cs" "?cs ! i = conns p ! i"
      using that nth_mem [of i ?cs] by (auto simp: array_capacity_def)
    with s show ?thesis by (auto simp: scan_free_None)
  qed
  with q show ?thesis by (auto simp: array_leased_def)
qed

end

text \<open>Such an array is a lease pool.\<close>

sublocale conn_array \<subseteq> lease_pool "array_capacity max_size conns" "array_leased max_size conns used"
  acquire "mark False"
  by unfold_locales (auto simp: leased_mark capacity_mark dest: scan_acquires scan_refuses)

text \<open>
  What clients can rely on: nobody holds a connection that another holds; what is given back
  can be taken again; whatever other threads do while a call waits, the connection it is
  granted was free in the pool the call last saw, and only that one becomes leased; a release
  frees just its connection.
\<close>

definition leases_exclusively ::
  "('p \<Rightarrow> nat set) \<Rightarrow> ('p \<Rightarrow> nat option \<times> 'p) \<Rightarrow> (nat \<Rightarrow> 'p \<Rightarrow> 'p) \<Rightarrow>
   ('p wake list \<Rightarrow> 'p \<Rightarrow> acquire_result \<times> 'p) \<Rightarrow> (nat \<Rightarrow> 'p \<Rightarrow> 'p) \<Rightarrow> bool" where
  "leases_exclusively leased try_acq give acq rel \<longleftrightarrow>
     (\<forall>p ops q hs. leased p = {} \<longrightarrow> lease_run try_acq give ops (p, []) = (q, hs) \<longrightarrow>
        distinct hs \<and> set hs = leased q \<and> (\<forall>i \<in> set hs. \<exists>j q'. try_acq (give i q) = (Some j, q'))) \<and>
     (\<forall>ws p i q. acq ws p = (Granted i, q) \<longrightarrow> (\<exists>k \<le> length ws. let p1 = after_wakes (take k ws) p in
        i \<notin> leased p1 \<and> leased q = insert i (leased p1))) \<and>
     (\<forall>p i. leased (rel i p) = leased p - {i})"

context conn_array begin

lemma exclusive:
  assumes "\<And>ws p i q. acq ws p = (Granted i, q) \<Longrightarrow> \<exists>down eff d. acquire_loop down acquire eff d ws p = (Granted i, q)"
    and "\<And>i p. rel i p = mark False i p"
  shows "leases_exclusively (array_leased max_size conns used) acquire (mark False) acq rel"
  unfolding leases_exclusively_def
proof (intro conjI allI impI)
  fix p q ops hs assume "array_leased max_size conns used p = {}" "lease_run acquire (mark False) ops (p, []) = (q, hs)"
  from run_distinct [OF this] show "distinct hs" "set hs = array_leased max_size conns used q" by simp_all
  then have "i < array_capacity max_size conns q" if "i \<in> set hs" for i
    using that by (auto simp: array_leased_def)
  with take_after_give [of _ q] show "\<forall>i \<in> set hs. \<exists>j q'. acquire (mark False i q) = (Some j, q')" by blast
next
  fix ws p i q assume "acq ws p = (Granted i, q)"
  then obtain down eff d where "acquire_loop down acquire eff d ws p = (Granted i, q)" using assms(1) by blast
  from acquire_loop_granted [OF this] obtain k where k: "k \<le> length ws"
    "acquire (after_wakes (take k ws) p) = (Some i, q)" by (auto simp: Let_def)
  from acquire_Some [OF k(2)] k(1) show "\<exists>k \<le> length ws. let p1 = after_wakes (take k ws) p in
      i \<notin> array_leased max_size conns used p1 \<and>
      array_leased max_size conns used q = insert i (array_leased max_size conns used p1)" by (auto simp: Let_def)
qed (simp add: assms(2) leased_mark)

end

end
