(* ===== verification/Pg_Pool.thy ===== *)
theory Pg_Pool
  imports Pg_Params Pg_Chain Lease_Contract
begin

text \<open>
  The PostgreSQL pool of native_pool.c: creation with its rollback, destruction, \<open>pool_acquire\<close>
  and \<open>pool_release\<close>. A connection handle is its index in \<open>conns\<close>. What the worker thread
  still does before \<open>pthread_join\<close> returns is the argument \<open>W\<close>: the end of that
  connection's \<open>native_pool_worker_main\<close>.
\<close>

record 'r native_pool =
  pool_block :: nat
  conninfo :: "string cell option"
  max_size :: int
  default_acquire_timeout_ms :: int
  conns_block :: nat
  conns :: "'r native_conn list"
  mutex :: nat
  free_cond :: nat
  shutting_down :: bool

section \<open>Connections come up and go down\<close>

text \<open>A \<open>calloc\<close>ed \<open>native_conn_t\<close>.\<close>

definition zero_conn :: "'r native_conn" where
  "zero_conn = \<lparr>pg = None, index = 0, in_use = False, worker = 0, slot_mutex = 0, slot_cond = 0,
     slot_filled = False, is_pipeline = False, is_params = False, is_multi_read = False,
     sql = None, sql_count = 0, n_params = 0, param_types = None, param_values = None,
     param_lengths = None, param_formats = None, result_format = 0, port_id = 0, timeout_ms = 0,
     chain_store = [], chain_head = None, chain_tail = None, shutdown_requested = False\<rparr>"

definition init_conn ::
  "('w, 'r) pg_env \<Rightarrow> 'r native_conn \<Rightarrow> int \<Rightarrow> string \<Rightarrow> 'w mach \<Rightarrow> int \<times> 'r native_conn \<times> 'w mach" where
  "init_conn E conn i ci m =
     (let c = conn\<lparr>index := i, in_use := False, slot_filled := False, is_pipeline := False,
                is_params := False, is_multi_read := False, sql := None, sql_count := 0,
                n_params := 0, param_types := None, param_values := None, param_lengths := None,
                param_formats := None, result_format := 0, port_id := 0, timeout_ms := 0,
                chain_store := [], chain_head := None, chain_tail := None,
                shutdown_requested := False\<rparr>;
          (p, m1) = pq_connect E ci m
      in if \<not> PQstatus_ok E p (ext m1) then (-1, c\<lparr>pg := None\<rparr>, pq_finish E p m1)
         else let m2 = m1\<lparr>ext := PQsetnonblocking E p (ext m1)\<rparr> in
           (case halloc () m2 of
              (None, m3) \<Rightarrow> (-1, c\<lparr>pg := None\<rparr>, pq_finish E p m3)
            | (Some mu, m3) \<Rightarrow>
                (case halloc () m3 of
                   (None, m4) \<Rightarrow> (-1, c\<lparr>pg := None\<rparr>, pq_finish E p (rfree (addr mu) m4))
                 | (Some cv, m4) \<Rightarrow>
                     (case halloc () m4 of
                        (None, m5) \<Rightarrow>
                          (-1, c\<lparr>pg := None\<rparr>,
                           pq_finish E p (rfree (addr mu) (rfree (addr cv) m5)))
                      | (Some th, m5) \<Rightarrow>
                          (0, c\<lparr>pg := Some p, slot_mutex := addr mu, slot_cond := addr cv,
                               worker := addr th\<rparr>, m5)))))"

type_synonym ('w, 'r) worker_end = "'r native_conn \<Rightarrow> 'w mach \<Rightarrow> 'r native_conn \<times> 'w mach"

definition teardown_conn ::
  "('w, 'r) pg_env \<Rightarrow> ('w, 'r) worker_end \<Rightarrow> 'r native_conn \<Rightarrow> 'w mach \<Rightarrow> 'r native_conn \<times> 'w mach" where
  "teardown_conn E W conn m =
     (case pg conn of
        None \<Rightarrow> (conn, m)
      | Some p \<Rightarrow>
          (let (c1, m1) = W conn m;
               m2 = rfree (worker conn) m1;
               (c3, m3) = native_pool_free_slot_payload c1 m2;
               (c4, m4) = native_pool_free_result_chain c3 m3;
               m5 = rfree (slot_cond conn) m4;
               m6 = rfree (slot_mutex conn) m5
           in (c4\<lparr>pg := None\<rparr>, pq_finish E p m6)))"

text \<open>\<open>atomic_store(&c->shutdown_requested, 1)\<close> and the signal under the slot mutex.\<close>

definition signal_shutdown :: "'r native_conn \<Rightarrow> 'w mach \<Rightarrow> 'w mach" where
  "signal_shutdown c m =
     mutex_unlock (slot_mutex c) (cond_signal (slot_cond c) (mutex_lock (slot_mutex c) m))"

fun rollback_conns ::
  "('w, 'r) pg_env \<Rightarrow> ('w, 'r) worker_end \<Rightarrow> 'r native_conn list \<Rightarrow> 'w mach \<Rightarrow> 'w mach" where
  "rollback_conns E W [] m = m"
| "rollback_conns E W (c # cs) m =
     (let c1 = c\<lparr>shutdown_requested := True\<rparr>
      in rollback_conns E W cs (snd (teardown_conn E W c1 (signal_shutdown c1 m))))"

fun init_conns ::
  "('w, 'r) pg_env \<Rightarrow> ('w, 'r) worker_end \<Rightarrow> string \<Rightarrow> nat \<Rightarrow> 'r native_conn list \<Rightarrow> 'w mach \<Rightarrow>
   'r native_conn list option \<times> 'w mach" where
  "init_conns E W ci 0 up m = (Some up, m)"
| "init_conns E W ci (Suc n) up m =
     (case init_conn E zero_conn (int (length up)) ci m of
        (r, c, m1) \<Rightarrow>
          (if r \<noteq> 0 then (None, rollback_conns E W up m1)
           else init_conns E W ci n (up @ [c]) m1))"

definition pool_create ::
  "('w, 'r) pg_env \<Rightarrow> ('w, 'r) worker_end \<Rightarrow> string option \<Rightarrow> int \<Rightarrow> int \<Rightarrow> int \<Rightarrow> 'w mach \<Rightarrow>
   'r native_pool option \<times> 'w mach" where
  "pool_create E W ci min_n max_n acquire_timeout m =
     (if ci = None \<or> max_n < 1 then (None, m)
      else (case halloc () m of
          (None, m1) \<Rightarrow> (None, m1)
        | (Some blk, m1) \<Rightarrow>
            (case dup_string ci m1 of
               (None, m2) \<Rightarrow> (None, rfree (addr blk) m2)
             | (Some s, m2) \<Rightarrow>
                 (case halloc () m2 of
                    (None, m3) \<Rightarrow> (None, rfree (addr blk) (rfree (addr s) m3))
                  | (Some mu, m3) \<Rightarrow>
                      (case halloc () m3 of
                         (None, m4) \<Rightarrow>
                           (None, rfree (addr blk) (rfree (addr s) (rfree (addr mu) m4)))
                       | (Some cv, m4) \<Rightarrow>
                           (case halloc () m4 of
                              (None, m5) \<Rightarrow>
                                (None, rfree (addr blk) (rfree (addr s)
                                  (rfree (addr mu) (rfree (addr cv) m5))))
                            | (Some cb, m5) \<Rightarrow>
                                (case init_conns E W (the ci) (nat max_n) [] m5 of
                                   (None, m6) \<Rightarrow>
                                     (None, rfree (addr blk) (rfree (addr s) (rfree (addr mu)
                                       (rfree (addr cv) (rfree (addr cb) m6)))))
                                 | (Some cs, m6) \<Rightarrow>
                                     (Some \<lparr>pool_block = addr blk, conninfo = Some s,
                                            max_size = max_n,
                                            default_acquire_timeout_ms = acquire_timeout,
                                            conns_block = addr cb, conns = cs, mutex = addr mu,
                                            free_cond = addr cv, shutting_down = False\<rparr>, m6))))))))"

text \<open>The two loops of \<open>pool_destroy\<close>: ask every worker to stop, then tear down each.\<close>

fun stop_conns ::
  "('w, 'r) pg_env \<Rightarrow> 'r native_conn list \<Rightarrow> 'w mach \<Rightarrow> 'r native_conn list \<times> 'w mach" where
  "stop_conns E [] m = ([], m)"
| "stop_conns E (c # cs) m =
     (let c1 = c\<lparr>shutdown_requested := True\<rparr>;
          m1 = signal_shutdown c1 (pool_cancel E (Some c1) m);
          (cs', m2) = stop_conns E cs m1
      in (c1 # cs', m2))"

fun teardown_conns ::
  "('w, 'r) pg_env \<Rightarrow> ('w, 'r) worker_end \<Rightarrow> 'r native_conn list \<Rightarrow> 'w mach \<Rightarrow> 'w mach" where
  "teardown_conns E W [] m = m"
| "teardown_conns E W (c # cs) m = teardown_conns E W cs (snd (teardown_conn E W c m))"

definition pool_destroy ::
  "('w, 'r) pg_env \<Rightarrow> ('w, 'r) worker_end \<Rightarrow> 'r native_pool option \<Rightarrow> 'w mach \<Rightarrow> 'w mach" where
  "pool_destroy E W pool m =
     (case pool of
        None \<Rightarrow> m
      | Some p \<Rightarrow>
          (let (cs, m1) = stop_conns E (conns p) m;
               m2 = teardown_conns E W cs m1;
               m3 = mutex_unlock (mutex p) (cond_signal (free_cond p) (mutex_lock (mutex p) m2))
           in rfree (pool_block p) (cfree (conninfo p)
                (rfree (mutex p) (rfree (free_cond p) (rfree (conns_block p) m3))))))"

section \<open>Acquire and release\<close>

definition set_in_use :: "bool \<Rightarrow> nat \<Rightarrow> 'r native_pool \<Rightarrow> 'r native_pool" where
  "set_in_use b i p = p\<lparr>conns := (conns p)[i := (conns p ! i)\<lparr>in_use := b\<rparr>]\<rparr>"

definition try_acquire :: "'r native_pool \<Rightarrow> nat option \<times> 'r native_pool" where
  "try_acquire p =
     (case scan_free in_use (take (nat (max_size p)) (conns p)) 0 of
        None \<Rightarrow> (None, p)
      | Some i \<Rightarrow> (Some i, set_in_use True i p))"

definition effective_timeout :: "'r native_pool \<Rightarrow> int \<Rightarrow> int" where
  "effective_timeout p timeout = (if timeout = 0 then default_acquire_timeout_ms p else timeout)"

definition pool_acquire ::
  "timespec \<Rightarrow> 'r native_pool wake list \<Rightarrow> 'r native_pool option \<Rightarrow> int \<Rightarrow> acquire_result \<times> 'r native_pool option" where
  "pool_acquire now ws pool timeout =
     (case pool of
        None \<Rightarrow> (Refused, None)
      | Some p \<Rightarrow>
          (if shutting_down p then (Refused, Some p)
           else (let eff = effective_timeout p timeout;
                     (r, q) = acquire_loop shutting_down try_acquire eff (deadline_from_ms now eff) ws p
                 in (r, Some q))))"

definition pool_release ::
  "'r native_pool option \<Rightarrow> nat option \<Rightarrow> 'w mach \<Rightarrow> 'r native_pool option \<times> 'w mach" where
  "pool_release pool conn m =
     (case (pool, conn) of
        (Some p, Some i) \<Rightarrow>
          (let (c, m1) = native_pool_free_result_chain (conns p ! i) m;
               p1 = p\<lparr>conns := (conns p)[i := c]\<rparr>;
               m2 = mutex_lock (mutex p) m1;
               p2 = set_in_use False i p1
           in (Some p2, mutex_unlock (mutex p) (cond_signal (free_cond p) m2)))
      | _ \<Rightarrow> (pool, m))"

end
