(* ===== verification/Mailbox_Contract.thy ===== *)
theory Mailbox_Contract
  imports C_Prelude
begin

text \<open>
  The contract of one connection's mailbox, common to the four drivers: a client thread
  submits a request for a native port, the connection's worker thread serves it and posts
  one code (1 or 2) to that port. \<open>mbox_step\<close> is the abstract machine; the locale
  \<open>mailbox_impl\<close> says what a driver's step relation must satisfy to implement it and
  carries every delivery guarantee over to the driver's own states. Each driver's theory
  interprets it on its step relation.
\<close>

datatype phase =
    Idle                      \<comment> \<open>the worker waits on the slot's condition variable\<close>
  | Serving                   \<comment> \<open>it has snapshotted the slot and runs the request\<close>
  | Served int                \<comment> \<open>the request ended with this code; the slot is still full\<close>
  | Notifying int int         \<comment> \<open>the slot is cleared; port and code are still to be posted\<close>
  | Gone                      \<comment> \<open>the thread has returned\<close>

record mbox =
  slot :: "int option"
  phase_of :: phase
  stopping :: bool
  accepted :: "int list"
  delivered :: "(int \<times> int) list"

definition mbox_init :: mbox where
  "mbox_init = \<lparr>slot = None, phase_of = Idle, stopping = False, accepted = [], delivered = []\<rparr>"

text \<open>The worker's own steps, and the steps of its clients.\<close>

inductive mbox_work :: "mbox \<Rightarrow> mbox \<Rightarrow> bool" where
  mb_pick: "phase_of b = Idle \<Longrightarrow> slot b = Some p \<Longrightarrow> mbox_work b (b\<lparr>phase_of := Serving\<rparr>)"
| mb_serve: "phase_of b = Serving \<Longrightarrow> st = 1 \<or> st = 2 \<Longrightarrow> mbox_work b (b\<lparr>phase_of := Served st\<rparr>)"
| mb_clear: "phase_of b = Served st \<Longrightarrow> slot b = Some p \<Longrightarrow>
     mbox_work b (b\<lparr>slot := None, phase_of := Notifying p st\<rparr>)"
| mb_post: "phase_of b = Notifying p st \<Longrightarrow>
     mbox_work b (b\<lparr>phase_of := Idle, delivered := delivered b @ [(p, st)]\<rparr>)"
| mb_leave: "phase_of b = Idle \<Longrightarrow> slot b = None \<Longrightarrow> stopping b \<Longrightarrow>
     mbox_work b (b\<lparr>phase_of := Gone\<rparr>)"

inductive mbox_step :: "mbox \<Rightarrow> mbox \<Rightarrow> bool" where
  mb_accept: "slot b = None \<Longrightarrow> \<not> stopping b \<Longrightarrow>
     mbox_step b (b\<lparr>slot := Some p, accepted := accepted b @ [p]\<rparr>)"
| mb_stop: "mbox_step b (b\<lparr>stopping := True\<rparr>)"
| mb_work: "mbox_work b b' \<Longrightarrow> mbox_step b b'"

inductive_cases mbox_workE: "mbox_work b b'"
inductive_cases mbox_stepE: "mbox_step b b'"

definition mbox_reach :: "mbox \<Rightarrow> bool" where
  "mbox_reach b \<longleftrightarrow> mbox_step\<^sup>*\<^sup>* mbox_init b"

text \<open>The requests accepted and not yet answered, oldest first: never more than two.\<close>

definition in_flight :: "mbox \<Rightarrow> int list" where
  "in_flight b =
     (case phase_of b of Notifying p _ \<Rightarrow> [p] | _ \<Rightarrow> []) @
     (case slot b of None \<Rightarrow> [] | Some p \<Rightarrow> [p])"

definition mbox_inv :: "mbox \<Rightarrow> bool" where
  "mbox_inv b \<longleftrightarrow>
     map fst (delivered b) @ in_flight b = accepted b \<and>
     (\<forall>c \<in> set (delivered b). snd c = 1 \<or> snd c = 2) \<and>
     (case phase_of b of
        Idle \<Rightarrow> True
      | Serving \<Rightarrow> slot b \<noteq> None
      | Served st \<Rightarrow> slot b \<noteq> None \<and> (st = 1 \<or> st = 2)
      | Notifying p st \<Rightarrow> st = 1 \<or> st = 2
      | Gone \<Rightarrow> slot b = None \<and> stopping b)"

lemma mbox_init_inv: "mbox_inv mbox_init"
  by (simp add: mbox_inv_def mbox_init_def in_flight_def)

lemma mbox_work_inv: "mbox_work b b' \<Longrightarrow> mbox_inv b \<Longrightarrow> mbox_inv b'"
  by (erule mbox_workE) (auto simp: mbox_inv_def in_flight_def)

lemma mbox_step_inv: "mbox_step b b' \<Longrightarrow> mbox_inv b \<Longrightarrow> mbox_inv b'"
proof (erule mbox_stepE)
  fix p assume "slot b = None" "\<not> stopping b" "mbox_inv b"
    and "b' = b\<lparr>slot := Some p, accepted := accepted b @ [p]\<rparr>"
  then show "mbox_inv b'"
    by (auto simp: mbox_inv_def in_flight_def split: phase.splits)
next
  assume "mbox_inv b" "b' = b\<lparr>stopping := True\<rparr>"
  then show "mbox_inv b'"
    by (auto simp: mbox_inv_def in_flight_def split: phase.splits)
qed (rule mbox_work_inv)

lemma mbox_reach_inv: "mbox_reach b \<Longrightarrow> mbox_inv b"
  unfolding mbox_reach_def
  by (induction rule: rtranclp_induct) (auto intro: mbox_init_inv mbox_step_inv)

text \<open>
  Worker steps left until the mailbox is quiet: the worker always has a step while a
  request is unanswered, and each of its steps makes this number smaller.
\<close>

definition work_left :: "mbox \<Rightarrow> nat" where
  "work_left b =
     (case phase_of b of
        Idle \<Rightarrow> 1 + (if slot b = None then 0 else 4)
      | Serving \<Rightarrow> 4
      | Served _ \<Rightarrow> 3
      | Notifying _ _ \<Rightarrow> 2 + (if slot b = None then 0 else 4)
      | Gone \<Rightarrow> 0)"

lemma mbox_work_measure: "mbox_work b b' \<Longrightarrow> work_left b' < work_left b"
  by (erule mbox_workE) (auto simp: work_left_def)

lemma mbox_progress:
  assumes "mbox_inv b" "in_flight b \<noteq> []"
  shows "\<exists>b'. mbox_work b b'"
  using assms by (cases "phase_of b")
    (auto simp: mbox_inv_def in_flight_def split: option.splits intro: mbox_work.intros)

text \<open>A run of the worker alone answers everything accepted so far.\<close>

lemma mbox_drains:
  "mbox_inv b \<Longrightarrow> \<exists>b'. mbox_work\<^sup>*\<^sup>* b b' \<and> map fst (delivered b') = accepted b"
proof (induction "work_left b" arbitrary: b rule: less_induct)
  case less
  show ?case
  proof (cases "in_flight b = []")
    case True
    with less.prems have "map fst (delivered b) = accepted b"
      by (simp add: mbox_inv_def)
    then show ?thesis by blast
  next
    case False
    with less.prems obtain b1 where b1: "mbox_work b b1"
      using mbox_progress by blast
    then have acc: "accepted b1 = accepted b"
      by (auto elim: mbox_workE)
    from b1 less.prems have "mbox_inv b1" "work_left b1 < work_left b"
      by (auto intro: mbox_work_inv mbox_work_measure)
    with less.hyps obtain b' where "mbox_work\<^sup>*\<^sup>* b1 b'" "map fst (delivered b') = accepted b1"
      by blast
    with b1 acc show ?thesis
      by (metis converse_rtranclp_into_rtranclp)
  qed
qed

section \<open>The interface a driver implements\<close>

text \<open>
  \<open>start\<close>, \<open>step\<close>: the driver's initial states and steps. \<open>abs\<close>: what a state is as a
  mailbox. \<open>good\<close>: the driver's own invariant. The laws: initial states are empty
  mailboxes, the invariant is kept, and every step is a mailbox step or changes nothing
  the mailbox can see (a refused submission, a result polled, a cancel).
\<close>

locale mailbox_impl =
  fixes start :: "'s \<Rightarrow> bool" and step :: "'s \<Rightarrow> 's \<Rightarrow> bool"
    and abs :: "'s \<Rightarrow> mbox" and good :: "'s \<Rightarrow> bool"
  assumes start_good: "start s \<Longrightarrow> good s"
    and start_abs: "start s \<Longrightarrow> abs s = mbox_init"
    and step_good: "good s \<Longrightarrow> step s t \<Longrightarrow> good t"
    and step_abs: "good s \<Longrightarrow> step s t \<Longrightarrow> abs t = abs s \<or> mbox_step (abs s) (abs t)"
begin

lemma reach_good: "start s0 \<Longrightarrow> step\<^sup>*\<^sup>* s0 s \<Longrightarrow> good s"
  by (rotate_tac, induction rule: rtranclp_induct) (auto intro: start_good step_good)

lemma reach_abs: "start s0 \<Longrightarrow> step\<^sup>*\<^sup>* s0 s \<Longrightarrow> mbox_reach (abs s)"
proof (rotate_tac, induction rule: rtranclp_induct)
  case base
  then show ?case by (simp add: start_abs mbox_reach_def)
next
  case (step y z)
  then have "good y" by (blast intro: reach_good)
  with step show ?case
    by (metis (mono_tags, lifting) mbox_reach_def rtranclp.rtrancl_into_rtrancl step_abs)
qed

lemma reach_inv: "start s0 \<Longrightarrow> step\<^sup>*\<^sup>* s0 s \<Longrightarrow> mbox_inv (abs s)"
  by (blast intro: mbox_reach_inv reach_abs)

text \<open>Exactly once and in order: what was posted is a prefix of what was accepted.\<close>

lemma delivery:
  "start s0 \<Longrightarrow> step\<^sup>*\<^sup>* s0 s \<Longrightarrow>
   map fst (delivered (abs s)) @ in_flight (abs s) = accepted (abs s)"
  by (drule (1) reach_inv) (simp add: mbox_inv_def)

lemma codes:
  "start s0 \<Longrightarrow> step\<^sup>*\<^sup>* s0 s \<Longrightarrow> c \<in> set (delivered (abs s)) \<Longrightarrow> snd c = 1 \<or> snd c = 2"
  by (drule (1) reach_inv) (simp add: mbox_inv_def)

text \<open>A worker that has left answered everything: shutdown drops no accepted request.\<close>

lemma nothing_lost:
  "start s0 \<Longrightarrow> step\<^sup>*\<^sup>* s0 s \<Longrightarrow> phase_of (abs s) = Gone \<Longrightarrow>
   map fst (delivered (abs s)) = accepted (abs s) \<and> slot (abs s) = None"
  by (drule (1) reach_inv) (auto simp: mbox_inv_def in_flight_def)

lemma can_drain:
  "start s0 \<Longrightarrow> step\<^sup>*\<^sup>* s0 s \<Longrightarrow>
   \<exists>b. mbox_work\<^sup>*\<^sup>* (abs s) b \<and> map fst (delivered b) = accepted (abs s)"
  by (drule (1) reach_inv) (rule mbox_drains)

end

end
