(* ===== verification/Driver_Machine.thy ===== *)
theory Driver_Machine
  imports Mailbox_Contract
begin

text \<open>
  One connection with its worker thread and its clients, as a step relation over the
  operations of a driver. The four drivers have the same thread structure: the worker's
  steps are those between its slot-mutex sections (pick, execute, clear, post), the clients'
  are whole calls of the interface, which hold the slot mutex throughout. A client call
  commutes with a running request: the slot is full, so a submission is refused, and a
  cancel or a shutdown reaches the request through the environment.

  The locale \<open>driver_laws\<close> is the contract of a driver's operations; it makes the step
  relation a \<open>mailbox_impl\<close>. Each driver interprets it on its own operations.
\<close>

section \<open>Drivers\<close>

record ('call, 'c, 'w) driver =
  d_filled :: "'c \<Rightarrow> bool"
  d_port :: "'c \<Rightarrow> int"
  d_stopping :: "'c \<Rightarrow> bool"
  d_submit :: "'call \<Rightarrow> int \<Rightarrow> int \<Rightarrow> 'c \<Rightarrow> 'w mach \<Rightarrow> int \<times> 'c option \<times> 'w mach"
  d_stop :: "'c \<Rightarrow> 'w mach \<Rightarrow> 'c \<times> 'w mach"
  d_cancel :: "'c \<Rightarrow> 'w mach \<Rightarrow> 'w mach"
  d_client :: "'c \<Rightarrow> 'w mach \<Rightarrow> ('c \<times> 'w mach) list"
  d_execute :: "nat \<Rightarrow> 'c \<Rightarrow> 'w mach \<Rightarrow> (int \<times> 'c \<times> 'w mach) option"
  d_clear :: "'c \<Rightarrow> 'w mach \<Rightarrow> 'c \<times> 'w mach"

text \<open>
  \<open>d_client\<close>: what polling a result or dropping the results can do. \<open>d_execute\<close> takes the
  fuel of its loops. What the thread does when it holds the slot mutex at the top of its
  loop: serve, return, or wait on the condition variable.
\<close>

datatype worker_choice = Serve | Return | Wait

definition worker_choose :: "bool \<Rightarrow> bool \<Rightarrow> worker_choice" where
  "worker_choose filled stop = (if filled then Serve else if stop then Return else Wait)"

text \<open>
  Where the worker thread is. \<open>Running\<close> and \<open>Executed\<close> carry the port snapshotted with the
  slot, \<open>Cleared\<close> the message still to be posted.
\<close>

datatype worker_pc = At_top | Running int | Executed int int | Cleared int int | Returned

record ('c, 'w) drv_state =
  st_conn :: 'c
  st_mach :: "'w mach"
  st_pc :: worker_pc
  st_accepted :: "int list"
  st_posted :: "(int \<times> int) list"

text \<open>
  The clients of a connection use it as the pool leases it: they poll and release between a
  notification and the next submission, never while a request is in the slot.
\<close>

definition quiet :: "('call, 'c, 'w) driver \<Rightarrow> ('c, 'w) drv_state \<Rightarrow> bool" where
  "quiet D s \<longleftrightarrow> \<not> d_filled D (st_conn s) \<and> (st_pc s = At_top \<or> st_pc s = Returned)"

inductive drv_step ::
  "('call, 'c, 'w) driver \<Rightarrow> ('call \<Rightarrow> bool) \<Rightarrow> ('c, 'w) drv_state \<Rightarrow> ('c, 'w) drv_state \<Rightarrow> bool"
  for D ok where
  drv_submit: "ok call \<Longrightarrow> d_submit D call port t (st_conn s) (st_mach s) = (k, Some c', m') \<Longrightarrow>
     drv_step D ok s (s\<lparr>st_conn := c', st_mach := m',
       st_accepted := st_accepted s @ (if k = 1 then [port] else [])\<rparr>)"
| drv_cancel: "drv_step D ok s (s\<lparr>st_mach := d_cancel D (st_conn s) (st_mach s)\<rparr>)"
| drv_stop: "d_stop D (st_conn s) (st_mach s) = (c', m') \<Longrightarrow>
     drv_step D ok s (s\<lparr>st_conn := c', st_mach := m'\<rparr>)"
| drv_client: "quiet D s \<Longrightarrow> (c', m') \<in> set (d_client D (st_conn s) (st_mach s)) \<Longrightarrow>
     drv_step D ok s (s\<lparr>st_conn := c', st_mach := m'\<rparr>)"
| drv_pick: "st_pc s = At_top \<Longrightarrow>
     worker_choose (d_filled D (st_conn s)) (d_stopping D (st_conn s)) = Serve \<Longrightarrow>
     drv_step D ok s (s\<lparr>st_pc := Running (d_port D (st_conn s))\<rparr>)"
| drv_execute: "st_pc s = Running port \<Longrightarrow>
     d_execute D n (st_conn s) (st_mach s) = Some (status, c', m') \<Longrightarrow>
     drv_step D ok s (s\<lparr>st_conn := c', st_mach := m', st_pc := Executed port status\<rparr>)"
| drv_clear: "st_pc s = Executed port status \<Longrightarrow> d_clear D (st_conn s) (st_mach s) = (c', m') \<Longrightarrow>
     drv_step D ok s (s\<lparr>st_conn := c', st_mach := m', st_pc := Cleared port status\<rparr>)"
| drv_post: "st_pc s = Cleared port status \<Longrightarrow>
     drv_step D ok s (s\<lparr>st_pc := At_top, st_posted := st_posted s @ [(port, status)]\<rparr>)"
| drv_return: "st_pc s = At_top \<Longrightarrow>
     worker_choose (d_filled D (st_conn s)) (d_stopping D (st_conn s)) = Return \<Longrightarrow>
     drv_step D ok s (s\<lparr>st_pc := Returned\<rparr>)"

text \<open>What the state is as a mailbox.\<close>

definition drv_phase :: "worker_pc \<Rightarrow> phase" where
  "drv_phase pc = (case pc of At_top \<Rightarrow> Idle | Running _ \<Rightarrow> Serving | Executed _ st \<Rightarrow> Served st
     | Cleared port st \<Rightarrow> Notifying port st | Returned \<Rightarrow> Gone)"

definition drv_abs :: "('call, 'c, 'w) driver \<Rightarrow> ('c, 'w) drv_state \<Rightarrow> mbox" where
  "drv_abs D s = \<lparr>slot = (if d_filled D (st_conn s) then Some (d_port D (st_conn s)) else None),
     phase_of = drv_phase (st_pc s), stopping = d_stopping D (st_conn s),
     accepted = st_accepted s, delivered = st_posted s\<rparr>"

text \<open>The thread's snapshot agrees with the slot while it runs the request.\<close>

definition pc_agrees :: "('call, 'c, 'w) driver \<Rightarrow> worker_pc \<Rightarrow> 'c \<Rightarrow> bool" where
  "pc_agrees D pc c \<longleftrightarrow>
     (case pc of
        Running port \<Rightarrow> d_filled D c \<and> d_port D c = port
      | Executed port st \<Rightarrow> d_filled D c \<and> d_port D c = port \<and> (st = 1 \<or> st = 2)
      | Cleared port st \<Rightarrow> st = 1 \<or> st = 2
      | Returned \<Rightarrow> \<not> d_filled D c \<and> d_stopping D c
      | At_top \<Rightarrow> True)"

definition drv_start :: "('call, 'c, 'w) driver \<Rightarrow> ('c \<Rightarrow> 'w mach \<Rightarrow> bool) \<Rightarrow> ('c, 'w) drv_state \<Rightarrow> bool" where
  "drv_start D own s \<longleftrightarrow> own (st_conn s) (st_mach s) \<and> \<not> d_filled D (st_conn s) \<and>
     \<not> d_stopping D (st_conn s) \<and> st_pc s = At_top \<and> st_accepted s = [] \<and> st_posted s = []"

definition drv_good :: "('call, 'c, 'w) driver \<Rightarrow> ('c \<Rightarrow> 'w mach \<Rightarrow> bool) \<Rightarrow> ('c, 'w) drv_state \<Rightarrow> bool" where
  "drv_good D own s \<longleftrightarrow> own (st_conn s) (st_mach s) \<and> pc_agrees D (st_pc s) (st_conn s)"

text \<open>One request from its submission to its clearing, when nothing comes in between.\<close>

definition serve_once ::
  "('call, 'c, 'w) driver \<Rightarrow> nat \<Rightarrow> 'call \<Rightarrow> int \<Rightarrow> int \<Rightarrow> 'c \<Rightarrow> 'w mach \<Rightarrow> (int \<times> 'c \<times> 'w mach) option" where
  "serve_once D n call port t c m =
     (case d_submit D call port t c m of
        (k, Some c1, m1) \<Rightarrow>
          (if k = 1 then (case d_execute D n c1 m1 of
               None \<Rightarrow> None
             | Some (st, c2, m2) \<Rightarrow> Some (st, d_clear D c2 m2)) else None)
      | _ \<Rightarrow> None)"

lemma serve_once_parts:
  "serve_once D n call port t c m = Some (st, c', m') \<Longrightarrow>
   \<exists>c1 m1 c2 m2. d_submit D call port t c m = (1, Some c1, m1) \<and> d_execute D n c1 m1 = Some (st, c2, m2) \<and>
     d_clear D c2 m2 = (c', m')"
  by (auto simp: serve_once_def split: prod.splits option.splits if_splits)

text \<open>Two connections look the same to the mailbox.\<close>

definition same_view :: "('call, 'c, 'w) driver \<Rightarrow> 'c \<Rightarrow> 'c \<Rightarrow> bool" where
  "same_view D c c' \<longleftrightarrow> d_filled D c' = d_filled D c \<and> d_port D c' = d_port D c \<and>
     d_stopping D c' = d_stopping D c"

lemma same_view_refl [simp]: "same_view D c c"
  by (simp add: same_view_def)

section \<open>The contract\<close>

text \<open>
  \<open>own\<close> is the driver's invariant of connection and machine: what the connection owns is
  live and disjoint, nothing undefined has happened. Submission is all or nothing; only a
  submission fills the slot, only \<open>d_clear\<close> empties it, only \<open>d_stop\<close> raises the shutdown
  flag; every request ends with code 1 or 2.
\<close>

locale driver_laws =
  fixes D :: "('call, 'c, 'w) driver" and call_ok :: "'call \<Rightarrow> bool"
    and own :: "'c \<Rightarrow> 'w mach \<Rightarrow> bool"
  assumes submit_law: "own c m \<Longrightarrow> call_ok call \<Longrightarrow> d_submit D call port t c m = (k, Some c', m') \<Longrightarrow>
      own c' m' \<and> ((k = 0 \<and> same_view D c c') \<or>
       (k = 1 \<and> \<not> d_filled D c \<and> \<not> d_stopping D c \<and> d_filled D c' \<and> d_port D c' = port \<and>
        \<not> d_stopping D c'))"
    and stop_law: "own c m \<Longrightarrow> d_stop D c m = (c', m') \<Longrightarrow>
      own c' m' \<and> d_filled D c' = d_filled D c \<and> d_port D c' = d_port D c \<and> d_stopping D c'"
    and cancel_law: "own c m \<Longrightarrow> own c (d_cancel D c m)"
    and client_law: "own c m \<Longrightarrow> \<not> d_filled D c \<Longrightarrow> (c', m') \<in> set (d_client D c m) \<Longrightarrow>
      own c' m' \<and> same_view D c c'"
    and execute_law: "own c m \<Longrightarrow> d_filled D c \<Longrightarrow> d_execute D n c m = Some (st, c', m') \<Longrightarrow>
      own c' m' \<and> same_view D c c' \<and> (st = 1 \<or> st = 2)"
    and clear_law: "own c m \<Longrightarrow> d_filled D c \<Longrightarrow> d_clear D c m = (c', m') \<Longrightarrow>
      own c' m' \<and> \<not> d_filled D c' \<and> d_stopping D c' = d_stopping D c"
begin

lemma pc_agrees_view: "same_view D c c' \<Longrightarrow> pc_agrees D pc c \<Longrightarrow> pc_agrees D pc c'"
  by (auto simp: pc_agrees_def same_view_def split: worker_pc.splits)

lemma drv_step_good:
  assumes good: "drv_good D own s" and step: "drv_step D call_ok s t"
  shows "drv_good D own t"
proof -
  from good have own: "own (st_conn s) (st_mach s)" and agree: "pc_agrees D (st_pc s) (st_conn s)"
    by (simp_all add: drv_good_def)
  from step show ?thesis
  proof (cases rule: drv_step.cases)
    case (drv_submit call port t' k c' m')
    from submit_law [OF own drv_submit(2,3)] agree have "own c' m'" "pc_agrees D (st_pc s) c'"
      by (auto simp: pc_agrees_def same_view_def split: worker_pc.splits)
    with drv_submit(1) show ?thesis by (simp add: drv_good_def)
  next
    case drv_cancel
    with cancel_law [OF own] agree show ?thesis by (simp add: drv_good_def)
  next
    case (drv_stop c' m')
    from stop_law [OF own drv_stop(2)] agree have "own c' m'" "pc_agrees D (st_pc s) c'"
      by (auto simp: pc_agrees_def split: worker_pc.splits)
    with drv_stop(1) show ?thesis by (simp add: drv_good_def)
  next
    case (drv_client c' m')
    from client_law [OF own _ drv_client(3)] drv_client(2) have "own c' m' \<and> same_view D (st_conn s) c'"
      by (simp add: quiet_def)
    with drv_client(1) pc_agrees_view [OF _ agree] show ?thesis by (simp add: drv_good_def)
  next
    case drv_pick
    with own show ?thesis
      by (auto simp: drv_good_def pc_agrees_def worker_choose_def split: if_splits)
  next
    case (drv_execute port n st c' m')
    then have full: "d_filled D (st_conn s)" and p: "d_port D (st_conn s) = port"
      using agree by (auto simp: pc_agrees_def)
    from execute_law [OF own full drv_execute(3)] full p drv_execute(1) show ?thesis
      by (auto simp: drv_good_def pc_agrees_def same_view_def)
  next
    case (drv_clear port st c' m')
    then have full: "d_filled D (st_conn s)" using agree by (auto simp: pc_agrees_def)
    from clear_law [OF own full drv_clear(3)] agree drv_clear(1,2) show ?thesis
      by (auto simp: drv_good_def pc_agrees_def)
  next
    case drv_post
    with own show ?thesis by (auto simp: drv_good_def pc_agrees_def)
  next
    case drv_return
    with own show ?thesis
      by (auto simp: drv_good_def pc_agrees_def worker_choose_def split: if_splits)
  qed
qed

lemma abs_view:
  "same_view D (st_conn s) c' \<Longrightarrow>
   drv_abs D (s\<lparr>st_conn := c', st_mach := m'\<rparr>) = drv_abs D s"
  by (simp add: drv_abs_def same_view_def)

text \<open>Each step of the worker is a step of the abstract one.\<close>

lemma pick_works:
  "st_pc s = At_top \<Longrightarrow> d_filled D (st_conn s) \<Longrightarrow> mbox_work (drv_abs D s) (drv_abs D (s\<lparr>st_pc := Running p\<rparr>))"
  using mb_pick [of "drv_abs D s" "d_port D (st_conn s)"] by (simp add: drv_abs_def drv_phase_def)

lemma execute_works:
  assumes "drv_good D own s" "st_pc s = Running port" "d_execute D n (st_conn s) (st_mach s) = Some (st, c', m')"
  shows "mbox_work (drv_abs D s) (drv_abs D (s\<lparr>st_conn := c', st_mach := m', st_pc := Executed port st\<rparr>))"
proof -
  from assms(1,2) have own: "own (st_conn s) (st_mach s)" and full: "d_filled D (st_conn s)"
    by (auto simp: drv_good_def pc_agrees_def)
  from execute_law [OF own full assms(3)] full mb_serve [of "drv_abs D s" st] assms(2) show ?thesis
    by (simp add: drv_abs_def drv_phase_def same_view_def)
qed

lemma clear_works:
  assumes "drv_good D own s" "st_pc s = Executed port st" "d_clear D (st_conn s) (st_mach s) = (c', m')"
  shows "mbox_work (drv_abs D s) (drv_abs D (s\<lparr>st_conn := c', st_mach := m', st_pc := Cleared port st\<rparr>))"
proof -
  from assms(1,2) have own: "own (st_conn s) (st_mach s)" and full: "d_filled D (st_conn s)" "d_port D (st_conn s) = port"
    by (auto simp: drv_good_def pc_agrees_def)
  from clear_law [OF own full(1) assms(3)] full mb_clear [of "drv_abs D s" st port] assms(2) show ?thesis
    by (simp add: drv_abs_def drv_phase_def)
qed

lemma post_works:
  "st_pc s = Cleared port st \<Longrightarrow>
   mbox_work (drv_abs D s) (drv_abs D (s\<lparr>st_pc := At_top, st_posted := st_posted s @ [(port, st)]\<rparr>))"
  using mb_post [of "drv_abs D s" port st] by (cases "d_filled D (st_conn s)") (simp_all add: drv_abs_def drv_phase_def)

lemma return_works:
  "st_pc s = At_top \<Longrightarrow> \<not> d_filled D (st_conn s) \<Longrightarrow> d_stopping D (st_conn s) \<Longrightarrow>
   mbox_work (drv_abs D s) (drv_abs D (s\<lparr>st_pc := Returned\<rparr>))"
  using mb_leave [of "drv_abs D s"] by (simp add: drv_abs_def drv_phase_def)

lemma drv_step_abs:
  assumes good: "drv_good D own s" and step: "drv_step D call_ok s t"
  shows "drv_abs D t = drv_abs D s \<or> mbox_step (drv_abs D s) (drv_abs D t)"
proof -
  from good have own: "own (st_conn s) (st_mach s)" by (simp add: drv_good_def)
  from step show ?thesis
  proof (cases rule: drv_step.cases)
    case (drv_submit call port t' k c' m')
    from submit_law [OF own drv_submit(2,3)] show ?thesis
    proof (elim conjE disjE)
      assume "k = 0" "same_view D (st_conn s) c'"
      with abs_view [of s c' m'] drv_submit(1) show ?thesis by (simp add: drv_abs_def)
    next
      assume "k = 1" "\<not> d_filled D (st_conn s)" "\<not> d_stopping D (st_conn s)" "d_filled D c'"
        "d_port D c' = port" "\<not> d_stopping D c'"
      with mb_accept [of "drv_abs D s" port] drv_submit(1) show ?thesis by (simp add: drv_abs_def)
    qed
  next
    case (drv_stop c' m')
    with stop_law [OF own drv_stop(2)] have "drv_abs D t = (drv_abs D s)\<lparr>stopping := True\<rparr>"
      by (simp add: drv_abs_def)
    with mb_stop [of "drv_abs D s"] show ?thesis by simp
  next
    case (drv_client c' m')
    from client_law [OF own _ drv_client(3)] drv_client(2) have "same_view D (st_conn s) c'"
      by (simp add: quiet_def)
    with abs_view drv_client(1) show ?thesis by simp
  next
    case drv_pick
    then show ?thesis using pick_works [of s] by (simp add: worker_choose_def mb_work split: if_splits)
  next
    case (drv_execute port n st c' m')
    then show ?thesis using execute_works [OF good drv_execute(2,3)] by (simp add: mb_work)
  next
    case (drv_clear port st c' m')
    then show ?thesis using clear_works [OF good drv_clear(2,3)] by (simp add: mb_work)
  next
    case (drv_post port st)
    then show ?thesis using post_works [of s port st] by (simp add: mb_work)
  next
    case drv_return
    then show ?thesis using return_works [of s] by (simp add: worker_choose_def mb_work split: if_splits)
  qed (simp add: drv_abs_def)
qed

end

sublocale driver_laws \<subseteq> mailbox_impl "drv_start D own" "drv_step D call_ok" "drv_abs D" "drv_good D own"
proof unfold_locales
  fix s t
  show "drv_start D own s \<Longrightarrow> drv_good D own s"
    by (simp add: drv_start_def drv_good_def pc_agrees_def)
  show "drv_start D own s \<Longrightarrow> drv_abs D s = mbox_init"
    by (simp add: drv_start_def drv_abs_def mbox_init_def drv_phase_def)
qed (rule drv_step_good drv_step_abs; assumption)+

context driver_laws begin

text \<open>The four guarantees, on the driver's own states.\<close>

lemma exactly_once:
  assumes "drv_start D own s0" "(drv_step D call_ok)\<^sup>*\<^sup>* s0 s"
  shows "map fst (st_posted s) @ in_flight (drv_abs D s) = st_accepted s \<and>
    (\<forall>c \<in> set (st_posted s). snd c = 1 \<or> snd c = 2)"
  using delivery [OF assms] codes [OF assms] by (simp add: drv_abs_def)

lemma drops_nothing:
  assumes "drv_start D own s0" "(drv_step D call_ok)\<^sup>*\<^sup>* s0 s" "st_pc s = Returned"
  shows "map fst (st_posted s) = st_accepted s \<and> \<not> d_filled D (st_conn s)"
proof -
  have "phase_of (drv_abs D s) = Gone"
    using assms(3) by (simp add: drv_abs_def drv_phase_def)
  from nothing_lost [OF assms(1,2) this] show ?thesis
    by (simp add: drv_abs_def split: if_splits)
qed

lemma answered_free:
  assumes "drv_start D own s0" "(drv_step D call_ok)\<^sup>*\<^sup>* s0 s" "map fst (st_posted s) = st_accepted s"
  shows "\<not> d_filled D (st_conn s)"
proof -
  have "delivered (drv_abs D s) = st_posted s" "accepted (drv_abs D s) = st_accepted s"
    by (simp_all add: drv_abs_def)
  with delivery [OF assms(1,2)] have "in_flight (drv_abs D s) = []"
    unfolding assms(3) [symmetric] by simp
  then show ?thesis
    by (auto simp: in_flight_def drv_abs_def)
qed

lemma always_owned:
  "drv_start D own s0 \<Longrightarrow> (drv_step D call_ok)\<^sup>*\<^sup>* s0 s \<Longrightarrow> own (st_conn s) (st_mach s)"
  using reach_good by (simp add: drv_good_def)

text \<open>One request from its submission to its notification.\<close>

lemma serves:
  assumes own: "own (st_conn s) (st_mach s)" and ok: "call_ok call" and top: "st_pc s = At_top"
    and run: "serve_once D n call port t (st_conn s) (st_mach s) = Some (st, c', m')"
  shows "(drv_step D call_ok)\<^sup>*\<^sup>* s (s\<lparr>st_conn := c', st_mach := m',
    st_accepted := st_accepted s @ [port], st_posted := st_posted s @ [(port, st)]\<rparr>)"
proof -
  from serve_once_parts [OF run] obtain c1 m1 c2 m2 where sub: "d_submit D call port t (st_conn s) (st_mach s) = (1, Some c1, m1)"
    and ex: "d_execute D n c1 m1 = Some (st, c2, m2)" and cl: "d_clear D c2 m2 = (c', m')" by blast
  from submit_law [OF own ok sub] have full: "d_filled D c1" "d_port D c1 = port" by simp_all
  let ?s1 = "s\<lparr>st_conn := c1, st_mach := m1, st_accepted := st_accepted s @ [port]\<rparr>"
  have "drv_step D call_ok s ?s1" using drv_submit [where ok = call_ok and D = D and s = s, OF ok sub] by simp
  moreover have "drv_step D call_ok ?s1 (?s1\<lparr>st_pc := Running port\<rparr>)"
    using drv_pick [of ?s1 D call_ok] full top by (simp add: worker_choose_def)
  moreover have "drv_step D call_ok (?s1\<lparr>st_pc := Running port\<rparr>)
      (?s1\<lparr>st_conn := c2, st_mach := m2, st_pc := Executed port st\<rparr>)"
    using drv_execute [of "?s1\<lparr>st_pc := Running port\<rparr>" port D n st c2 m2 call_ok] ex by simp
  moreover have "drv_step D call_ok (?s1\<lparr>st_conn := c2, st_mach := m2, st_pc := Executed port st\<rparr>)
      (?s1\<lparr>st_conn := c', st_mach := m', st_pc := Cleared port st\<rparr>)"
    using drv_clear [of "?s1\<lparr>st_conn := c2, st_mach := m2, st_pc := Executed port st\<rparr>" port st D c' m' call_ok] cl by simp
  moreover have "drv_step D call_ok (?s1\<lparr>st_conn := c', st_mach := m', st_pc := Cleared port st\<rparr>)
      (s\<lparr>st_conn := c', st_mach := m', st_accepted := st_accepted s @ [port], st_posted := st_posted s @ [(port, st)]\<rparr>)"
    using drv_post [of "?s1\<lparr>st_conn := c', st_mach := m', st_pc := Cleared port st\<rparr>" port st D call_ok] top by (cases s) simp
  ultimately show ?thesis by (meson converse_rtranclp_into_rtranclp rtranclp.rtrancl_refl)
qed

text \<open>From the start: a request is served, then the worker is stopped and returns.\<close>

lemma serves_and_returns:
  assumes start: "drv_start D own s0" and ok: "call_ok call"
    and run: "map_option fst (serve_once D n call port t (st_conn s0) (st_mach s0)) = Some st"
  shows "\<exists>s. (drv_step D call_ok)\<^sup>*\<^sup>* s0 s \<and> st_posted s = [(port, st)] \<and> st_pc s = Returned"
proof -
  from start have s0: "own (st_conn s0) (st_mach s0)" "st_pc s0 = At_top" "st_accepted s0 = []" "st_posted s0 = []"
    by (simp_all add: drv_start_def)
  from run obtain c' m' where r: "serve_once D n call port t (st_conn s0) (st_mach s0) = Some (st, c', m')" by auto
  let ?s = "s0\<lparr>st_conn := c', st_mach := m', st_accepted := [port], st_posted := [(port, st)]\<rparr>"
  from serves [OF s0(1) ok s0(2) r] have steps: "(drv_step D call_ok)\<^sup>*\<^sup>* s0 ?s" by (simp add: s0)
  from serve_once_parts [OF r] obtain c1 m1 c2 m2 where sub: "d_submit D call port t (st_conn s0) (st_mach s0) = (1, Some c1, m1)"
    and ex: "d_execute D n c1 m1 = Some (st, c2, m2)" and cl: "d_clear D c2 m2 = (c', m')" by blast
  from submit_law [OF s0(1) ok sub] have c1: "own c1 m1" "d_filled D c1" by simp_all
  from execute_law [OF c1 ex] c1 have "own c2 m2" "d_filled D c2" by (simp_all add: same_view_def)
  from clear_law [OF this cl] have empty: "own c' m'" "\<not> d_filled D c'" by simp_all
  obtain c'' m'' where stop: "d_stop D c' m' = (c'', m'')" by fastforce
  from stop_law [OF empty(1) stop] empty(2) have stopped: "\<not> d_filled D c''" "d_stopping D c''" by simp_all
  have "drv_step D call_ok ?s (?s\<lparr>st_conn := c'', st_mach := m''\<rparr>)"
    by (rule drv_stop) (simp add: stop)
  moreover have "drv_step D call_ok (?s\<lparr>st_conn := c'', st_mach := m''\<rparr>) (?s\<lparr>st_conn := c'', st_mach := m'', st_pc := Returned\<rparr>)"
    using drv_return [of "?s\<lparr>st_conn := c'', st_mach := m''\<rparr>" D call_ok] stopped s0(2) by (simp add: worker_choose_def)
  ultimately show ?thesis using steps
    by (intro exI [of _ "?s\<lparr>st_conn := c'', st_mach := m'', st_pc := Returned\<rparr>"]) (simp add: rtranclp.rtrancl_into_rtrancl)
qed

text \<open>A shutdown is never taken back.\<close>

lemma step_stopping:
  assumes good: "drv_good D own s" and step: "drv_step D call_ok s t" and stop: "d_stopping D (st_conn s)"
  shows "d_stopping D (st_conn t)"
proof -
  from good have own: "own (st_conn s) (st_mach s)" by (simp add: drv_good_def)
  from step show ?thesis
  proof (cases rule: drv_step.cases)
    case (drv_submit call port t' k c' m')
    from submit_law [OF own drv_submit(2,3)] drv_submit(1) stop show ?thesis by (auto simp: same_view_def)
  next
    case (drv_stop c' m')
    from stop_law [OF own drv_stop(2)] drv_stop(1) show ?thesis by simp
  next
    case (drv_client c' m')
    from client_law [OF own _ drv_client(3)] drv_client(1,2) stop show ?thesis by (simp add: quiet_def same_view_def)
  next
    case (drv_execute port n st c' m')
    then have "d_filled D (st_conn s)" using good by (simp add: drv_good_def pc_agrees_def)
    from execute_law [OF own this drv_execute(3)] drv_execute(1) stop show ?thesis by (simp add: same_view_def)
  next
    case (drv_clear port st c' m')
    then have "d_filled D (st_conn s)" using good by (simp add: drv_good_def pc_agrees_def)
    from clear_law [OF own this drv_clear(3)] drv_clear(1) stop show ?thesis by simp
  qed (use stop in simp_all)
qed

lemma stopping_stays:
  "(drv_step D call_ok)\<^sup>*\<^sup>* s t \<Longrightarrow> drv_good D own s \<Longrightarrow> d_stopping D (st_conn s) \<Longrightarrow>
   drv_good D own t \<and> d_stopping D (st_conn t)"
  by (induction rule: rtranclp_induct) (auto intro: drv_step_good step_stopping)

text \<open>
  Liveness: while the requests that come to the front end, the worker alone can answer all
  that have been accepted.
\<close>

lemma worker_step:
  assumes good: "drv_good D own s" and work: "in_flight (drv_abs D s) \<noteq> []"
    and ends: "d_filled D (st_conn s) \<longrightarrow> (\<exists>n. d_execute D n (st_conn s) (st_mach s) \<noteq> None)"
  shows "\<exists>t. drv_step D call_ok s t \<and> mbox_work (drv_abs D s) (drv_abs D t) \<and> st_accepted t = st_accepted s"
proof (cases "st_pc s")
  case At_top
  then have full: "d_filled D (st_conn s)" using work by (auto simp: in_flight_def drv_abs_def drv_phase_def split: if_splits)
  with At_top have "drv_step D call_ok s (s\<lparr>st_pc := Running (d_port D (st_conn s))\<rparr>)"
    by (intro drv_pick) (simp_all add: worker_choose_def)
  with pick_works [OF At_top full] show ?thesis by fastforce
next
  case (Running port)
  then have "d_filled D (st_conn s)" using good by (simp add: drv_good_def pc_agrees_def)
  with ends obtain n r where "d_execute D n (st_conn s) (st_mach s) = Some r" by blast
  then obtain st c' m' where r: "d_execute D n (st_conn s) (st_mach s) = Some (st, c', m')" by (cases r) simp
  from drv_execute [OF Running r] execute_works [OF good Running r] show ?thesis by fastforce
next
  case (Executed port st)
  obtain c' m' where r: "d_clear D (st_conn s) (st_mach s) = (c', m')" by fastforce
  from drv_clear [OF Executed r] clear_works [OF good Executed r] show ?thesis by fastforce
next
  case (Cleared port st)
  from drv_post [OF Cleared] post_works [OF Cleared] show ?thesis by fastforce
next
  case Returned
  then show ?thesis using good work
    by (auto simp: drv_good_def pc_agrees_def in_flight_def drv_abs_def drv_phase_def)
qed

lemma worker_answers:
  assumes "drv_good D own s" "mbox_inv (drv_abs D s)"
    and "\<forall>t. (drv_step D call_ok)\<^sup>*\<^sup>* s t \<longrightarrow> d_filled D (st_conn t) \<longrightarrow> (\<exists>n. d_execute D n (st_conn t) (st_mach t) \<noteq> None)"
  shows "\<exists>t. (drv_step D call_ok)\<^sup>*\<^sup>* s t \<and> map fst (st_posted t) = st_accepted s"
  using assms
proof (induction "work_left (drv_abs D s)" arbitrary: s rule: less_induct)
  case less
  show ?case
  proof (cases "in_flight (drv_abs D s) = []")
    case True
    with less.prems(2) have "map fst (st_posted s) = st_accepted s" by (simp add: mbox_inv_def drv_abs_def)
    then show ?thesis by blast
  next
    case False
    from worker_step [OF less.prems(1) False] less.prems(3) obtain t where
      t: "drv_step D call_ok s t" "mbox_work (drv_abs D s) (drv_abs D t)" "st_accepted t = st_accepted s" by blast
    have "\<exists>u. (drv_step D call_ok)\<^sup>*\<^sup>* t u \<and> map fst (st_posted u) = st_accepted t"
    proof (rule less.hyps)
      show "work_left (drv_abs D t) < work_left (drv_abs D s)" by (rule mbox_work_measure [OF t(2)])
      show "drv_good D own t" by (rule drv_step_good [OF less.prems(1) t(1)])
      show "mbox_inv (drv_abs D t)" by (rule mbox_work_inv [OF t(2) less.prems(2)])
      show "\<forall>u. (drv_step D call_ok)\<^sup>*\<^sup>* t u \<longrightarrow> d_filled D (st_conn u) \<longrightarrow>
          (\<exists>n. d_execute D n (st_conn u) (st_mach u) \<noteq> None)"
        using less.prems(3) t(1) by (meson converse_rtranclp_into_rtranclp)
    qed
    with t show ?thesis by (metis converse_rtranclp_into_rtranclp)
  qed
qed

lemma answers:
  assumes "drv_start D own s0" "(drv_step D call_ok)\<^sup>*\<^sup>* s0 s"
    and "\<forall>t. (drv_step D call_ok)\<^sup>*\<^sup>* s t \<longrightarrow> d_filled D (st_conn t) \<longrightarrow> (\<exists>n. d_execute D n (st_conn t) (st_mach t) \<noteq> None)"
  shows "\<exists>t. (drv_step D call_ok)\<^sup>*\<^sup>* s t \<and> map fst (st_posted t) = st_accepted s"
  using worker_answers [OF reach_good [OF assms(1,2)] reach_inv [OF assms(1,2)] assms(3)] .

end

end
