(* ===== verification/C_Strings.thy ===== *)
theory C_Strings
  imports C_Prelude
begin

text \<open>
  C strings built by hand: writes through a \<open>char*\<close> into a block, what a library call reads
  from it, the decimal output of \<open>snprintf\<close>, and the text of statements joined by semicolons.
\<close>

section \<open>Blocks\<close>

text \<open>\<open>memcpy\<close> of \<open>bs\<close> to offset \<open>p\<close> of a block; a write past the block is a fault.\<close>

definition write_bytes :: "nat \<Rightarrow> string \<Rightarrow> string \<Rightarrow> 'w mach \<Rightarrow> string \<times> 'w mach" where
  "write_bytes p bs buf m =
     (take p buf @ bs @ drop (p + length bs) buf,
      (if p + length bs \<le> length buf then m else m\<lparr>fault := True\<rparr>))"

lemma write_bytes_fits:
  assumes "p + length bs \<le> length buf" "write_bytes p bs buf m = (buf', m')"
  shows "m' = m" "length buf' = length buf" "take (p + length bs) buf' = take p buf @ bs"
proof -
  have b: "buf' = take p buf @ bs @ drop (p + length bs) buf" "m' = m"
    using assms by (auto simp: write_bytes_def)
  have "length (take p buf) = p" using assms(1) by simp
  with b assms(1) show "m' = m" "length buf' = length buf" "take (p + length bs) buf' = take p buf @ bs"
    by simp_all
qed

lemma write_bytes_rest:
  assumes "p + length bs \<le> length buf" "write_bytes p bs buf m = (buf', m')" "p + length bs \<le> k"
  shows "drop k buf' = drop k buf"
proof -
  have "length (take p buf) = p" "buf' = take p buf @ bs @ drop (p + length bs) buf"
    using assms(1,2) by (simp_all add: write_bytes_def)
  with assms(3) show ?thesis by simp
qed

text \<open>What a library call reads from a \<open>char*\<close>.\<close>

definition c_string :: "string \<Rightarrow> string" where
  "c_string buf = takeWhile (\<lambda>b. b \<noteq> CHR 0x00) buf"

section \<open>Joined statements\<close>

fun semis :: "string list \<Rightarrow> string" where
  "semis [] = []"
| "semis [q] = q"
| "semis (q # qs) = q @ '';'' @ semis qs"

lemma c_string_text: "CHR 0x00 \<notin> set s \<Longrightarrow> c_string (s @ CHR 0x00 # t) = s"
  by (induction s) (auto simp: c_string_def)

lemma c_string_whole: "CHR 0x00 \<notin> set s \<Longrightarrow> c_string s = s"
  by (induction s) (auto simp: c_string_def)

lemma semis_chars: "set (semis qs) \<subseteq> \<Union> (set ` set qs) \<union> {CHR '';''}"
  by (induction qs rule: semis.induct) auto

lemma c_string_semis:
  "\<forall>q \<in> set qs. CHR 0x00 \<notin> set q \<Longrightarrow> c_string (semis qs @ [CHR 0x00]) = semis qs"
  using semis_chars [of qs] by (intro c_string_text) auto

lemma c_string_semis_tail:
  "\<forall>q \<in> set qs. CHR 0x00 \<notin> set q \<Longrightarrow> c_string (semis qs @ CHR 0x00 # t) = semis qs"
  using semis_chars [of qs] by (intro c_string_text) auto

section \<open>Formatted output\<close>

text \<open>\<open>%lu\<close> and \<open>snprintf(buf, n, ...)\<close>, which keeps \<open>n - 1\<close> characters.\<close>

definition digit :: "nat \<Rightarrow> char" where
  "digit d = char_of (48 + d)"

fun decimal :: "nat \<Rightarrow> string" where
  "decimal n = (if n < 10 then [digit n] else decimal (n div 10) @ [digit (n mod 10)])"

declare decimal.simps [simp del]

definition snprintf :: "nat \<Rightarrow> string \<Rightarrow> string" where
  "snprintf n s = take (n - 1) s"

text \<open>Reading it back.\<close>

definition undecimal :: "string \<Rightarrow> nat" where
  "undecimal s = foldl (\<lambda>n c. n * 10 + (of_char c - 48)) 0 s"

lemma undecimal_snoc: "undecimal (s @ [c]) = undecimal s * 10 + (of_char c - 48)"
  by (simp add: undecimal_def)

lemma of_char_digit: "d < 10 \<Longrightarrow> (of_char (digit d) :: nat) = 48 + d"
  by (simp add: digit_def)

lemma undecimal_decimal: "undecimal (decimal n) = n"
proof (induction n rule: decimal.induct)
  case (1 n)
  show ?case
  proof (cases "n < 10")
    case True
    then show ?thesis
      by (simp add: decimal.simps [of n] undecimal_def of_char_digit)
  next
    case False
    then have "undecimal (decimal n) = undecimal (decimal (n div 10)) * 10 + n mod 10"
      by (simp add: decimal.simps [of n] undecimal_snoc of_char_digit)
    with 1 False show ?thesis by simp
  qed
qed

lemma length_decimal: "n < 10 ^ k \<Longrightarrow> 0 < k \<Longrightarrow> length (decimal n) \<le> k"
proof (induction k arbitrary: n)
  case 0
  then show ?case by simp
next
  case (Suc k)
  show ?case
  proof (cases "n < 10")
    case True
    then show ?thesis by (simp add: decimal.simps [of n])
  next
    case False
    have "n div 10 < 10 ^ k"
      using Suc.prems(1) by (simp add: less_mult_imp_div_less mult.commute)
    moreover have "0 < k"
      using False Suc.prems(1) by (cases k) auto
    ultimately have "length (decimal (n div 10)) \<le> k"
      by (rule Suc.IH)
    with False show ?thesis by (simp add: decimal.simps [of n])
  qed
qed

section \<open>Numbers in bytes\<close>

text \<open>The number in some bytes, least significant first, and the digits it is read from.\<close>

fun le_nat :: "string \<Rightarrow> nat" where
  "le_nat [] = 0"
| "le_nat (b # bs) = of_char b + 256 * le_nat bs"

lemma le_nat_digits: "le_nat (map (\<lambda>i. char_of (n div 256 ^ i)) [0..<k]) = n mod 256 ^ k"
proof (induction k arbitrary: n)
  case 0
  then show ?case by simp
next
  case (Suc k)
  have "[0..<Suc k] = 0 # map Suc [0..<k]" by (simp add: upt_conv_Cons map_Suc_upt del: upt_Suc)
  moreover have "(\<lambda>i. char_of (n div 256 ^ Suc i)) = (\<lambda>i. char_of ((n div 256) div 256 ^ i) :: char)"
    by (simp add: div_mult2_eq)
  ultimately have "le_nat (map (\<lambda>i. char_of (n div 256 ^ i)) [0..<Suc k]) = n mod 256 + 256 * ((n div 256) mod 256 ^ k)"
    using Suc.IH [of "n div 256"] by (simp add: comp_def del: upt_Suc power_Suc)
  then show ?case by (simp add: mod_mult2_eq)
qed

end
