(* ===== verification/Pg_Worker.thy ===== *)
theory Pg_Worker
  imports Pg_Pool Driver_Machine C_Strings
begin

text \<open>
  The PostgreSQL worker thread, native_pool_worker.c: the send flush, the four ways to run a
  request, and one round of \<open>native_pool_worker_main\<close>. Every \<open>while (1)\<close> of the source
  takes a fuel argument, one unit per iteration; \<open>None\<close> means that the fuel ran out and the
  thread is still looping. \<open>Pg_Worker_Laws\<close> proves how much fuel is enough.

  \<open>PQsocket\<close> and the deadline are read once per request, as in the source. The
  \<open>struct timespec deadline\<close> is uninitialised, and unread, when there is no timeout.
\<close>

definition WORKER_PORT_OK :: int where "WORKER_PORT_OK = 1"
definition WORKER_PORT_ABORTED :: int where "WORKER_PORT_ABORTED = 2"

section \<open>Waiting for the socket\<close>

definition on_ext :: "('w \<Rightarrow> 'a \<times> 'w) \<Rightarrow> 'w mach \<Rightarrow> 'a \<times> 'w mach" where
  "on_ext f m = (let (r, w) = f (ext m) in (r, m\<lparr>ext := w\<rparr>))"

text \<open>\<open>atomic_load(&conn->shutdown_requested)\<close>\<close>

definition load_shutdown :: "('w, 'r) pg_env \<Rightarrow> 'r native_conn \<Rightarrow> nat \<Rightarrow> 'w \<Rightarrow> bool \<times> 'w" where
  "load_shutdown E c p w = (if shutdown_requested c then (True, w) else shutdown_meanwhile E p w)"

definition start_deadline :: "('w, 'r) pg_env \<Rightarrow> int \<Rightarrow> 'w \<Rightarrow> timespec \<times> 'w" where
  "start_deadline E timeout w =
     (if timeout > 0 then (let (now, w1) = clock_gettime E w in (compute_deadline now timeout, w1))
      else (\<lparr>tv_sec = 0, tv_nsec = 0\<rparr>, w))"

definition next_tv :: "('w, 'r) pg_env \<Rightarrow> bool \<Rightarrow> timespec \<Rightarrow> 'w \<Rightarrow> timeval option \<times> 'w" where
  "next_tv E has_deadline deadline w =
     (if has_deadline then
        (let (now, w1) = clock_gettime E w in (next_select_tv True deadline now, w1))
      else (next_select_tv False deadline deadline, w))"

text \<open>
  The block every loop repeats: the next timeout, then \<open>select\<close>. \<open>Io_again\<close>: EINTR or a
  poll tick; \<open>Io_ready b\<close>: \<open>b\<close> tells whether the socket is readable.
\<close>

datatype io = Io_expired | Io_failed | Io_again | Io_ready bool

definition wait_io ::
  "('w, 'r) pg_env \<Rightarrow> int \<Rightarrow> bool \<Rightarrow> bool \<Rightarrow> timespec \<Rightarrow> 'w \<Rightarrow> io \<times> 'w" where
  "wait_io E sock also_write has_deadline deadline w =
     (case next_tv E has_deadline deadline w of
        (None, w1) \<Rightarrow> (Io_expired, w1)
      | (Some tv, w1) \<Rightarrow>
          (case select_io E sock also_write tv w1 of
             (SelError eintr, w2) \<Rightarrow> (if eintr then Io_again else Io_failed, w2)
           | (SelTimeout, w2) \<Rightarrow> (Io_again, w2)
           | (SelReady readable, w2) \<Rightarrow> (Io_ready readable, w2)))"

fun flush_outgoing ::
  "nat \<Rightarrow> ('w, 'r) pg_env \<Rightarrow> 'r native_conn \<Rightarrow> nat \<Rightarrow> int \<Rightarrow> bool \<Rightarrow> timespec \<Rightarrow> 'w \<Rightarrow>
   (int \<times> 'w) option" where
  "flush_outgoing 0 E c p sock has_deadline deadline w = None"
| "flush_outgoing (Suc n) E c p sock has_deadline deadline w =
     (let (f, w1) = PQflush E p w in
      if f = 0 then Some (WORKER_PORT_OK, w1)
      else if f < 0 then Some (WORKER_PORT_ABORTED, w1)
      else (case load_shutdown E c p w1 of
          (True, w2) \<Rightarrow> Some (WORKER_PORT_ABORTED, pq_cancel E p w2)
        | (False, w2) \<Rightarrow>
            (case wait_io E sock True has_deadline deadline w2 of
               (Io_expired, w3) \<Rightarrow> Some (WORKER_PORT_ABORTED, pq_cancel E p w3)
             | (Io_failed, w3) \<Rightarrow> Some (WORKER_PORT_ABORTED, w3)
             | (Io_again, w3) \<Rightarrow> flush_outgoing n E c p sock has_deadline deadline w3
             | (Io_ready readable, w3) \<Rightarrow>
                 (if readable then
                    (let (k, w4) = PQconsumeInput E p w3 in
                     if k = 0 then Some (WORKER_PORT_ABORTED, w4)
                     else flush_outgoing n E c p sock has_deadline deadline w4)
                  else flush_outgoing n E c p sock has_deadline deadline w3))))"

section \<open>One statement\<close>

text \<open>The loop that waits for the result, the same in both single paths.\<close>

fun await_result ::
  "nat \<Rightarrow> ('w, 'r) pg_env \<Rightarrow> 'r native_conn \<Rightarrow> nat \<Rightarrow> int \<Rightarrow> bool \<Rightarrow> timespec \<Rightarrow> 'w \<Rightarrow>
   (int \<times> 'w) option" where
  "await_result 0 E c p sock has_deadline deadline w = None"
| "await_result (Suc n) E c p sock has_deadline deadline w =
     (case load_shutdown E c p w of
        (True, w1) \<Rightarrow> Some (WORKER_PORT_ABORTED, pq_cancel E p w1)
      | (False, w1) \<Rightarrow>
          (case wait_io E sock False has_deadline deadline w1 of
             (Io_expired, w2) \<Rightarrow> Some (WORKER_PORT_ABORTED, pq_cancel E p w2)
           | (Io_failed, w2) \<Rightarrow> Some (WORKER_PORT_ABORTED, w2)
           | (Io_again, w2) \<Rightarrow> await_result n E c p sock has_deadline deadline w2
           | (Io_ready _, w2) \<Rightarrow>
               (let (k, w3) = PQconsumeInput E p w2 in
                if k = 0 then Some (WORKER_PORT_ABORTED, w3)
                else (let (busy, w4) = PQisBusy E p w3 in
                      if \<not> busy then Some (WORKER_PORT_OK, w4)
                      else await_result n E c p sock has_deadline deadline w4))))"

text \<open>Deadline, flush and wait: what follows a successful send in both single paths.\<close>

definition finish_single ::
  "nat \<Rightarrow> ('w, 'r) pg_env \<Rightarrow> 'r native_conn \<Rightarrow> nat \<Rightarrow> int \<Rightarrow> int \<Rightarrow> 'w \<Rightarrow> (int \<times> 'w) option" where
  "finish_single fuel E c p sock timeout w =
     (let has_deadline = timeout > 0;
          (deadline, w1) = start_deadline E timeout w
      in case flush_outgoing fuel E c p sock has_deadline deadline w1 of
           None \<Rightarrow> None
         | Some (st, w2) \<Rightarrow>
             (if st \<noteq> WORKER_PORT_OK then Some (WORKER_PORT_ABORTED, w2)
              else await_result fuel E c p sock has_deadline deadline w2))"

definition execute_single ::
  "nat \<Rightarrow> ('w, 'r) pg_env \<Rightarrow> 'r native_conn \<Rightarrow> nat \<Rightarrow> string \<Rightarrow> int \<Rightarrow> 'w \<Rightarrow> (int \<times> 'w) option" where
  "execute_single fuel E c p q timeout w =
     (let sock = PQsocket E p w in
      if sock < 0 then Some (WORKER_PORT_ABORTED, w)
      else (let (k, w1) = PQsendQuery E p q w in
            if k \<noteq> 1 then Some (WORKER_PORT_ABORTED, w1)
            else finish_single fuel E c p sock timeout w1))"

text \<open>\<open>(Oid* )param_types\<close>: the same 32 bits, read unsigned.\<close>

definition oid_cast :: "int \<Rightarrow> int" where
  "oid_cast t = t mod 2 ^ 32"

definition execute_single_params ::
  "nat \<Rightarrow> ('w, 'r) pg_env \<Rightarrow> 'r native_conn \<Rightarrow> nat \<Rightarrow> string \<Rightarrow> pg_params \<Rightarrow> int \<Rightarrow> 'w \<Rightarrow>
   (int \<times> 'w) option" where
  "execute_single_params fuel E c p q ps timeout w =
     (let sock = PQsocket E p w in
      if sock < 0 then Some (WORKER_PORT_ABORTED, w)
      else (let types_oid = (if par_n ps > 0 then map_option (map oid_cast) (par_types ps) else None);
                (k, w1) = PQsendQueryParams E p q (ps\<lparr>par_types := types_oid\<rparr>) w
            in if k \<noteq> 1 then Some (WORKER_PORT_ABORTED, w1)
               else finish_single fuel E c p sock timeout w1))"

section \<open>Pipeline\<close>

definition no_params :: pg_params where
  "no_params = \<lparr>par_n = 0, par_types = None, par_values = None, par_lengths = None,
     par_formats = None, par_result_format = 0\<rparr>"

fun send_all :: "('w, 'r) pg_env \<Rightarrow> nat \<Rightarrow> string list \<Rightarrow> 'w \<Rightarrow> bool \<times> 'w" where
  "send_all E p [] w = (True, w)"
| "send_all E p (q # qs) w =
     (let (k, w1) = PQsendQueryParams E p q no_params w in
      if k \<noteq> 1 then (False, w1) else send_all E p qs w1)"

text \<open>The drain loop: it stops when \<open>remaining\<close> results have been cleared.\<close>

fun pipeline_drain ::
  "nat \<Rightarrow> ('w, 'r) pg_env \<Rightarrow> 'r native_conn \<Rightarrow> nat \<Rightarrow> int \<Rightarrow> bool \<Rightarrow> timespec \<Rightarrow> int \<Rightarrow> 'w mach \<Rightarrow>
   (int \<times> 'w mach) option" where
  "pipeline_drain 0 E c p sock has_deadline deadline remaining m =
     (if remaining \<le> 0 then Some (WORKER_PORT_OK, m) else None)"
| "pipeline_drain (Suc n) E c p sock has_deadline deadline remaining m =
     (if remaining \<le> 0 then Some (WORKER_PORT_OK, m)
      else (case on_ext (load_shutdown E c p) m of
          (True, m1) \<Rightarrow> Some (WORKER_PORT_ABORTED, m1\<lparr>ext := pq_cancel E p (ext m1)\<rparr>)
        | (False, m1) \<Rightarrow>
            (case on_ext (PQisBusy E p) m1 of
               (True, m2) \<Rightarrow>
                 (case on_ext (wait_io E sock False has_deadline deadline) m2 of
                    (Io_expired, m3) \<Rightarrow>
                      Some (WORKER_PORT_ABORTED, m3\<lparr>ext := pq_cancel E p (ext m3)\<rparr>)
                  | (Io_failed, m3) \<Rightarrow> Some (WORKER_PORT_ABORTED, m3)
                  | (Io_again, m3) \<Rightarrow>
                      pipeline_drain n E c p sock has_deadline deadline remaining m3
                  | (Io_ready _, m3) \<Rightarrow>
                      (let (k, m4) = on_ext (PQconsumeInput E p) m3 in
                       if k = 0 then Some (WORKER_PORT_ABORTED, m4)
                       else pipeline_drain n E c p sock has_deadline deadline remaining m4))
             | (False, m2) \<Rightarrow>
                 (case pq_getResult E p m2 of
                    (Some r, m3) \<Rightarrow>
                      pipeline_drain n E c p sock has_deadline deadline (remaining - 1) (pq_clear r m3)
                  | (None, m3) \<Rightarrow>
                      pipeline_drain n E c p sock has_deadline deadline remaining m3))))"

text \<open>The closing ROLLBACK of a transaction the batch left in error.\<close>

definition rollback_if_inerror :: "('w, 'r) pg_env \<Rightarrow> nat \<Rightarrow> 'w mach \<Rightarrow> 'w mach" where
  "rollback_if_inerror E p m =
     (if PQtrans_inerror E p (ext m) then
        (case pq_exec E p ''ROLLBACK'' m of
           (Some r, m1) \<Rightarrow> pq_clear r m1
         | (None, m1) \<Rightarrow> m1)
      else m)"

definition exit_pipeline :: "('w, 'r) pg_env \<Rightarrow> nat \<Rightarrow> 'w mach \<Rightarrow> 'w mach" where
  "exit_pipeline E p m = snd (on_ext (PQexitPipelineMode E p) m)"

definition execute_pipeline ::
  "nat \<Rightarrow> ('w, 'r) pg_env \<Rightarrow> 'r native_conn \<Rightarrow> nat \<Rightarrow> string list \<Rightarrow> int \<Rightarrow> int \<Rightarrow> 'w mach \<Rightarrow>
   (int \<times> 'w mach) option" where
  "execute_pipeline fuel E c p queries query_count timeout m =
     (let sock = PQsocket E p (ext m) in
      if sock < 0 then Some (WORKER_PORT_ABORTED, m)
      else let (k, m1) = on_ext (PQenterPipelineMode E p) m in
        if k = 0 then Some (WORKER_PORT_ABORTED, m1)
        else let (qs, m2) = read_array (nat query_count) queries m1;
                 (sent, m3) = on_ext (send_all E p qs) m2 in
          if \<not> sent then Some (WORKER_PORT_ABORTED, exit_pipeline E p m3)
          else let (k, m4) = on_ext (PQpipelineSync E p) m3 in
            if k = 0 then Some (WORKER_PORT_ABORTED, exit_pipeline E p m4)
            else let has_deadline = timeout > 0;
                     (deadline, m5) = on_ext (start_deadline E timeout) m4 in
              (case flush_outgoing fuel E c p sock has_deadline deadline (ext m5) of
                 None \<Rightarrow> None
               | Some (st, w) \<Rightarrow>
                   (let m6 = m5\<lparr>ext := w\<rparr> in
                    if st \<noteq> WORKER_PORT_OK then Some (WORKER_PORT_ABORTED, exit_pipeline E p m6)
                    else (case pipeline_drain fuel E c p sock has_deadline deadline
                                 (query_count + 1) m6 of
                        None \<Rightarrow> None
                      | Some (status, m7) \<Rightarrow>
                          Some (status, rollback_if_inerror E p (exit_pipeline E p m7))))))"

section \<open>Several reads in one round trip\<close>

text \<open>
  \<open>join_with_semicolons\<close>: the size loop, then the copy loop through \<open>char *p\<close> into a block
  of that size. A write past the block is a fault. \<open>malloc\<close> does not clear the block; its
  first content here is some fixed byte.
\<close>

fun join_size :: "nat \<Rightarrow> string list \<Rightarrow> nat \<Rightarrow> nat" where
  "join_size i [] n = n"
| "join_size i (q # qs) n =
     join_size (Suc i) qs (n + length q + (if i > 0 then 1 else 0))"

fun join_copy :: "nat \<Rightarrow> string list \<Rightarrow> nat \<Rightarrow> string \<Rightarrow> 'w mach \<Rightarrow> nat \<times> string \<times> 'w mach" where
  "join_copy i [] p buf m = (p, buf, m)"
| "join_copy i (q # qs) p buf m =
     (let (p1, buf1, m1) =
            (if i > 0 then (let (b, m1) = write_bytes p '';'' buf m in (p + 1, b, m1)) else (p, buf, m));
          (buf2, m2) = write_bytes p1 q buf1 m1
      in join_copy (Suc i) qs (p1 + length q) buf2 m2)"

definition join_with_semicolons :: "string list \<Rightarrow> 'w mach \<Rightarrow> string cell option \<times> 'w mach" where
  "join_with_semicolons qs m =
     (let block = join_size 0 qs 1 in
      case halloc () m of
        (None, m1) \<Rightarrow> (None, m1)
      | (Some blk, m1) \<Rightarrow>
          (let (p, buf, m2) = join_copy 0 qs 0 (replicate block (CHR 0xCC)) m1;
               (buf1, m3) = write_bytes p [CHR 0x00] buf m2
           in (Some (Cell (addr blk) buf1), m3)))"

definition abort_chain :: "'r native_conn \<Rightarrow> 'w mach \<Rightarrow> (int \<times> 'r native_conn \<times> 'w mach) option" where
  "abort_chain c m =
     (let (c1, m1) = native_pool_free_result_chain c m in Some (WORKER_PORT_ABORTED, c1, m1))"

fun multi_drain ::
  "nat \<Rightarrow> ('w, 'r) pg_env \<Rightarrow> nat \<Rightarrow> int \<Rightarrow> bool \<Rightarrow> timespec \<Rightarrow> 'r native_conn \<Rightarrow> 'w mach \<Rightarrow>
   (int \<times> 'r native_conn \<times> 'w mach) option" where
  "multi_drain 0 E p sock has_deadline deadline c m = None"
| "multi_drain (Suc n) E p sock has_deadline deadline c m =
     (case on_ext (load_shutdown E c p) m of
        (True, m1) \<Rightarrow> abort_chain c (m1\<lparr>ext := pq_cancel E p (ext m1)\<rparr>)
      | (False, m1) \<Rightarrow>
          (case on_ext (PQisBusy E p) m1 of
             (True, m2) \<Rightarrow>
               (case on_ext (wait_io E sock False has_deadline deadline) m2 of
                  (Io_expired, m3) \<Rightarrow> abort_chain c (m3\<lparr>ext := pq_cancel E p (ext m3)\<rparr>)
                | (Io_failed, m3) \<Rightarrow> abort_chain c m3
                | (Io_again, m3) \<Rightarrow> multi_drain n E p sock has_deadline deadline c m3
                | (Io_ready _, m3) \<Rightarrow>
                    (let (k, m4) = on_ext (PQconsumeInput E p) m3 in
                     if k = 0 then abort_chain c m4
                     else multi_drain n E p sock has_deadline deadline c m4))
           | (False, m2) \<Rightarrow>
               (case pq_getResult E p m2 of
                  (None, m3) \<Rightarrow> Some (WORKER_PORT_OK, c, m3)
                | (Some r, m3) \<Rightarrow>
                    (case native_pool_chain_append c r m3 of
                       (k, c1, m4) \<Rightarrow>
                         (if k = 0 then abort_chain c1 (pq_clear r m4)
                          else multi_drain n E p sock has_deadline deadline c1 m4)))))"

definition execute_multi_read ::
  "nat \<Rightarrow> ('w, 'r) pg_env \<Rightarrow> 'r native_conn \<Rightarrow> nat \<Rightarrow> string list \<Rightarrow> int \<Rightarrow> int \<Rightarrow> 'w mach \<Rightarrow>
   (int \<times> 'r native_conn \<times> 'w mach) option" where
  "execute_multi_read fuel E conn p queries count timeout m =
     (let sock = PQsocket E p (ext m) in
      if sock < 0 then Some (WORKER_PORT_ABORTED, conn, m)
      else let (c, m1) = native_pool_free_result_chain conn m;
               (qs, m2) = read_array (nat count) queries m1 in
        (case join_with_semicolons qs m2 of
           (None, m3) \<Rightarrow> Some (WORKER_PORT_ABORTED, c, m3)
         | (Some joined, m3) \<Rightarrow>
             (let (rc_send, m4) = on_ext (PQsendQuery E p (c_string (contents joined))) m3;
                  m5 = rfree (addr joined) m4
              in if rc_send \<noteq> 1 then Some (WORKER_PORT_ABORTED, c, m5)
                 else let has_deadline = timeout > 0;
                          (deadline, m6) = on_ext (start_deadline E timeout) m5 in
                   (case flush_outgoing fuel E c p sock has_deadline deadline (ext m6) of
                      None \<Rightarrow> None
                    | Some (st, w) \<Rightarrow>
                        (if st \<noteq> WORKER_PORT_OK then abort_chain c (m6\<lparr>ext := w\<rparr>)
                         else multi_drain fuel E p sock has_deadline deadline c (m6\<lparr>ext := w\<rparr>))))))"

section \<open>One round of the worker\<close>

text \<open>\<open>sql[0]\<close>; reading it from an empty array is a fault.\<close>

definition first_sql :: "'r native_conn \<Rightarrow> 'w mach \<Rightarrow> string \<times> 'w mach" where
  "first_sql c m = (case slot_sql c of [] \<Rightarrow> ([], m\<lparr>fault := True\<rparr>) | q # _ \<Rightarrow> (q, m))"

definition lift_ext ::
  "'r native_conn \<Rightarrow> 'w mach \<Rightarrow> (int \<times> 'w) option \<Rightarrow> (int \<times> 'r native_conn \<times> 'w mach) option" where
  "lift_ext c m r = (case r of None \<Rightarrow> None | Some (st, w) \<Rightarrow> Some (st, c, m\<lparr>ext := w\<rparr>))"

text \<open>Step 2 of the loop, on the fields snapshotted under the slot mutex.\<close>

definition worker_execute ::
  "nat \<Rightarrow> ('w, 'r) pg_env \<Rightarrow> nat \<Rightarrow> 'r native_conn \<Rightarrow> 'w mach \<Rightarrow> (int \<times> 'r native_conn \<times> 'w mach) option"
where
  "worker_execute fuel E p c m =
     (if is_params c then
        (let (q, m1) = first_sql c m
         in lift_ext c m1 (execute_single_params fuel E c p q (slot_params c) (timeout_ms c) (ext m1)))
      else if is_multi_read c then
        execute_multi_read fuel E c p (slot_sql c) (sql_count c) (timeout_ms c) m
      else if is_pipeline c then
        (case execute_pipeline fuel E c p (slot_sql c) (sql_count c) (timeout_ms c) m of
           None \<Rightarrow> None
         | Some (st, m1) \<Rightarrow> Some (st, c, m1))
      else
        (let (q, m1) = first_sql c m
         in lift_ext c m1 (execute_single fuel E c p q (timeout_ms c) (ext m1))))"

text \<open>Step 3: the slot is cleared under its mutex, before the notification.\<close>

definition worker_clear :: "'r native_conn \<Rightarrow> 'w mach \<Rightarrow> 'r native_conn \<times> 'w mach" where
  "worker_clear c m =
     (let m1 = mutex_lock (slot_mutex c) m;
          (c1, m2) = native_pool_free_slot_payload c m1
      in (c1\<lparr>slot_filled := False\<rparr>, mutex_unlock (slot_mutex c) (cond_signal (slot_cond c) m2)))"

text \<open>A whole round: the message posted (port and status), and the state after it.\<close>

definition worker_round ::
  "nat \<Rightarrow> ('w, 'r) pg_env \<Rightarrow> 'r native_conn \<Rightarrow> 'w mach \<Rightarrow>
   ((int \<times> int) \<times> 'r native_conn \<times> 'w mach) option" where
  "worker_round fuel E c m =
     (let p = the (pg c);
          m1 = mutex_unlock (slot_mutex c) (mutex_lock (slot_mutex c) m)
      in case worker_execute fuel E p c m1 of
           None \<Rightarrow> None
         | Some (status, c1, m2) \<Rightarrow>
             (let (c2, m3) = worker_clear c1 m2 in Some ((port_id c, status), c2, m3)))"

text \<open>
  What is left of \<open>native_pool_worker_main\<close> once shutdown has been requested: a request
  still in the slot is served, then the thread returns. It is the \<open>W\<close> of the pool.
\<close>

definition native_pool_worker_end :: "('w, 'r) pg_env \<Rightarrow> ('w, 'r) worker_end" where
  "native_pool_worker_end E c m =
     (case worker_choose (slot_filled c) (shutdown_requested c) of
        Serve \<Rightarrow>
          (case worker_round 1 E c m of
             Some (_, c1, m1) \<Rightarrow> (c1, m1)
           | None \<Rightarrow> (c, m))
      | _ \<Rightarrow> (c, m))"

end
