(* ===== verification/Pg_Pool_Laws.thy ===== *)
theory Pg_Pool_Laws
  imports Pg_Pool
begin

text \<open>
  What holds of the PostgreSQL pool: the free list leases each connection to one holder
  (the interpretation of \<open>lease_pool\<close>), \<open>pool_acquire\<close>'s timeout rules, and the ledger
  across creation, rollback and destruction: nothing leaks and nothing is freed twice.
\<close>

section \<open>The free list\<close>

interpretation pg_array: conn_array max_size conns in_use set_in_use try_acquire
  by unfold_locales (auto simp: set_in_use_def try_acquire_def nth_list_update)

abbreviation pg_capacity :: "'r native_pool \<Rightarrow> nat" where
  "pg_capacity \<equiv> array_capacity max_size conns"

abbreviation pg_leased :: "'r native_pool \<Rightarrow> nat set" where
  "pg_leased \<equiv> array_leased max_size conns in_use"

section \<open>Ownership\<close>

text \<open>Everything one connection owns: its four handles, the slot payload, the result chain.\<close>

definition handle_ids :: "'r native_conn \<Rightarrow> nat list" where
  "handle_ids c = [the (pg c), slot_mutex c, slot_cond c, worker c]"

definition conn_ids :: "'r native_conn \<Rightarrow> nat list \<Rightarrow> nat list" where
  "conn_ids c as = handle_ids c @ slot_ids c @ chain_ids c as"

definition conn_owned :: "'r native_conn \<Rightarrow> nat list \<Rightarrow> 'w mach \<Rightarrow> bool" where
  "conn_owned c as m \<longleftrightarrow>
     pg c \<noteq> None \<and> slot_inv c \<and> chain_inv c as \<and> distinct (conn_ids c as) \<and>
     set (conn_ids c as) \<subseteq> live m"

lemma zero_conn_empty: "clean_slot zero_conn" "chain_inv zero_conn []"
  by (simp_all add: zero_conn_def clean_slot_def chain_inv_empty)

text \<open>\<open>init_conn\<close>: a connection with four handles, or nothing at all.\<close>

lemma acquired_pq_finish [simp]: "acquired m xs (pq_finish E p m') = acquired m xs (rfree p m')"
  by (simp add: pq_finish_def rfree_ext_update)

text \<open>An open handle, then up to three more resources, given back in some order.\<close>

lemma give_back:
  assumes "ledger_ok m" "acquired m xs m1" "acquired m1 [] m2" "distinct ys" "set ys = set xs"
  shows "acquired m [] (free_all ys m2)"
  using acquired_free_every [OF assms(1), of xs m2 ys] acquired_trans [OF assms(2,3)] assms(4,5) by simp

lemma init_conn_cases:
  assumes ok: "ledger_ok m" and res: "init_conn E conn i ci m = (r, c, m')"
  shows "(r = -1 \<and> acquired m [] m') \<or>
    (r = 0 \<and> pg c \<noteq> None \<and> acquired m (handle_ids c) m' \<and> clean_slot c \<and> \<not> slot_filled c \<and>
     chain_inv c [] \<and> \<not> in_use c \<and> \<not> shutdown_requested c \<and> index c = i)"
proof -
  obtain p m1 where p: "pq_connect E ci m = (p, m1)" by (cases "pq_connect E ci m")
  let ?m2 = "m1\<lparr>ext := PQsetnonblocking E p (ext m1)\<rparr>"
  obtain x m3 where x: "halloc () ?m2 = (x, m3)" by (cases "halloc () ?m2")
  obtain y m4 where y: "halloc () m3 = (y, m4)" by (cases "halloc () m3")
  obtain z m5 where z: "halloc () m4 = (z, m5)" by (cases "halloc () m4")
  have x1: "acquired m1 (opt_ids x) m3"
    using halloc_opt [OF x] by simp
  note a1 = pq_connect_acquired [OF p]
  note a3 = acquired_trans [OF a1 x1]
  note a4 = acquired_trans [OF a3 halloc_opt [OF y]]
  note a5 = acquired_trans [OF a4 halloc_opt [OF z]]
  consider (down) "\<not> PQstatus_ok E p (ext m1)" | (mu) "PQstatus_ok E p (ext m1)" "x = None"
    | (cv) mu where "PQstatus_ok E p (ext m1)" "x = Some mu" "y = None"
    | (th) mu cv where "PQstatus_ok E p (ext m1)" "x = Some mu" "y = Some cv" "z = None"
    | (up) mu cv th where "PQstatus_ok E p (ext m1)" "x = Some mu" "y = Some cv" "z = Some th"
    by blast
  then show ?thesis
  proof cases
    case down
    then show ?thesis
      using res p give_back [OF ok a1 acquired_refl, of "[p]"] by (auto simp: init_conn_def Let_def)
  next
    case mu
    then show ?thesis
      using res p x give_back [OF ok a3 acquired_refl, of "[p]"] by (auto simp: init_conn_def Let_def)
  next
    case cv
    then have "distinct [addr mu, p]" using a4 by (auto simp: acquired_def)
    with cv show ?thesis
      using res p x y give_back [OF ok a4 acquired_refl, of "[addr mu, p]"]
      by (auto simp: init_conn_def Let_def insert_commute)
  next
    case th
    then have "distinct [addr cv, addr mu, p]" using a5 by (auto simp: acquired_def)
    with th show ?thesis
      using res p x y z give_back [OF ok a5 acquired_refl, of "[addr cv, addr mu, p]"]
      by (auto simp: init_conn_def Let_def insert_commute)
  next
    case up
    then show ?thesis
      using res p x y z a5
      by (auto simp: init_conn_def Let_def handle_ids_def clean_slot_def chain_inv_empty)
  qed
qed

section \<open>Taking a connection down\<close>

text \<open>
  What is assumed of the end of a worker's run: it keeps the connection well-formed and
  leaves no resource behind. \<open>Pg_Machine\<close> proves that the modelled worker is one.
\<close>

definition worker_end_ok :: "('w, 'r) worker_end \<Rightarrow> bool" where
  "worker_end_ok W \<longleftrightarrow>
     (\<forall>c m as. ledger_ok m \<longrightarrow> held m = {} \<longrightarrow> conn_owned c as m \<longrightarrow>
        shutdown_requested c \<longrightarrow>
        (\<exists>c' m' as'. W c m = (c', m') \<and> conn_owned c' as' m' \<and> ledger_ok m' \<and>
           handle_ids c' = handle_ids c \<and>
           live m' - set (conn_ids c' as') = live m - set (conn_ids c as) \<and>
           held m' = held m \<and> fault m' = fault m \<and> fresh m \<le> fresh m'))"

lemma free_slot_payload_frame:
  "native_pool_free_slot_payload c m = (c', m') \<Longrightarrow>
   chain_store c' = chain_store c \<and> chain_head c' = chain_head c \<and> chain_tail c' = chain_tail c"
  by (auto simp: native_pool_free_slot_payload_def Let_def)

lemma chain_frame:
  assumes "chain_store c' = chain_store c" "chain_head c' = chain_head c" "chain_tail c' = chain_tail c"
  shows "chain_inv c' as = chain_inv c as" "chain_ids c' as = chain_ids c as" "node_cell c' a = node_cell c a"
proof -
  show n: "node_cell c' a = node_cell c a" for a
    using assms by (simp add: node_cell_def)
  show "chain_inv c' as = chain_inv c as"
    using assms by (simp add: chain_inv_def)
  show "chain_ids c' as = chain_ids c as"
    by (simp add: chain_ids_def n)
qed

lemma pq_finish_released: "p \<in> live m \<Longrightarrow> released m {p} (pq_finish E p m)"
  using rfree_released [of p m] by (simp add: pq_finish_def rfree_ext_update)

lemma teardown_released:
  assumes ok: "ledger_ok m" and nolock: "held m = {}" and own: "conn_owned c as m"
    and stop: "shutdown_requested c" and W: "worker_end_ok W"
  shows "released m (set (conn_ids c as)) (snd (teardown_conn E W c m))"
proof -
  from W ok nolock own stop obtain c1 m1 as1 where w: "W c m = (c1, m1)" and own1: "conn_owned c1 as1 m1"
    and h: "handle_ids c1 = handle_ids c"
    and l1: "live m1 - set (conn_ids c1 as1) = live m - set (conn_ids c as)"
    and fr: "held m1 = held m" "fault m1 = fault m" "fresh m \<le> fresh m1"
    unfolding worker_end_ok_def by blast
  from own obtain p where p: "pg c = Some p"
    by (auto simp: conn_owned_def)
  let ?m2 = "rfree (worker c) m1"
  have "slot_inv c1" "chain_inv c1 as1"
    using own1 by (simp_all add: conn_owned_def)
  then obtain c3 where c3: "native_pool_free_slot_payload c1 ?m2 = (c3, free_all (slot_ids c1) ?m2)"
    using free_slot_payload_eq by blast
  note cf = chain_frame [OF free_slot_payload_frame [OF c3, THEN conjunct1]
    free_slot_payload_frame [OF c3, THEN conjunct2, THEN conjunct1]
    free_slot_payload_frame [OF c3, THEN conjunct2, THEN conjunct2]]
  let ?ids = "[worker c] @ slot_ids c1 @ chain_ids c1 as1 @ [slot_cond c, slot_mutex c]"
  have end_eq: "snd (teardown_conn E W c m) = pq_finish E p (free_all ?ids m1)"
    using p w c3 free_result_chain_eq [of c3 as1 "free_all (slot_ids c1) ?m2"] \<open>chain_inv c1 as1\<close>
    by (simp add: teardown_conn_def Let_def cf free_all_append split: prod.splits)
  have d: "distinct (?ids @ [p])" and s: "set (?ids @ [p]) = set (conn_ids c1 as1)"
    using own1 h p by (auto simp: conn_owned_def conn_ids_def handle_ids_def)
  have sub: "set (?ids @ [p]) \<subseteq> live m1"
    using own1 s by (simp add: conn_owned_def)
  have "released m1 (set ?ids) (free_all ?ids m1)"
    using d sub by (intro free_all_released) auto
  moreover from this have "released (free_all ?ids m1) {p} (pq_finish E p (free_all ?ids m1))"
    using d sub by (intro pq_finish_released) (auto simp: released_def)
  ultimately have "released m1 (set ?ids \<union> {p}) (pq_finish E p (free_all ?ids m1))"
    by (rule released_trans)
  moreover have "set ?ids \<union> {p} = set (?ids @ [p])"
    by (simp only: set_append list.set Un_empty_right)
  ultimately have "released m1 (set (?ids @ [p])) (snd (teardown_conn E W c m))"
    unfolding end_eq by metis
  then show ?thesis
    using l1 fr s by (simp add: released_def)
qed

subsection \<open>Lists of connections\<close>

fun conns_ids :: "'r native_conn list \<Rightarrow> nat list list \<Rightarrow> nat set" where
  "conns_ids (c # cs) (as # ass) = set (conn_ids c as) \<union> conns_ids cs ass"
| "conns_ids _ _ = {}"

fun conns_owned :: "'r native_conn list \<Rightarrow> nat list list \<Rightarrow> 'w mach \<Rightarrow> bool" where
  "conns_owned (c # cs) (as # ass) m =
     (conn_owned c as m \<and> set (conn_ids c as) \<inter> conns_ids cs ass = {} \<and> conns_owned cs ass m)"
| "conns_owned cs ass m = (cs = [] \<and> ass = [])"

lemma conns_owned_live: "conns_owned cs ass m \<Longrightarrow> conns_ids cs ass \<subseteq> live m"
  by (induction cs ass m rule: conns_owned.induct) (auto simp: conn_owned_def)

lemma conn_owned_released:
  "conn_owned c as m \<Longrightarrow> released m X m' \<Longrightarrow> X \<inter> set (conn_ids c as) = {} \<Longrightarrow> conn_owned c as m'"
  by (auto simp: conn_owned_def released_def)

lemma conns_owned_released:
  "conns_owned cs ass m \<Longrightarrow> released m X m' \<Longrightarrow> X \<inter> conns_ids cs ass = {} \<Longrightarrow> conns_owned cs ass m'"
  by (induction cs ass m rule: conns_owned.induct) (auto simp: conn_owned_def released_def)

lemma conns_owned_Cons:
  "conns_owned (c # cs) ass m \<longleftrightarrow>
   (\<exists>as ass'. ass = as # ass' \<and> conn_owned c as m \<and> set (conn_ids c as) \<inter> conns_ids cs ass' = {} \<and>
     conns_owned cs ass' m)"
  by (cases ass) auto

lemma teardown_conns_released:
  assumes W: "worker_end_ok W"
  shows "ledger_ok m \<Longrightarrow> held m = {} \<Longrightarrow> conns_owned cs ass m \<Longrightarrow>
    (\<forall>c \<in> set cs. shutdown_requested c) \<Longrightarrow>
    released m (conns_ids cs ass) (teardown_conns E W cs m)"
proof (induction cs arbitrary: ass m)
  case Nil
  then show ?case by simp
next
  case (Cons c cs)
  then obtain as ass' where ass: "ass = as # ass'" and own: "conn_owned c as m"
    and dis: "set (conn_ids c as) \<inter> conns_ids cs ass' = {}" and rest: "conns_owned cs ass' m"
    by (auto simp: conns_owned_Cons)
  let ?m1 = "snd (teardown_conn E W c m)"
  have r: "released m (set (conn_ids c as)) ?m1"
    using teardown_released [OF Cons.prems(1,2) own _ W, of E] Cons.prems(4) by simp
  have "held ?m1 = {}"
    using r Cons.prems(2) by (simp add: released_def)
  then have "released ?m1 (conns_ids cs ass') (teardown_conns E W cs ?m1)"
    using Cons.IH released_ledger_ok [OF Cons.prems(1) r] conns_owned_released [OF rest r dis]
      Cons.prems(4) by simp
  then show ?case
    using released_trans [OF r] by (simp add: ass)
qed

lemma shutdown_owned [simp]:
  "conn_owned (c\<lparr>shutdown_requested := b\<rparr>) as m = conn_owned c as m"
  "conn_ids (c\<lparr>shutdown_requested := b\<rparr>) as = conn_ids c as"
proof -
  have f: "chain_inv (c\<lparr>shutdown_requested := b\<rparr>) as = chain_inv c as"
    "chain_ids (c\<lparr>shutdown_requested := b\<rparr>) as = chain_ids c as"
    by (simp_all add: chain_frame [of "c\<lparr>shutdown_requested := b\<rparr>" c])
  then show ids: "conn_ids (c\<lparr>shutdown_requested := b\<rparr>) as = conn_ids c as"
    by (simp add: conn_ids_def handle_ids_def slot_ids_def)
  have "slot_inv (c\<lparr>shutdown_requested := b\<rparr>) = slot_inv c"
    by (simp add: slot_inv_def full_slot_def clean_slot_def split: option.split)
  with f ids show "conn_owned (c\<lparr>shutdown_requested := b\<rparr>) as m = conn_owned c as m"
    by (simp add: conn_owned_def)
qed

lemma signal_shutdown_released: "held m = {} \<Longrightarrow> released m {} (signal_shutdown c m)"
  by (simp add: signal_shutdown_def lock_signal_unlock)

lemma rollback_conns_released:
  assumes W: "worker_end_ok W"
  shows "ledger_ok m \<Longrightarrow> held m = {} \<Longrightarrow> conns_owned cs ass m \<Longrightarrow>
    released m (conns_ids cs ass) (rollback_conns E W cs m)"
proof (induction cs arbitrary: ass m)
  case Nil
  then show ?case by simp
next
  case (Cons c cs)
  then obtain as ass' where ass: "ass = as # ass'" and own: "conn_owned c as m"
    and dis: "set (conn_ids c as) \<inter> conns_ids cs ass' = {}" and rest: "conns_owned cs ass' m"
    by (auto simp: conns_owned_Cons)
  let ?c = "c\<lparr>shutdown_requested := True\<rparr>"
  let ?m0 = "signal_shutdown ?c m"
  let ?m1 = "snd (teardown_conn E W ?c ?m0)"
  note r0 = signal_shutdown_released [OF Cons.prems(2), of ?c]
  have "conn_owned ?c as ?m0"
    using conn_owned_released [of ?c as m "{}" ?m0] own r0 by simp
  moreover have "held ?m0 = {}"
    using r0 Cons.prems(2) by (simp add: released_def)
  ultimately have "released ?m0 (set (conn_ids c as)) ?m1"
    using teardown_released [OF released_ledger_ok [OF Cons.prems(1) r0] _ _ _ W, of ?c as E] by simp
  then have r: "released m (set (conn_ids c as)) ?m1"
    using released_trans [OF r0] by simp
  then have "held ?m1 = {}"
    using Cons.prems(2) by (simp add: released_def)
  then have "released ?m1 (conns_ids cs ass') (rollback_conns E W cs ?m1)"
    using Cons.IH released_ledger_ok [OF Cons.prems(1) r] conns_owned_released [OF rest r dis] by blast
  then show ?case
    using released_trans [OF r] by (simp add: ass Let_def)
qed

lemma stop_conns_eq:
  "held m = {} \<Longrightarrow> \<exists>m'. stop_conns E cs m = (map (\<lambda>c. c\<lparr>shutdown_requested := True\<rparr>) cs, m') \<and>
     released m {} m'"
proof (induction cs arbitrary: m)
  case Nil
  then show ?case by simp
next
  case (Cons c cs)
  let ?c = "c\<lparr>shutdown_requested := True\<rparr>"
  have r0: "released m {} (pool_cancel E (Some ?c) m)"
    by (auto simp: pool_cancel_def split: option.splits)
  then have r1: "released m {} (signal_shutdown ?c (pool_cancel E (Some ?c) m))"
    using released_trans [OF r0 signal_shutdown_released [of _ ?c]] Cons.prems by (simp add: released_def)
  then have "held (signal_shutdown ?c (pool_cancel E (Some ?c) m)) = {}"
    using Cons.prems by (simp add: released_def)
  with Cons.IH released_trans [OF r1] show ?case
    by (fastforce simp: Let_def)
qed

lemma stopped_ids [simp]:
  "conns_ids (map (\<lambda>c. c\<lparr>shutdown_requested := True\<rparr>) cs) ass = conns_ids cs ass"
  by (induction cs ass rule: conns_ids.induct) auto

lemma stopped_owned [simp]:
  "conns_owned (map (\<lambda>c. c\<lparr>shutdown_requested := True\<rparr>) cs) ass m = conns_owned cs ass m"
  by (induction cs ass m rule: conns_owned.induct) auto

section \<open>Creation\<close>

text \<open>A connection as \<open>init_conn\<close> leaves it.\<close>

definition fresh_conn :: "'r native_conn \<Rightarrow> bool" where
  "fresh_conn c \<longleftrightarrow> pg c \<noteq> None \<and> clean_slot c \<and> \<not> slot_filled c \<and> chain_inv c [] \<and>
     \<not> in_use c \<and> \<not> shutdown_requested c"

lemma fresh_conn_ids: "fresh_conn c \<Longrightarrow> conn_ids c [] = handle_ids c"
  by (simp add: fresh_conn_def conn_ids_def clean_slot_ids)

lemma fresh_conn_owned:
  "fresh_conn c \<Longrightarrow> distinct (handle_ids c) \<Longrightarrow> set (handle_ids c) \<subseteq> live m \<Longrightarrow> conn_owned c [] m"
  by (simp add: conn_owned_def fresh_conn_ids) (simp add: fresh_conn_def slot_inv_def)

text \<open>Fresh connections have no chain nodes.\<close>

definition no_chains :: "'r native_conn list \<Rightarrow> nat list list" where
  "no_chains cs = map (\<lambda>_. []) cs"

lemma no_chains_simps [simp]: "no_chains [] = []" "no_chains (c # cs) = [] # no_chains cs"
  by (simp_all add: no_chains_def)

lemma fresh_conns_ids:
  "\<forall>c \<in> set cs. fresh_conn c \<Longrightarrow> conns_ids cs (no_chains cs) = set (concat (map handle_ids cs))"
  by (induction cs) (auto simp: fresh_conn_ids)

lemma fresh_conns_owned:
  "\<forall>c \<in> set cs. fresh_conn c \<Longrightarrow> distinct (concat (map handle_ids cs)) \<Longrightarrow>
   set (concat (map handle_ids cs)) \<subseteq> live m \<Longrightarrow> conns_owned cs (no_chains cs) m"
proof (induction cs)
  case Nil
  then show ?case by simp
next
  case (Cons c cs)
  then have "conn_owned c [] m" "conns_owned cs (no_chains cs) m"
    by (auto intro: fresh_conn_owned)
  with Cons.prems show ?case
    by (auto simp: fresh_conns_ids fresh_conn_ids)
qed

lemma init_conns_cases:
  assumes ok: "ledger_ok m0" and W: "worker_end_ok W" and nolock: "held m0 = {}"
  shows "acquired m0 (concat (map handle_ids up)) m \<Longrightarrow> \<forall>c \<in> set up. fresh_conn c \<Longrightarrow>
    init_conns E W ci n up m = (r, m') \<Longrightarrow>
    (case r of
       None \<Rightarrow> acquired m0 [] m'
     | Some cs \<Rightarrow> acquired m0 (concat (map handle_ids cs)) m' \<and> (\<forall>c \<in> set cs. fresh_conn c) \<and>
         length cs = length up + n)"
proof (induction n arbitrary: up m)
  case 0
  then show ?case by auto
next
  case (Suc n)
  obtain k c m1 where i: "init_conn E zero_conn (int (length up)) ci m = (k, c, m1)"
    by (cases "init_conn E zero_conn (int (length up)) ci m") auto
  have okm: "ledger_ok m"
    using ok Suc.prems(1) by (rule acquired_ledger_ok)
  from init_conn_cases [OF okm i] show ?case
  proof (elim disjE conjE)
    assume k: "k = -1" and a: "acquired m [] m1"
    have a1: "acquired m0 (concat (map handle_ids up)) m1"
      using acquired_trans [OF Suc.prems(1) a] by simp
    then have "held m1 = {}" "ledger_ok m1"
      using nolock ok by (auto simp: acquired_def intro: acquired_ledger_ok [OF ok a1])
    moreover have "conns_owned up (no_chains up) m1"
      using a1 Suc.prems(2) by (intro fresh_conns_owned) (auto simp: acquired_def)
    ultimately have "released m1 (set (concat (map handle_ids up))) (rollback_conns E W up m1)"
      using rollback_conns_released [OF W, of m1 up "no_chains up" E] fresh_conns_ids [OF Suc.prems(2)]
      by simp
    with acquired_released [OF ok a1] show ?thesis
      using Suc.prems(3) i k by auto
  next
    assume k: "k = 0" and c: "pg c \<noteq> None" "clean_slot c" "\<not> slot_filled c" "chain_inv c []"
      "\<not> in_use c" "\<not> shutdown_requested c" and a: "acquired m (handle_ids c) m1"
    have "acquired m0 (concat (map handle_ids (up @ [c]))) m1"
      using acquired_trans [OF Suc.prems(1) a] by simp
    moreover have "\<forall>d \<in> set (up @ [c]). fresh_conn d"
      using Suc.prems(2) c by (auto simp: fresh_conn_def)
    moreover have "init_conns E W ci n (up @ [c]) m1 = (r, m')"
      using Suc.prems(3) i k by simp
    ultimately have "case r of None \<Rightarrow> acquired m0 [] m'
      | Some cs \<Rightarrow> acquired m0 (concat (map handle_ids cs)) m' \<and> (\<forall>c \<in> set cs. fresh_conn c) \<and>
         length cs = length (up @ [c]) + n"
      by (rule Suc.IH)
    then show ?thesis by (simp split: option.splits)
  qed
qed

text \<open>The pool's own resources.\<close>

definition frame_ids :: "'r native_pool \<Rightarrow> nat list" where
  "frame_ids p = pool_block p # opt_ids (conninfo p) @ [mutex p, free_cond p, conns_block p]"

definition pool_owned :: "'r native_pool \<Rightarrow> nat list list \<Rightarrow> 'w mach \<Rightarrow> bool" where
  "pool_owned p ass m \<longleftrightarrow>
     conns_owned (conns p) ass m \<and> distinct (frame_ids p) \<and> set (frame_ids p) \<subseteq> live m \<and>
     set (frame_ids p) \<inter> conns_ids (conns p) ass = {}"

definition pool_ids :: "'r native_pool \<Rightarrow> nat list list \<Rightarrow> nat set" where
  "pool_ids p ass = set (frame_ids p) \<union> conns_ids (conns p) ass"

text \<open>
  Creation is all or nothing. The failing branches differ only in how much was acquired
  before; each gives back exactly that.
\<close>

lemma pool_create_refuses:
  "ci = None \<or> max_n < 1 \<Longrightarrow> pool_create E W ci mn max_n t m = (None, m)"
  by (simp add: pool_create_def)

lemma pool_create_steps:
  fixes m :: "'w mach"
  assumes ok: "ledger_ok m" and args: "ci = Some s" "\<not> max_n < 1"
    and blk: "halloc () m = (Some b, m1)" and str: "dup_string ci m1 = (Some sc, m2)"
    and mu: "halloc () m2 = (Some u, m3)" and cv: "halloc () m3 = (Some v, m4)"
    and cb: "halloc () m4 = (Some k, m5)" and cs: "init_conns E W s (nat max_n) [] m5 = (r, m6)"
    and W: "worker_end_ok W" and nolock: "held m = {}"
    and res: "pool_create E W ci mn max_n t m = (rp, m')"
  shows "case rp of
      None \<Rightarrow> acquired m [] m'
    | Some p \<Rightarrow> acquired m (frame_ids p @ concat (map handle_ids (conns p))) m' \<and>
        (\<forall>c \<in> set (conns p). fresh_conn c) \<and> length (conns p) = nat max_n \<and> max_size p = max_n \<and>
        \<not> shutting_down p \<and> map_option contents (conninfo p) = ci"
proof -
  let ?own = "[addr b, addr sc, addr u, addr v, addr k]"
  have a2: "acquired m [addr b, addr sc] m2"
    using acquired_trans [of m "[addr b]" m1 "[addr sc]" m2] halloc_Some [OF blk] dup_string_Some [OF str]
    by simp
  have a3: "acquired m [addr b, addr sc, addr u] m3"
    using acquired_trans [OF a2, of "[addr u]" m3] halloc_Some [OF mu] by simp
  have a4: "acquired m [addr b, addr sc, addr u, addr v] m4"
    using acquired_trans [OF a3, of "[addr v]" m4] halloc_Some [OF cv] by simp
  have a5: "acquired m ?own m5"
    using acquired_trans [OF a4, of "[addr k]" m5] halloc_Some [OF cb] by simp
  have h5: "held m5 = {}"
    using a5 nolock by (simp add: acquired_def)
  note ic = init_conns_cases [OF acquired_ledger_ok [OF ok a5] W h5, of "[]" m5 E s "nat max_n" r m6]
  show ?thesis
  proof (cases r)
    case None
    with ic cs have "acquired m5 [] m6" by simp
    then have "acquired m [] (free_all [addr k, addr v, addr u, addr sc, addr b] m6)"
      using a5 by (intro give_back [OF ok a5]) (auto simp: acquired_def)
    with None res args blk str mu cv cb cs show ?thesis
      by (simp add: pool_create_def)
  next
    case (Some up)
    with ic cs have up: "acquired m5 (concat (map handle_ids up)) m6" "\<forall>c \<in> set up. fresh_conn c"
      "length up = nat max_n"
      by simp_all
    have "acquired m (?own @ concat (map handle_ids up)) m6"
      using acquired_trans [OF a5 up(1)] .
    with Some res args blk str mu cv cb cs up dup_string_Some [OF str] show ?thesis
      by (auto simp: pool_create_def frame_ids_def)
  qed
qed

lemma pool_create_cases:
  fixes m :: "'w mach"
  assumes ok: "ledger_ok m" and W: "worker_end_ok W" and nolock: "held m = {}"
    and res: "pool_create E W ci mn max_n t m = (rp, m')"
  shows "case rp of
      None \<Rightarrow> acquired m [] m'
    | Some p \<Rightarrow> acquired m (frame_ids p @ concat (map handle_ids (conns p))) m' \<and>
        (\<forall>c \<in> set (conns p). fresh_conn c) \<and> length (conns p) = nat max_n \<and> max_size p = max_n \<and>
        \<not> shutting_down p \<and> map_option contents (conninfo p) = ci"
proof (cases "ci = None \<or> max_n < 1")
  case True
  then show ?thesis
    using res unfolding pool_create_refuses [OF True] by (auto split: option.split)
next
  case False
  then obtain s where s: "ci = Some s" and n: "\<not> max_n < 1" by auto
  obtain b m1 where blk: "halloc () m = (b, m1)" by (cases "halloc () m")
  obtain sc m2 where str: "dup_string ci m1 = (sc, m2)" by (cases "dup_string ci m1")
  obtain u m3 where mu: "halloc () m2 = (u, m3)" by (cases "halloc () m2")
  obtain v m4 where cv: "halloc () m3 = (v, m4)" by (cases "halloc () m3")
  obtain k m5 where cb: "halloc () m4 = (k, m5)" by (cases "halloc () m4")
  obtain r m6 where cs: "init_conns E W s (nat max_n) [] m5 = (r, m6)"
    by (cases "init_conns E W s (nat max_n) [] m5")
  note a1 = halloc_opt [OF blk]
  have s2: "acquired m1 (opt_ids sc) m2"
    using str by (cases sc) (auto dest: dup_string_Some dup_string_None)
  note a2 = acquired_trans [OF a1 s2]
  note a3 = acquired_trans [OF a2 halloc_opt [OF mu]]
  note a4 = acquired_trans [OF a3 halloc_opt [OF cv]]
  note a5 = acquired_trans [OF a4 halloc_opt [OF cb]]
  consider "b = None" | bc where "b = Some bc" "sc = None"
    | bc sx where "b = Some bc" "sc = Some sx" "u = None"
    | bc sx ux where "b = Some bc" "sc = Some sx" "u = Some ux" "v = None"
    | bc sx ux vx where "b = Some bc" "sc = Some sx" "u = Some ux" "v = Some vx" "k = None"
    | bc sx ux vx kx where "b = Some bc" "sc = Some sx" "u = Some ux" "v = Some vx" "k = Some kx"
    by blast
  then show ?thesis
  proof cases
    case 1
    then show ?thesis using res s n blk a1 by (auto simp: pool_create_def)
  next
    case 2
    then have "acquired m [] (free_all [addr bc] m2)"
      using give_back [OF ok a2 acquired_refl, of "[addr bc]"] by simp
    with 2 show ?thesis using res s n blk str by (auto simp: pool_create_def)
  next
    case 3
    with a3 have "acquired m [] (free_all [addr sx, addr bc] m3)"
      by (intro give_back [OF ok a3 acquired_refl]) (auto simp: acquired_def)
    with 3 show ?thesis using res s n blk str mu by (auto simp: pool_create_def)
  next
    case 4
    with a4 have "acquired m [] (free_all [addr ux, addr sx, addr bc] m4)"
      by (intro give_back [OF ok a4 acquired_refl]) (auto simp: acquired_def)
    with 4 show ?thesis using res s n blk str mu cv by (auto simp: pool_create_def)
  next
    case 5
    with a5 have "acquired m [] (free_all [addr vx, addr ux, addr sx, addr bc] m5)"
      by (intro give_back [OF ok a5 acquired_refl]) (auto simp: acquired_def)
    with 5 show ?thesis using res s n blk str mu cv cb by (auto simp: pool_create_def)
  next
    case 6
    show ?thesis
      using pool_create_steps [OF ok s n _ _ _ _ _ cs W nolock res] blk str mu cv cb 6 by blast
  qed
qed

lemma created_pool_owned:
  assumes "ledger_ok m" "acquired m (frame_ids p @ concat (map handle_ids (conns p))) m'"
    "\<forall>c \<in> set (conns p). fresh_conn c"
  shows "pool_owned p (no_chains (conns p)) m' \<and>
    pool_ids p (no_chains (conns p)) = set (frame_ids p @ concat (map handle_ids (conns p)))"
  using assms fresh_conns_owned [OF assms(3), of m'] fresh_conns_ids [OF assms(3)]
  by (auto simp: pool_owned_def pool_ids_def acquired_def)

section \<open>Destruction\<close>

lemma unlock_signal_lock_released:
  "held m = {} \<Longrightarrow> released m {} (mutex_unlock a (cond_signal b (mutex_lock a m)))"
  by (simp add: lock_signal_unlock)

lemma pool_destroy_released:
  assumes ok: "ledger_ok m" and W: "worker_end_ok W" and nolock: "held m = {}"
    and own: "pool_owned p ass m"
  shows "released m (pool_ids p ass) (pool_destroy E W (Some p) m)"
proof -
  let ?cs = "map (\<lambda>c. c\<lparr>shutdown_requested := True\<rparr>) (conns p)"
  obtain m1 where st: "stop_conns E (conns p) m = (?cs, m1)" and r1: "released m {} m1"
    using stop_conns_eq [OF nolock, of E "conns p"] by blast
  let ?m2 = "teardown_conns E W ?cs m1"
  have own1: "conns_owned ?cs ass m1"
    using own conns_owned_released [OF _ r1, of ?cs ass] by (simp add: pool_owned_def)
  have h1: "held m1 = {}"
    using r1 nolock by (simp add: released_def)
  have stopped: "\<forall>c \<in> set ?cs. shutdown_requested c"
    by simp
  have r2: "released m1 (conns_ids (conns p) ass) ?m2"
    using teardown_conns_released [OF W released_ledger_ok [OF ok r1] h1 own1 stopped, of E]
    unfolding stopped_ids .
  have h2: "held ?m2 = {}"
    using r1 r2 nolock by (simp add: released_def)
  let ?m3 = "mutex_unlock (mutex p) (cond_signal (free_cond p) (mutex_lock (mutex p) ?m2))"
  have r3: "released m (conns_ids (conns p) ass) ?m3"
    using released_trans [OF released_trans [OF r1 r2] unlock_signal_lock_released [OF h2]] by simp
  let ?ids = "conns_block p # free_cond p # mutex p # opt_ids (conninfo p) @ [pool_block p]"
  have ids: "set ?ids = set (frame_ids p)" "distinct ?ids"
    using own by (auto simp: pool_owned_def frame_ids_def)
  have "set ?ids \<subseteq> live ?m3"
    unfolding ids(1) using own r3 by (auto simp: pool_owned_def released_def)
  with ids(2) have "released ?m3 (set ?ids) (free_all ?ids ?m3)"
    by (rule free_all_released)
  from released_trans [OF r3 this] have "released m (pool_ids p ass) (free_all ?ids ?m3)"
    unfolding ids(1) by (simp add: pool_ids_def Un_commute)
  then show ?thesis
    by (simp add: pool_destroy_def st cfree_free_all free_all_append)
qed

text \<open>A pool created and destroyed leaves the ledger as it was.\<close>

lemma create_destroy:
  assumes "ledger_ok m" "worker_end_ok W" "held m = {}"
    "pool_create E W ci mn max_n t m = (Some p, m')"
  shows "acquired m [] (pool_destroy E W (Some p) m')"
proof -
  from pool_create_cases [OF assms]
  have a: "acquired m (frame_ids p @ concat (map handle_ids (conns p))) m'"
    and f: "\<forall>c \<in> set (conns p). fresh_conn c"
    by simp_all
  note o = created_pool_owned [OF assms(1) a f]
  have "held m' = {}" using a assms(3) by (simp add: acquired_def)
  with pool_destroy_released [OF acquired_ledger_ok [OF assms(1) a] assms(2) _ conjunct1 [OF o]] o
  have "released m' (set (frame_ids p @ concat (map handle_ids (conns p)))) (pool_destroy E W (Some p) m')"
    by metis
  with acquired_released [OF assms(1) a] show ?thesis .
qed

section \<open>Release\<close>

text \<open>\<open>pool_release\<close> drops the undrained results, then marks the connection free.\<close>

lemma pool_release_eq:
  assumes i: "i < length (conns p)" and ch: "chain_inv (conns p ! i) as" and nl: "mutex p \<notin> held m"
  shows "\<exists>p' m'. pool_release (Some p) (Some i) m = (Some p', m') \<and>
    chain_inv (conns p' ! i) [] \<and> pg_leased p' = pg_leased p - {i} \<and>
    m' = (free_all (chain_ids (conns p ! i) as) m)\<lparr>signals := free_cond p # signals m\<rparr>"
proof -
  let ?c = "(conns p ! i)\<lparr>chain_store := [], chain_head := None, chain_tail := None\<rparr>"
  let ?m1 = "free_all (chain_ids (conns p ! i) as) m"
  let ?p1 = "p\<lparr>conns := (conns p)[i := ?c]\<rparr>"
  have "pool_release (Some p) (Some i) m = (Some (set_in_use False i ?p1),
      mutex_unlock (mutex p) (cond_signal (free_cond p) (mutex_lock (mutex p) ?m1)))"
    by (simp add: pool_release_def free_result_chain_eq [OF ch] Let_def)
  moreover have "mutex_unlock (mutex p) (cond_signal (free_cond p) (mutex_lock (mutex p) ?m1)) =
      ?m1\<lparr>signals := free_cond p # signals m\<rparr>"
    using nl by (simp add: mutex_lock_def mutex_unlock_def cond_signal_def free_all_frame insert_absorb)
  moreover have "chain_inv (conns (set_in_use False i ?p1) ! i) []"
    using i by (simp add: set_in_use_def chain_inv_empty)
  moreover have "pg_leased ?p1 = pg_leased p"
    using i by (auto simp: array_leased_def array_capacity_def nth_list_update)
  ultimately show ?thesis
    by (simp add: pg_array.leased_mark)
qed

end
