(* ===== verification/Pg_Worker_Laws.thy ===== *)
theory Pg_Worker_Laws
  imports Pg_Worker Pg_Pool_Laws
begin

text \<open>
  What holds of the PostgreSQL worker: its two result codes, how much fuel its loops need,
  what it does to the ledger, the text \<open>join_with_semicolons\<close> builds, and that a multi-read
  leaves exactly the results the server sent, in order, in the connection's chain.
\<close>

lemmas port_codes = WORKER_PORT_OK_def WORKER_PORT_ABORTED_def

lemma on_ext_mach: "on_ext f m = (r, m1) \<Longrightarrow> m1 = m\<lparr>ext := ext m1\<rparr> \<and> f (ext m) = (r, ext m1)"
  by (auto simp: on_ext_def split: prod.splits)

lemma on_ext_acquired: "on_ext f m = (r, m1) \<Longrightarrow> acquired m0 xs m1 = acquired m0 xs m"
  by (metis acquired_ext on_ext_mach)

lemma on_ext_oom: "on_ext f m = (r, m1) \<Longrightarrow> oom m1 = oom m"
  by (auto simp: on_ext_def split: prod.splits)

section \<open>Result codes\<close>

lemma flush_code:
  "flush_outgoing n E c p sock h d w = Some (st, w') \<Longrightarrow> st = 1 \<or> st = 2"
  by (induction n arbitrary: w)
    (auto simp: port_codes Let_def split: prod.splits bool.splits io.splits if_splits)

lemma await_code: "await_result n E c p sock h d w = Some (st, w') \<Longrightarrow> st = 1 \<or> st = 2"
  by (induction n arbitrary: w)
    (auto simp: port_codes Let_def split: prod.splits bool.splits io.splits if_splits)

lemma finish_single_code:
  "finish_single n E c p sock t w = Some (st, w') \<Longrightarrow> st = 1 \<or> st = 2"
  by (auto simp: finish_single_def port_codes Let_def dest: await_code
      split: prod.splits option.splits if_splits)

lemma single_code: "execute_single n E c p q t w = Some (st, w') \<Longrightarrow> st = 1 \<or> st = 2"
  by (auto simp: execute_single_def port_codes Let_def dest: finish_single_code
      split: prod.splits if_splits)

lemma single_params_code:
  "execute_single_params n E c p q ps t w = Some (st, w') \<Longrightarrow> st = 1 \<or> st = 2"
  by (auto simp: execute_single_params_def port_codes Let_def dest: finish_single_code
      split: prod.splits if_splits)

lemma pipeline_drain_code:
  "pipeline_drain n E c p sock h d k m = Some (st, m') \<Longrightarrow> st = 1 \<or> st = 2"
  by (induction n arbitrary: m k)
    (auto simp: port_codes Let_def split: prod.splits bool.splits io.splits option.splits if_splits)

lemma pipeline_code: "execute_pipeline n E c p qs k t m = Some (st, m') \<Longrightarrow> st = 1 \<or> st = 2"
  by (auto simp: execute_pipeline_def port_codes Let_def dest: pipeline_drain_code
      split: prod.splits option.splits if_splits)

lemma abort_chain_code: "abort_chain c m = Some (st, c', m') \<Longrightarrow> st = 2"
  by (auto simp: abort_chain_def port_codes split: prod.splits)

lemma multi_drain_code:
  "multi_drain n E p sock h d c m = Some (st, c', m') \<Longrightarrow> st = 1 \<or> st = 2"
  by (induction n arbitrary: c m)
    (auto simp: port_codes Let_def dest: abort_chain_code
      split: prod.splits bool.splits io.splits option.splits if_splits)

lemma multi_read_code:
  "execute_multi_read n E c p qs k t m = Some (st, c', m') \<Longrightarrow> st = 1 \<or> st = 2"
  by (auto simp: execute_multi_read_def port_codes Let_def dest: multi_drain_code abort_chain_code
      split: prod.splits option.splits if_splits)

lemma worker_execute_code:
  "worker_execute n E p c m = Some (st, c', m') \<Longrightarrow> st = 1 \<or> st = 2"
  by (auto simp: worker_execute_def lift_ext_def Let_def split: prod.splits option.splits if_splits
      dest: single_code single_params_code pipeline_code multi_read_code)

section \<open>Fuel\<close>

text \<open>
  Under a deadline every iteration that goes round has waited in \<open>select\<close>, so the clock has
  advanced. \<open>clock_runs E clk\<close> is what is assumed of it: \<open>clock_gettime\<close> reports \<open>clk\<close> in
  normal form, no call turns the clock back, \<open>select\<close> takes at least a nanosecond.
\<close>

definition clock_runs :: "('w, 'r) pg_env \<Rightarrow> ('w \<Rightarrow> int) \<Rightarrow> bool" where
  "clock_runs E clk \<longleftrightarrow>
     (\<forall>w. normal (fst (clock_gettime E w)) \<and> ns_of (fst (clock_gettime E w)) = clk w \<and>
        clk w \<le> clk (snd (clock_gettime E w))) \<and>
     (\<forall>p w. clk w \<le> clk (snd (PQflush E p w)) \<and> clk w \<le> clk (snd (PQconsumeInput E p w)) \<and>
        clk w \<le> clk (snd (PQisBusy E p w)) \<and> clk w \<le> clk (snd (shutdown_meanwhile E p w)) \<and>
        clk w \<le> clk (snd (PQgetResult E p w))) \<and>
     (\<forall>sock wr tv w. clk w < clk (snd (select_io E sock wr tv w)))"

definition ns_left :: "('w \<Rightarrow> int) \<Rightarrow> timespec \<Rightarrow> 'w \<Rightarrow> nat" where
  "ns_left clk d w = nat (ns_of d - clk w)"

lemma clock_le:
  assumes "clock_runs E clk"
  shows "PQflush E p w = (f, w') \<Longrightarrow> ns_left clk d w' \<le> ns_left clk d w"
    "PQconsumeInput E p w = (f, w') \<Longrightarrow> ns_left clk d w' \<le> ns_left clk d w"
    "PQisBusy E p w = (b, w') \<Longrightarrow> ns_left clk d w' \<le> ns_left clk d w"
    "PQgetResult E p w = (r, w') \<Longrightarrow> ns_left clk d w' \<le> ns_left clk d w"
    "load_shutdown E c p w = (b, w') \<Longrightarrow> ns_left clk d w' \<le> ns_left clk d w"
proof -
  have le: "clk w \<le> clk w' \<Longrightarrow> ns_left clk d w' \<le> ns_left clk d w" for w w'
    by (simp add: ns_left_def)
  show "PQflush E p w = (f, w') \<Longrightarrow> ns_left clk d w' \<le> ns_left clk d w"
    "PQconsumeInput E p w = (f, w') \<Longrightarrow> ns_left clk d w' \<le> ns_left clk d w"
    "PQisBusy E p w = (b, w') \<Longrightarrow> ns_left clk d w' \<le> ns_left clk d w"
    "PQgetResult E p w = (r, w') \<Longrightarrow> ns_left clk d w' \<le> ns_left clk d w"
    "load_shutdown E c p w = (b, w') \<Longrightarrow> ns_left clk d w' \<le> ns_left clk d w"
    using assms unfolding clock_runs_def load_shutdown_def
    by (metis le order_refl prod.sel(2))+
qed

text \<open>A wait that goes round before a normal deadline leaves less time.\<close>

lemma wait_io_progress:
  assumes run: "clock_runs E clk" and d: "normal d"
    and w: "wait_io E sock wr True d w = (r, w')" and r: "r \<noteq> Io_expired"
  shows "ns_left clk d w' < ns_left clk d w"
proof -
  obtain now w1 where now: "clock_gettime E w = (now, w1)"
    by (cases "clock_gettime E w")
  from run now have n: "normal now" "ns_of now = clk w" "clk w \<le> clk w1"
    unfolding clock_runs_def by (metis fst_conv snd_conv)+
  obtain tv where tv: "next_select_tv True d now = Some tv"
    using w r now by (auto simp: wait_io_def next_tv_def split: option.splits)
  then have "\<not> ms_until d now \<le> 0"
    using next_select_tv_None [of True d now] by auto
  with ms_until_expired [OF d n(1)] n(2) have "clk w < ns_of d"
    by linarith
  moreover have "w' = snd (select_io E sock wr tv w1)"
    using w now tv by (auto simp: wait_io_def next_tv_def split: prod.splits select_rc.splits)
  with run have "clk w1 < clk w'"
    unfolding clock_runs_def by simp
  ultimately show ?thesis
    using n(3) by (simp add: ns_left_def)
qed

lemma flush_returns:
  assumes run: "clock_runs E clk" and d: "normal d"
  shows "ns_left clk d w < n \<Longrightarrow>
    \<exists>st w'. flush_outgoing n E c p sock True d w = Some (st, w') \<and>
      (st = WORKER_PORT_OK \<longrightarrow> ns_left clk d w' \<le> ns_left clk d w)"
proof (induction n arbitrary: w)
  case 0
  then show ?case by simp
next
  case (Suc n)
  obtain f w1 where f: "PQflush E p w = (f, w1)" by (cases "PQflush E p w")
  obtain b w2 where b: "load_shutdown E c p w1 = (b, w2)" by (cases "load_shutdown E c p w1")
  obtain r w3 where r: "wait_io E sock True True d w2 = (r, w3)"
    by (cases "wait_io E sock True True d w2")
  obtain k w4 where k: "PQconsumeInput E p w3 = (k, w4)" by (cases "PQconsumeInput E p w3")
  note le = clock_le(1) [OF run f, of d] clock_le(5) [OF run b, of d] clock_le(2) [OF run k, of d]
  have step: "ns_left clk d w3 < n \<and> ns_left clk d w4 < n \<and> ns_left clk d w3 \<le> ns_left clk d w \<and>
      ns_left clk d w4 \<le> ns_left clk d w" if "r \<noteq> Io_expired"
    using wait_io_progress [OF run d r that] le Suc.prems by linarith
  show ?case
  proof (cases "f = 0 \<or> f < 0 \<or> b \<or> r = Io_expired \<or> r = Io_failed")
    case True
    then show ?thesis using f b r le(1) by (auto simp: port_codes split: bool.splits)
  next
    case False
    then have again: "\<exists>st w'. flush_outgoing n E c p sock True d v = Some (st, w') \<and>
        (st = WORKER_PORT_OK \<longrightarrow> ns_left clk d w' \<le> ns_left clk d w)" if "v = w3 \<or> v = w4" for v
      using Suc.IH [of v] step that by force
    show ?thesis
      using False f b r k again by (cases r) (auto simp: port_codes)
  qed
qed

lemma await_returns:
  assumes run: "clock_runs E clk" and d: "normal d"
  shows "ns_left clk d w < n \<Longrightarrow> await_result n E c p sock True d w \<noteq> None"
proof (induction n arbitrary: w)
  case 0
  then show ?case by simp
next
  case (Suc n)
  obtain b w1 where b: "load_shutdown E c p w = (b, w1)" by (cases "load_shutdown E c p w")
  obtain r w2 where r: "wait_io E sock False True d w1 = (r, w2)"
    by (cases "wait_io E sock False True d w1")
  obtain k w3 where k: "PQconsumeInput E p w2 = (k, w3)" by (cases "PQconsumeInput E p w2")
  obtain y w4 where y: "PQisBusy E p w3 = (y, w4)" by (cases "PQisBusy E p w3")
  note le = clock_le(5) [OF run b, of d] clock_le(2) [OF run k, of d] clock_le(3) [OF run y, of d]
  have "await_result n E c p sock True d v \<noteq> None" if "r \<noteq> Io_expired" "v = w2 \<or> v = w4" for v
    using Suc.IH [of v] wait_io_progress [OF run d r that(1)] le Suc.prems that(2) by force
  then show ?case
    using b r k y by (cases b; cases r) auto
qed

text \<open>The deadline of a request: normal, and the timeout away from the clock.\<close>

lemma start_deadline_left:
  assumes run: "clock_runs E clk" and t: "0 < t" and s: "start_deadline E t w = (d, w')"
  shows "normal d \<and> ns_left clk d w' \<le> nat (t * 1000000)"
proof -
  obtain now w1 where now: "clock_gettime E w = (now, w1)" by (cases "clock_gettime E w")
  with s t have d: "d = deadline_from_ms now t" "w' = w1"
    by (simp_all add: start_deadline_def compute_deadline_same)
  have "normal now" "ns_of now = clk w" "clk w \<le> clk w1"
    using run now unfolding clock_runs_def by (metis fst_conv snd_conv)+
  with d deadline_core [of now t] t show ?thesis
    by (simp add: ns_left_def)
qed

lemma finish_single_returns:
  assumes run: "clock_runs E clk" and t: "0 < t" and n: "nat (t * 1000000) < n"
  shows "finish_single n E c p sock t w \<noteq> None"
proof -
  obtain d w1 where d: "start_deadline E t w = (d, w1)" by (cases "start_deadline E t w")
  note left = start_deadline_left [OF run t d]
  with n obtain st w2 where f: "flush_outgoing n E c p sock True d w1 = Some (st, w2)"
    and ok: "st = WORKER_PORT_OK \<longrightarrow> ns_left clk d w2 \<le> ns_left clk d w1"
    using flush_returns [OF run, of d w1 n c p sock] by auto
  show ?thesis
  proof (cases "st = WORKER_PORT_OK")
    case True
    then have "await_result n E c p sock True d w2 \<noteq> None"
      using await_returns [OF run, of d w2 n c p sock] left ok n by simp
    with True t d f show ?thesis by (simp add: finish_single_def)
  next
    case False
    with t d f show ?thesis by (simp add: finish_single_def)
  qed
qed

lemma single_returns:
  assumes "clock_runs E clk" "0 < t" "nat (t * 1000000) < n"
  shows "execute_single n E c p q t w \<noteq> None" "execute_single_params n E c p q ps t w \<noteq> None"
  using finish_single_returns [OF assms]
  by (auto simp: execute_single_def execute_single_params_def Let_def split: prod.splits)

text \<open>A requested shutdown needs no more than one iteration of any loop.\<close>

lemma load_stopping [simp]: "shutdown_requested c \<Longrightarrow> load_shutdown E c p w = (True, w)"
  by (simp add: load_shutdown_def)

lemma flush_stopping:
  "shutdown_requested c \<Longrightarrow> \<exists>st w'. flush_outgoing (Suc n) E c p sock h d w = Some (st, w')"
  by (auto simp: Let_def split: prod.splits)

lemma await_stopping:
  "shutdown_requested c \<Longrightarrow> await_result (Suc n) E c p sock h d w = Some (2, pq_cancel E p w)"
  by (simp add: port_codes)

lemma finish_single_stopping:
  assumes "shutdown_requested c"
  shows "\<exists>w'. finish_single (Suc n) E c p sock t w = Some (2, w')"
proof -
  obtain d w1 where d: "start_deadline E t w = (d, w1)" by (cases "start_deadline E t w")
  from flush_stopping [OF assms, of n E p sock "t > 0" d w1] obtain st w2 where
    "flush_outgoing (Suc n) E c p sock (t > 0) d w1 = Some (st, w2)" by blast
  with d await_stopping [OF assms, of n E p sock "t > 0" d w2] show ?thesis
    by (simp add: finish_single_def port_codes del: flush_outgoing.simps await_result.simps)
qed

lemma single_stopping:
  assumes "shutdown_requested c"
  shows "\<exists>w'. execute_single (Suc n) E c p q t w = Some (2, w')"
    "\<exists>w'. execute_single_params (Suc n) E c p q ps t w = Some (2, w')"
  using finish_single_stopping [OF assms, of n E p]
  by (auto simp: execute_single_def execute_single_params_def Let_def port_codes split: prod.splits)

lemma on_ext_load [simp]: "shutdown_requested c \<Longrightarrow> on_ext (load_shutdown E c p) m = (True, m)"
  by (simp add: on_ext_def)

lemma pipeline_drain_stopping:
  "shutdown_requested c \<Longrightarrow> pipeline_drain (Suc n) E c p sock h d k m \<noteq> None"
  by simp

lemma pipeline_stopping:
  assumes "shutdown_requested c"
  shows "execute_pipeline (Suc n) E c p qs k t m \<noteq> None"
proof -
  have f: "flush_outgoing (Suc n) E c p sock h d w \<noteq> None" for sock h d w
    using flush_stopping [OF assms] by (metis option.distinct(1))
  show ?thesis
    by (simp add: execute_pipeline_def Let_def f pipeline_drain_stopping [OF assms]
        split: prod.split option.split del: flush_outgoing.simps pipeline_drain.simps)
qed

lemma chain_frame_shutdown: "shutdown_requested (fst (native_pool_free_result_chain c m)) = shutdown_requested c"
  by (simp add: native_pool_free_result_chain_def split: prod.split)

lemma abort_chain_returns: "abort_chain c m \<noteq> None"
  by (simp add: abort_chain_def split: prod.split)

lemma multi_drain_stopping:
  "shutdown_requested c \<Longrightarrow> multi_drain (Suc n) E p sock h d c m \<noteq> None"
  by (simp add: abort_chain_returns)

lemma multi_stopping:
  assumes "shutdown_requested c"
  shows "execute_multi_read (Suc n) E c p qs k t m \<noteq> None"
proof -
  obtain c1 m1 where fr: "native_pool_free_result_chain c m = (c1, m1)"
    by (cases "native_pool_free_result_chain c m")
  then have c1: "shutdown_requested c1"
    using chain_frame_shutdown [of c m] assms by simp
  have f: "flush_outgoing (Suc n) E c1 p sock h d w \<noteq> None" for sock h d w
    using flush_stopping [OF c1] by (metis option.distinct(1))
  show ?thesis
    by (simp add: execute_multi_read_def Let_def fr f multi_drain_stopping [OF c1] abort_chain_returns
        split: prod.split option.split del: flush_outgoing.simps multi_drain.simps not_None_eq)
qed

lemma worker_stopping:
  assumes "shutdown_requested c"
  shows "worker_execute (Suc n) E p c m \<noteq> None"
proof -
  have s: "execute_single (Suc n) E c p q t w \<noteq> None"
    "execute_single_params (Suc n) E c p q ps t w \<noteq> None" for q ps t w
    using single_stopping [OF assms] by (metis option.distinct(1))+
  show ?thesis
    by (simp add: worker_execute_def lift_ext_def s pipeline_stopping [OF assms]
        multi_stopping [OF assms] split: prod.split option.split del: not_None_eq)
qed

section \<open>The joined statement text\<close>

fun join_text :: "nat \<Rightarrow> string list \<Rightarrow> string" where
  "join_text i [] = []"
| "join_text i (q # qs) = (if i > 0 then '';'' else []) @ q @ join_text (Suc i) qs"

lemma join_text_semis:
  "join_text 0 qs = semis qs"
  "qs \<noteq> [] \<Longrightarrow> join_text (Suc i) qs = '';'' @ semis qs"
proof -
  show s: "qs \<noteq> [] \<Longrightarrow> join_text (Suc i) qs = '';'' @ semis qs" for i qs
    by (induction qs arbitrary: i rule: semis.induct) auto
  show "join_text 0 qs = semis qs"
    using s [of "tl qs" 0] by (cases qs rule: semis.cases) auto
qed

lemma join_size_text: "join_size i qs n = n + length (join_text i qs)"
  by (induction qs arbitrary: i n) auto

lemma join_copy_fits:
  "p + length (join_text i qs) \<le> length buf \<Longrightarrow> join_copy i qs p buf m = (p', buf', m') \<Longrightarrow>
   m' = m \<and> p' = p + length (join_text i qs) \<and> length buf' = length buf \<and>
   take p' buf' = take p buf @ join_text i qs"
proof (induction qs arbitrary: i p buf)
  case Nil
  then show ?case by simp
next
  case (Cons q qs)
  define sep where "sep = (if i > 0 then '';'' else [])"
  obtain b1 m1 where s: "write_bytes p sep buf m = (b1, m1)" by (cases "write_bytes p sep buf m")
  obtain b2 m2 where w: "write_bytes (p + length sep) q b1 m1 = (b2, m2)"
    by (cases "write_bytes (p + length sep) q b1 m1")
  have len: "p + length sep + length q + length (join_text (Suc i) qs) \<le> length buf"
    using Cons.prems(1) by (simp add: sep_def split: if_splits)
  then have b1: "m1 = m" "length b1 = length buf" "take (p + length sep) b1 = take p buf @ sep"
    using write_bytes_fits [OF _ s] by simp_all
  then have b2: "m2 = m" "length b2 = length buf"
      "take (p + length sep + length q) b2 = take p buf @ sep @ q"
    using write_bytes_fits [OF _ w] len by simp_all
  have "i = 0 \<Longrightarrow> b1 = buf"
    using s by (auto simp: write_bytes_def sep_def)
  with s w b1 b2 have "join_copy i (q # qs) p buf m =
      join_copy (Suc i) qs (p + length sep + length q) b2 m"
    by (auto simp: sep_def)
  then have "join_copy (Suc i) qs (p + length sep + length q) b2 m = (p', buf', m')"
    using Cons.prems(2) by simp
  from Cons.IH [OF _ this] len b2 have ih: "m' = m"
      "p' = p + length sep + length q + length (join_text (Suc i) qs)" "length buf' = length buf"
      "take p' buf' = (take p buf @ sep @ q) @ join_text (Suc i) qs"
    by auto
  have "p + length (join_text i (q # qs)) = p + length sep + length q + length (join_text (Suc i) qs)"
    "join_text i (q # qs) = sep @ q @ join_text (Suc i) qs"
    by (simp_all add: sep_def)
  with ih show ?case by simp
qed

lemma join_with_semicolons_Some:
  assumes res: "join_with_semicolons qs m = (Some c, m')"
  shows "acquired m [addr c] m' \<and> contents c = semis qs @ [CHR 0x00]"
proof -
  define n where "n = join_size 0 qs 1"
  have n: "n = length (semis qs) + 1"
    by (simp add: n_def join_size_text join_text_semis(1))
  obtain blk m1 where al: "halloc () m = (Some blk, m1)"
    using res by (auto simp: join_with_semicolons_def Let_def split: prod.splits option.splits)
  obtain p buf m2 where cp: "join_copy 0 qs 0 (replicate n (CHR 0xCC)) m1 = (p, buf, m2)"
    by (cases "join_copy 0 qs 0 (replicate n (CHR 0xCC)) m1")
  have "length (join_text 0 qs) \<le> length (replicate n (CHR 0xCC))"
    by (simp add: n join_text_semis(1))
  then have f: "m2 = m1" "p = length (semis qs)" "length buf = n" "take p buf = semis qs"
    using join_copy_fits [OF _ cp] by (auto simp: join_text_semis(1))
  have "c = Cell (addr blk) (semis qs @ [CHR 0x00])" "m' = m1"
    using res unfolding join_with_semicolons_def n_def [symmetric] Let_def al
    using cp f n by (auto simp: write_bytes_def)
  then show ?thesis
    using halloc_Some [OF al] by simp
qed

lemma join_copy_ext: "join_copy i qs p buf m = (p', buf', m') \<Longrightarrow> ext m' = ext m"
proof (induction qs arbitrary: i p buf m)
  case Nil
  then show ?case by simp
next
  case (Cons q qs)
  then show ?case
    by (fastforce simp: write_bytes_def Let_def split: if_splits)
qed

lemma join_with_semicolons_None: "join_with_semicolons qs m = (None, m') \<Longrightarrow> acquired m [] m'"
  by (auto simp: join_with_semicolons_def Let_def split: prod.splits option.splits dest: halloc_None)

section \<open>The ledger across a request\<close>

lemma acquired_nil_on_ext: "on_ext f m = (r, m1) \<Longrightarrow> acquired m [] m1"
  using on_ext_acquired [of f m r m1 m "[]"] by simp

lemma on_ext_ledger_ok: "on_ext f m = (r, m1) \<Longrightarrow> ledger_ok m1 = ledger_ok m"
  by (auto dest!: on_ext_mach) (metis ledger_ok_ext)+

lemma on_ext_fresh: "on_ext f m = (r, m1) \<Longrightarrow> fresh m1 = fresh m"
  by (auto simp: on_ext_def split: prod.splits)

text \<open>A result fetched and cleared leaves nothing but a used number.\<close>

lemma get_clear:
  assumes "ledger_ok m" "pq_getResult E p m = (Some r, m1)"
  shows "acquired m [] (pq_clear r m1)" "fresh (pq_clear r m1) = fresh m + 1"
proof -
  have a: "acquired m [addr r] m1"
    using assms(2) pq_result_Some unfolding pq_getResult_def by blast
  then show "acquired m [] (pq_clear r m1)"
    using assms(1) by (simp add: pq_clear_def acquired_rfree_one)
  show "fresh (pq_clear r m1) = fresh m + 1"
    using assms(2) by (auto simp: pq_getResult_def pq_result_def rnew_def pq_clear_def rfree_def
        split: prod.splits option.splits)
qed

lemma get_none:
  assumes "pq_getResult E p m = (None, m1)"
  shows "acquired m [] m1" "fresh m1 = fresh m"
  using assms by (auto simp: pq_getResult_def pq_result_def rnew_def acquired_def
      split: prod.splits option.splits)

text \<open>
  The pipeline drain gives every result back, and reports success exactly when it has
  cleared all \<open>remaining\<close> of them: each result uses one resource number.
\<close>

text \<open>Taking a result in the pipeline drain: a NULL is passed over, a result is cleared.\<close>

lemma pipeline_takes:
  assumes ok: "ledger_ok m" and g: "pq_getResult E p m = (g, m1)" and k: "0 < k"
    and run: "pipeline_drain n E c p sock h d (if g = None then k else k - 1) (case g of None \<Rightarrow> m1 | Some r \<Rightarrow> pq_clear r m1) = Some (st, m')"
    and more: "\<And>k m. ledger_ok m \<Longrightarrow> pipeline_drain n E c p sock h d k m = Some (st, m') \<Longrightarrow>
      acquired m [] m' \<and> (st = WORKER_PORT_OK \<longrightarrow> fresh m' = fresh m + nat k)"
  shows "acquired m [] m' \<and> (st = WORKER_PORT_OK \<longrightarrow> fresh m' = fresh m + nat k)"
proof (cases g)
  case None
  with get_none [of E p m m1] g have a: "acquired m [] m1" "fresh m1 = fresh m" by auto
  from more [OF acquired_ledger_ok [OF ok a(1)]] run None a acquired_nil_trans [OF a(1)] show ?thesis by auto
next
  case (Some r)
  with get_clear [OF ok, of E p r m1] g have a: "acquired m [] (pq_clear r m1)" "fresh (pq_clear r m1) = fresh m + 1"
    by auto
  from more [OF acquired_ledger_ok [OF ok a(1)], of "k - 1"] run Some a k acquired_nil_trans [OF a(1)] show ?thesis by auto
qed

lemma pipeline_drain_ledger:
  "ledger_ok m \<Longrightarrow> pipeline_drain n E c p sock h d k m = Some (st, m') \<Longrightarrow>
   acquired m [] m' \<and> (st = WORKER_PORT_OK \<longrightarrow> fresh m' = fresh m + nat k)"
proof (induction n arbitrary: k m)
  case 0
  then show ?case by (auto split: if_splits)
next
  case (Suc n)
  obtain b m1 where b: "on_ext (load_shutdown E c p) m = (b, m1)"
    by (cases "on_ext (load_shutdown E c p) m")
  obtain y m2 where y: "on_ext (PQisBusy E p) m1 = (y, m2)" by (cases "on_ext (PQisBusy E p) m1")
  obtain r m3 where r: "on_ext (wait_io E sock False h d) m2 = (r, m3)"
    by (cases "on_ext (wait_io E sock False h d) m2")
  obtain q m4 where q: "on_ext (PQconsumeInput E p) m3 = (q, m4)"
    by (cases "on_ext (PQconsumeInput E p) m3")
  obtain g m5 where g: "pq_getResult E p m2 = (g, m5)" by (cases "pq_getResult E p m2")
  note a = acquired_nil_on_ext [OF b] acquired_nil_on_ext [OF y] acquired_nil_on_ext [OF r]
    acquired_nil_on_ext [OF q]
  have ok: "ledger_ok m2" "ledger_ok m3" "ledger_ok m4"
    using Suc.prems(1) on_ext_ledger_ok [OF b] on_ext_ledger_ok [OF y] on_ext_ledger_ok [OF r]
      on_ext_ledger_ok [OF q] by simp_all
  have a2: "acquired m [] m2" using acquired_nil_trans [OF a(1,2)] .
  have a3: "acquired m [] m3" using acquired_nil_trans [OF a2 a(3)] .
  have a4: "acquired m [] m4" using acquired_nil_trans [OF a3 a(4)] .
  have f: "fresh m2 = fresh m" "fresh m3 = fresh m" "fresh m4 = fresh m"
    using on_ext_fresh [OF b] on_ext_fresh [OF y] on_ext_fresh [OF r] on_ext_fresh [OF q] by simp_all
  have go: "acquired m [] m' \<and> (st = WORKER_PORT_OK \<longrightarrow> fresh m' = fresh m + nat k)"
    if "pipeline_drain n E c p sock h d k v = Some (st, m')" "acquired m [] v" "ledger_ok v"
       "fresh v = fresh m" for v
    using Suc.IH [OF that(3,1)] acquired_nil_trans [OF that(2)] that(4) by auto
  have round: ?case if k: "0 < k" and nb: "\<not> b" "\<not> y"
  proof -
    have "pipeline_drain n E c p sock h d (if g = None then k else k - 1) (case g of None \<Rightarrow> m5 | Some r \<Rightarrow> pq_clear r m5) =
        Some (st, m')" using Suc.prems(2) k nb b y g by (auto split: option.splits)
    from pipeline_takes [OF ok(1) g k this Suc.IH] f acquired_nil_trans [OF a2] show ?thesis by simp
  qed
  show ?case
  proof (cases "k \<le> 0")
    case True
    with Suc.prems show ?thesis by auto
  next
    case False
    with Suc.prems a a2 a3 a4 go round b y r q f ok show ?thesis
      by (cases b; cases y; cases r) (auto simp: port_codes split: if_splits)
  qed
qed

section \<open>Multi-read keeps every result, in order\<close>

text \<open>
  What a multi-read is meant to do, without the linked chain and the ledger: the results
  \<open>PQgetResult\<close> delivers are collected in a list, and dropped when the request aborts.
\<close>

fun collect_results ::
  "nat \<Rightarrow> ('w, 'r) pg_env \<Rightarrow> 'r native_conn \<Rightarrow> nat \<Rightarrow> int \<Rightarrow> bool \<Rightarrow> timespec \<Rightarrow> 'r list \<Rightarrow> 'w \<Rightarrow>
   (int \<times> 'r list \<times> 'w) option" where
  "collect_results 0 E c p sock h d rs w = None"
| "collect_results (Suc n) E c p sock h d rs w =
     (case load_shutdown E c p w of
        (True, w1) \<Rightarrow> Some (2, [], pq_cancel E p w1)
      | (False, w1) \<Rightarrow>
          (case PQisBusy E p w1 of
             (True, w2) \<Rightarrow>
               (case wait_io E sock False h d w2 of
                  (Io_expired, w3) \<Rightarrow> Some (2, [], pq_cancel E p w3)
                | (Io_failed, w3) \<Rightarrow> Some (2, [], w3)
                | (Io_again, w3) \<Rightarrow> collect_results n E c p sock h d rs w3
                | (Io_ready _, w3) \<Rightarrow>
                    (case PQconsumeInput E p w3 of
                       (k, w4) \<Rightarrow> if k = 0 then Some (2, [], w4)
                                  else collect_results n E c p sock h d rs w4))
           | (False, w2) \<Rightarrow>
               (case PQgetResult E p w2 of
                  (None, w3) \<Rightarrow> Some (1, rs, w3)
                | (Some r, w3) \<Rightarrow> collect_results n E c p sock h d (rs @ [r]) w3)))"

definition chain_results :: "'r native_conn \<Rightarrow> nat list \<Rightarrow> 'r list" where
  "chain_results c as = map contents (chain_cells c as)"

definition same_but_chain :: "'r native_conn \<Rightarrow> 'r native_conn \<Rightarrow> bool" where
  "same_but_chain c c' \<longleftrightarrow>
     c' = c\<lparr>chain_store := chain_store c', chain_head := chain_head c', chain_tail := chain_tail c'\<rparr>"

lemma same_but_chain_refl [simp, intro]: "same_but_chain c c"
  by (simp add: same_but_chain_def)

lemma same_but_chain_trans: "same_but_chain a b \<Longrightarrow> same_but_chain b c \<Longrightarrow> same_but_chain a c"
  by (cases a, cases b, cases c) (simp add: same_but_chain_def)

lemma free_chain_same [simp]:
  "same_but_chain c (c\<lparr>chain_store := s, chain_head := h, chain_tail := t\<rparr>)"
  by (simp add: same_but_chain_def)

lemma chain_append_same: "native_pool_chain_append c r m = (k, c', m') \<Longrightarrow> same_but_chain c c'"
  by (auto simp: native_pool_chain_append_def same_but_chain_def Let_def split: prod.splits option.splits)

lemma same_but_chain_fields:
  assumes "same_but_chain c c'"
  shows "shutdown_requested c' = shutdown_requested c" "handle_ids c' = handle_ids c"
    "slot_ids c' = slot_ids c" "slot_inv c' = slot_inv c" "pg c' = pg c" "slot_filled c' = slot_filled c"
    "port_id c' = port_id c" "slot_mutex c' = slot_mutex c" "slot_cond c' = slot_cond c"
proof -
  note eq = assms [unfolded same_but_chain_def]
  show "shutdown_requested c' = shutdown_requested c" "pg c' = pg c" "slot_filled c' = slot_filled c"
    "port_id c' = port_id c" "slot_mutex c' = slot_mutex c" "slot_cond c' = slot_cond c"
    by (subst eq, simp)+
  show "handle_ids c' = handle_ids c" by (subst eq, simp add: handle_ids_def)
  show "slot_ids c' = slot_ids c" by (subst eq, simp add: slot_ids_def)
  show "slot_inv c' = slot_inv c"
    by (subst eq, simp add: slot_inv_def full_slot_def clean_slot_def split: option.split)
qed

lemma same_but_chain_load: "same_but_chain c c' \<Longrightarrow> load_shutdown E c' p = load_shutdown E c p"
  by (intro ext) (simp add: load_shutdown_def same_but_chain_fields)

text \<open>
  The state of the drain: relative to \<open>m0\<close>, which owns no chain, exactly the nodes and
  results of the chain have been acquired.
\<close>

definition chain_since :: "'w mach \<Rightarrow> 'r native_conn \<Rightarrow> nat list \<Rightarrow> 'w mach \<Rightarrow> bool" where
  "chain_since m0 c as m \<longleftrightarrow> chain_inv c as \<and> acquired m0 (chain_ids c as) m"

lemma abort_chain_since:
  assumes "ledger_ok m0" "chain_since m0 c as m" "abort_chain c m = Some (st, c', m')"
  shows "st = 2 \<and> chain_since m0 c' [] m' \<and> same_but_chain c c'"
proof -
  have "chain_inv c as" "acquired m0 (chain_ids c as) m"
    using assms(2) by (simp_all add: chain_since_def)
  moreover from this have "acquired m0 [] (free_all (chain_ids c as) m)"
    using acquired_free_every [OF assms(1), of "chain_ids c as" m "chain_ids c as"]
    by (simp add: acquired_def)
  ultimately show ?thesis
    using assms(3) by (auto simp: abort_chain_def free_result_chain_eq port_codes chain_since_def
        chain_inv_empty)
qed

lemma append_since:
  assumes ok: "ledger_ok m0" and ch: "chain_since m0 c as m"
    and g: "pq_getResult E p m = (Some r, m1)"
    and app: "native_pool_chain_append c r m1 = (k, c', m2)"
  shows "if k = 0 then c' = c \<and> chain_since m0 c as (pq_clear r m2)
    else \<exists>bs. chain_since m0 c' bs m2 \<and> chain_results c' bs = chain_results c as @ [contents r]"
proof -
  have inv: "chain_inv c as" and acq: "acquired m0 (chain_ids c as) m"
    using ch by (simp_all add: chain_since_def)
  have ar: "acquired m [addr r] m1"
    using g pq_result_Some unfolding pq_getResult_def by blast
  have okm: "ledger_ok m" "ledger_ok m1"
    using acquired_ledger_ok [OF ok acq] acquired_ledger_ok [OF _ ar] by auto
  have live: "set as \<subseteq> live m1"
    using acq ar set_chain_ids [of as c] by (auto simp: acquired_def)
  show ?thesis
  proof (cases "k = 0")
    case True
    with app have c': "c' = c" and "acquired m1 [] m2"
      using chain_append_oom [of c r m1 c' m2] by simp_all
    then have "acquired m [] (free_all [addr r] m2)"
      using acquired_rollback [OF okm(1) ar] by blast
    then have "acquired m0 (chain_ids c as) (pq_clear r m2)"
      using acquired_trans [OF acq, of "[]"] by (simp add: pq_clear_def)
    with True c' inv show ?thesis by (simp add: chain_since_def)
  next
    case False
    with app chain_append_result [OF app] obtain b where b: "chain_inv c' (as @ [b])"
      "acquired m1 [b] m2" "node_cell c' b = r" "\<forall>a \<in> set as. node_cell c' a = node_cell c a"
      using chain_append_ok [OF inv live okm(2), of r c' m2] by auto
    have ids: "chain_ids c' (as @ [b]) = chain_ids c as @ [addr r, b]"
      using b(3,4) by (simp add: chain_ids_def cong: map_cong)
    have "acquired m0 (chain_ids c as @ [addr r, b]) m2"
      using acquired_trans [OF acq acquired_trans [OF ar b(2)]] by simp
    moreover have "chain_results c' (as @ [b]) = chain_results c as @ [contents r]"
      using b(3,4) by (simp add: chain_results_def chain_cells_def)
    ultimately show ?thesis
      using False b(1) ids by (intro exI [of _ "as @ [b]"] conjI | simp add: chain_since_def)+
  qed
qed

lemma on_ext_since: "on_ext f m = (r, m1) \<Longrightarrow> chain_since m0 c as m1 = chain_since m0 c as m"
  by (simp add: chain_since_def on_ext_acquired)

lemma since_ext [simp]: "chain_since m0 c as (m\<lparr>ext := w\<rparr>) = chain_since m0 c as m"
  by (simp add: chain_since_def)

lemma get_none_since:
  "pq_getResult E p m = (None, m1) \<Longrightarrow> chain_since m0 c as m \<Longrightarrow> chain_since m0 c as m1"
  using acquired_trans [of m0 "chain_ids c as" m "[]" m1] get_none [of E p m m1]
  by (simp add: chain_since_def)

lemma get_ext: "pq_getResult E p m = (r, m1) \<Longrightarrow> PQgetResult E p (ext m) = (map_option contents r, ext m1)"
  by (auto simp: pq_getResult_def pq_result_def rnew_def split: prod.splits option.splits)

lemma append_ext: "native_pool_chain_append c r m = (k, c', m') \<Longrightarrow> ext m' = ext m"
  by (auto simp: native_pool_chain_append_def Let_def dest: halloc_frame split: prod.splits option.splits)

text \<open>
  The drain loop against \<open>collect_results\<close>: whatever the outcome, exactly the chain is
  owned; after an abort the chain is empty; after success it is the list of results.
\<close>

definition drained ::
  "'w mach \<Rightarrow> 'r native_conn \<Rightarrow> (int \<times> 'r list \<times> 'w) option \<Rightarrow> int \<times> 'r native_conn \<times> 'w mach \<Rightarrow> bool"
where
  "drained m0 c spec res \<longleftrightarrow>
     (case res of (st, c', m') \<Rightarrow> same_but_chain c c' \<and>
        (\<exists>bs. chain_since m0 c' bs m' \<and>
           (if st = 1 then spec = Some (1, chain_results c' bs, ext m') else st = 2 \<and> bs = [])))"

lemma abort_drained:
  "ledger_ok m0 \<Longrightarrow> chain_since m0 c as m \<Longrightarrow> abort_chain c m = Some res \<Longrightarrow> drained m0 c spec res"
  by (cases res) (auto simp: drained_def dest!: abort_chain_since)

lemma drained_from: "same_but_chain c c1 \<Longrightarrow> drained m0 c1 spec res \<Longrightarrow> drained m0 c spec res"
  by (auto simp: drained_def intro: same_but_chain_trans)

lemma collect_same: "same_but_chain c c' \<Longrightarrow> collect_results n E c' = collect_results n E c"
proof (induction n)
  case 0
  then show ?case by (intro ext) simp
next
  case (Suc n)
  then show ?case
    by (intro ext) (simp only: collect_results.simps same_but_chain_load)
qed

text \<open>One round of the drain: taking a result, or waiting for the socket.\<close>

lemma multi_drain_takes:
  assumes ok: "ledger_ok m0" and ch: "chain_since m0 c as m" and g: "pq_getResult E p m = (g, m1)"
    and run: "(case g of None \<Rightarrow> Some (WORKER_PORT_OK, c, m1)
       | Some r \<Rightarrow> (case native_pool_chain_append c r m1 of (k, c1, m2) \<Rightarrow>
           if k = 0 then abort_chain c1 (pq_clear r m2) else multi_drain n E p sock h d c1 m2)) = Some res"
    and more: "\<And>c as m. chain_since m0 c as m \<Longrightarrow> multi_drain n E p sock h d c m = Some res \<Longrightarrow>
      drained m0 c (collect_results n E c p sock h d (chain_results c as) (ext m)) res"
  shows "drained m0 c (case PQgetResult E p (ext m) of (None, w) \<Rightarrow> Some (1, chain_results c as, w)
    | (Some r, w) \<Rightarrow> collect_results n E c p sock h d (chain_results c as @ [r]) w) res"
proof (cases g)
  case None
  with run have "res = (1, c, m1)" by (simp add: port_codes)
  with get_none_since [of E p m m1] ch g None get_ext [OF g] show ?thesis by (auto simp: drained_def)
next
  case (Some r)
  obtain k c1 m2 where app: "native_pool_chain_append c r m1 = (k, c1, m2)"
    by (cases "native_pool_chain_append c r m1") auto
  note since = append_since [OF ok ch g [unfolded Some] app]
  show ?thesis
  proof (cases "k = 0")
    case True
    then have "abort_chain c (pq_clear r m2) = Some res" "chain_since m0 c as (pq_clear r m2)"
      using run Some app since by simp_all
    with abort_drained [OF ok] show ?thesis by blast
  next
    case False
    then obtain bs where bs: "chain_since m0 c1 bs m2" "chain_results c1 bs = chain_results c as @ [contents r]"
      using since by auto
    have "multi_drain n E p sock h d c1 m2 = Some res" using False run Some app by simp
    from more [OF bs(1) this] bs(2) append_ext [OF app] chain_append_same [OF app] get_ext [OF g] Some show ?thesis
      by (simp add: collect_same drained_from)
  qed
qed

lemma multi_drain_waits:
  assumes ok: "ledger_ok m0" and ch: "chain_since m0 c as m"
    and run: "(case on_ext (wait_io E sock False h d) m of
         (Io_expired, m1) \<Rightarrow> abort_chain c (m1\<lparr>ext := pq_cancel E p (ext m1)\<rparr>)
       | (Io_failed, m1) \<Rightarrow> abort_chain c m1
       | (Io_again, m1) \<Rightarrow> multi_drain n E p sock h d c m1
       | (Io_ready _, m1) \<Rightarrow> (let (k, m2) = on_ext (PQconsumeInput E p) m1 in
           if k = 0 then abort_chain c m2 else multi_drain n E p sock h d c m2)) = Some res"
    and more: "\<And>m. chain_since m0 c as m \<Longrightarrow> multi_drain n E p sock h d c m = Some res \<Longrightarrow>
      drained m0 c (collect_results n E c p sock h d rs (ext m)) res"
  shows "drained m0 c (case wait_io E sock False h d (ext m) of
       (Io_expired, w) \<Rightarrow> Some (2, [], pq_cancel E p w) | (Io_failed, w) \<Rightarrow> Some (2, [], w)
     | (Io_again, w) \<Rightarrow> collect_results n E c p sock h d rs w
     | (Io_ready _, w) \<Rightarrow> (case PQconsumeInput E p w of (k, w1) \<Rightarrow>
         if k = 0 then Some (2, [], w1) else collect_results n E c p sock h d rs w1)) res"
proof -
  obtain r m1 where r: "on_ext (wait_io E sock False h d) m = (r, m1)" by (cases "on_ext (wait_io E sock False h d) m")
  obtain k m2 where k: "on_ext (PQconsumeInput E p) m1 = (k, m2)" by (cases "on_ext (PQconsumeInput E p) m1")
  note w = on_ext_mach [OF r, THEN conjunct2] on_ext_mach [OF k, THEN conjunct2]
  have s: "chain_since m0 c as m1" "chain_since m0 c as m2" by (simp_all add: ch on_ext_since [OF r] on_ext_since [OF k])
  have abort: "drained m0 c spec res" if "abort_chain c v = Some res" "chain_since m0 c as v" for v spec
    using abort_drained [OF ok that(2,1)] .
  show ?thesis
  proof (cases r)
    case Io_expired
    then have "abort_chain c (m1\<lparr>ext := pq_cancel E p (ext m1)\<rparr>) = Some res" using run r by simp
    then show ?thesis by (rule abort) (simp add: s)
  next
    case Io_failed
    then have "abort_chain c m1 = Some res" using run r by simp
    then show ?thesis by (rule abort) (simp add: s)
  next
    case Io_again
    then have "multi_drain n E p sock h d c m1 = Some res" using run r by simp
    from more [OF s(1) this] w Io_again show ?thesis by simp
  next
    case (Io_ready x)
    show ?thesis
    proof (cases "k = 0")
      case True
      then have "abort_chain c m2 = Some res" using run r k Io_ready by simp
      then show ?thesis by (rule abort) (simp add: s)
    next
      case False
      then have "multi_drain n E p sock h d c m2 = Some res" using run r k Io_ready by simp
      from more [OF s(2) this] w Io_ready False show ?thesis by simp
    qed
  qed
qed

lemma multi_drain_refines:
  assumes ok: "ledger_ok m0"
  shows "chain_since m0 c as m \<Longrightarrow> multi_drain n E p sock h d c m = Some res \<Longrightarrow>
    drained m0 c (collect_results n E c p sock h d (chain_results c as) (ext m)) res"
proof (induction n arbitrary: c as m)
  case 0
  then show ?case by simp
next
  case (Suc n)
  obtain b m1 where b: "on_ext (load_shutdown E c p) m = (b, m1)" by (cases "on_ext (load_shutdown E c p) m")
  obtain y m2 where y: "on_ext (PQisBusy E p) m1 = (y, m2)" by (cases "on_ext (PQisBusy E p) m1")
  obtain g m3 where g: "pq_getResult E p m2 = (g, m3)" by (cases "pq_getResult E p m2")
  note w = on_ext_mach [OF b, THEN conjunct2] on_ext_mach [OF y, THEN conjunct2]
  have s: "chain_since m0 c as m1" "chain_since m0 c as m2"
    by (simp_all add: Suc.prems(1) on_ext_since [OF b] on_ext_since [OF y])
  consider b | "\<not> b" y | "\<not> b" "\<not> y" by blast
  then show ?case
  proof cases
    case 1
    then have "abort_chain c (m1\<lparr>ext := pq_cancel E p (ext m1)\<rparr>) = Some res" using Suc.prems(2) b by simp
    then show ?thesis by (rule abort_drained [OF ok, where as = as, rotated]) (simp add: s)
  next
    case 2
    then have "(case on_ext (wait_io E sock False h d) m2 of
         (Io_expired, m1) \<Rightarrow> abort_chain c (m1\<lparr>ext := pq_cancel E p (ext m1)\<rparr>)
       | (Io_failed, m1) \<Rightarrow> abort_chain c m1
       | (Io_again, m1) \<Rightarrow> multi_drain n E p sock h d c m1
       | (Io_ready _, m1) \<Rightarrow> (let (k, m2) = on_ext (PQconsumeInput E p) m1 in
           if k = 0 then abort_chain c m2 else multi_drain n E p sock h d c m2)) = Some res"
      using Suc.prems(2) b y by simp
    from multi_drain_waits [OF ok s(2) this Suc.IH] w 2 show ?thesis by simp
  next
    case 3
    then have "(case g of None \<Rightarrow> Some (WORKER_PORT_OK, c, m3)
       | Some r \<Rightarrow> (case native_pool_chain_append c r m3 of (k, c1, m4) \<Rightarrow>
           if k = 0 then abort_chain c1 (pq_clear r m4) else multi_drain n E p sock h d c1 m4)) = Some res"
      using Suc.prems(2) b y g by simp
    from multi_drain_takes [OF ok s(2) g this Suc.IH] w 3 show ?thesis by simp
  qed
qed

text \<open>The whole request: one send of the joined text, then the results.\<close>

definition multi_read_spec ::
  "nat \<Rightarrow> ('w, 'r) pg_env \<Rightarrow> 'r native_conn \<Rightarrow> nat \<Rightarrow> string list \<Rightarrow> int \<Rightarrow> 'w \<Rightarrow>
   (int \<times> 'r list \<times> 'w) option" where
  "multi_read_spec n E c p qs t w =
     (case PQsendQuery E p (c_string (semis qs @ [CHR 0x00])) w of
        (k, w1) \<Rightarrow>
          if k \<noteq> 1 then Some (2, [], w1)
          else (case start_deadline E t w1 of
             (d, w2) \<Rightarrow>
               (case flush_outgoing n E c p (PQsocket E p w) (t > 0) d w2 of
                  None \<Rightarrow> None
                | Some (st, w3) \<Rightarrow>
                    if st \<noteq> 1 then Some (2, [], w3)
                    else collect_results n E c p (PQsocket E p w) (t > 0) d [] w3)))"

lemma flush_same: "same_but_chain c c' \<Longrightarrow> flush_outgoing n E c' = flush_outgoing n E c"
proof (induction n)
  case 0
  then show ?case by (intro ext) simp
next
  case (Suc n)
  then show ?case
    by (intro ext) (simp only: flush_outgoing.simps same_but_chain_load)
qed

lemma rfree_ext_field [simp]: "ext (rfree a m) = ext m"
  by (simp add: rfree_def)

text \<open>From the send on, with the joined text given back.\<close>

lemma multi_read_dispatch:
  assumes ok: "ledger_ok m0" and since: "chain_since m0 c [] m" and d: "on_ext (start_deadline E t) m = (d, m1)"
    and run: "(if rc \<noteq> 1 then Some (2, c, m)
       else case flush_outgoing n E c p sock h d (ext m1) of
          None \<Rightarrow> None
        | Some (st, w) \<Rightarrow>
            (if st \<noteq> WORKER_PORT_OK then abort_chain c (m1\<lparr>ext := w\<rparr>)
             else multi_drain n E p sock h d c (m1\<lparr>ext := w\<rparr>))) = Some res"
  shows "drained m0 c (if rc \<noteq> 1 then Some (2, [], ext m)
      else case flush_outgoing n E c p sock h d (ext m1) of None \<Rightarrow> None
        | Some (st, w) \<Rightarrow> if st \<noteq> 1 then Some (2, [], w) else collect_results n E c p sock h d [] w) res"
proof (cases "rc = 1")
  case False
  with run since show ?thesis by (auto simp: drained_def)
next
  case True
  have since1: "chain_since m0 c [] m1" using since by (simp add: on_ext_since [OF d])
  obtain st w where f: "flush_outgoing n E c p sock h d (ext m1) = Some (st, w)"
    using run True by (auto split: option.splits)
  show ?thesis
  proof (cases "st = 1")
    case False
    then have "abort_chain c (m1\<lparr>ext := w\<rparr>) = Some res" using run True f by (simp add: port_codes)
    then show ?thesis by (rule abort_drained [OF ok, where as = "[]", rotated]) (use since1 in simp)
  next
    case stOK: True
    then have "multi_drain n E p sock h d c (m1\<lparr>ext := w\<rparr>) = Some res" using run True f by (simp add: port_codes)
    from multi_drain_refines [OF ok _ this, of "[]"] since1 stOK True f show ?thesis
      by (simp add: chain_results_def chain_cells_def)
  qed
qed

lemma execute_multi_read_refines:
  assumes ok: "ledger_ok m" and inv: "chain_inv c as" and own: "set (chain_ids c as) \<subseteq> live m"
    "distinct (chain_ids c as)"
    and qs: "nat k \<le> length qs"
    and sock: "\<not> PQsocket E p (ext m) < 0"
    and run: "execute_multi_read n E c p qs k t m = Some res"
  shows "drained (free_all (chain_ids c as) m) c (multi_read_spec n E c p (take (nat k) qs) t (ext m)) res"
proof -
  define m1 where "m1 = free_all (chain_ids c as) m"
  define c1 where "c1 = c\<lparr>chain_store := [], chain_head := None, chain_tail := None\<rparr>"
  define qv where "qv = take (nat k) qs"
  have fr: "native_pool_free_result_chain c m = (c1, m1)"
    by (simp add: m1_def c1_def free_result_chain_eq [OF inv])
  have ok1: "ledger_ok m1"
    using released_ledger_ok [OF ok free_all_released [OF own(2,1)]] by (simp add: m1_def)
  have same: "same_but_chain c c1" by (simp add: c1_def)
  have inv1: "chain_inv c1 []" by (simp add: c1_def chain_inv_empty)
  have e1: "ext m1 = ext m" by (simp add: m1_def ledger)
  obtain j m3 where j: "join_with_semicolons qv m1 = (j, m3)" by (cases "join_with_semicolons qv m1")
  have e3: "ext m3 = ext m1"
    using j by (auto simp: join_with_semicolons_def join_copy_ext Let_def write_bytes_def
        split: prod.splits option.splits dest: halloc_frame)
  have finish: ?thesis if "drained m1 c1 (multi_read_spec n E c p qv t (ext m)) res"
    using drained_from [OF same that] by (simp add: m1_def qv_def)
  show ?thesis
  proof (cases j)
    case None
    then have "res = (2, c1, m3)"
      using run fr j qs sock
      by (auto simp: execute_multi_read_def read_array_enough qv_def port_codes)
    then show ?thesis
      using join_with_semicolons_None [of qv m1 m3] j None inv1
      by (intro finish) (auto simp: drained_def chain_since_def)
  next
    case (Some buf)
    note js = join_with_semicolons_Some [OF j [unfolded Some]]
    obtain rc m4 where snd: "on_ext (PQsendQuery E p (c_string (contents buf))) m3 = (rc, m4)"
      by (cases "on_ext (PQsendQuery E p (c_string (contents buf))) m3")
    let ?m5 = "rfree (addr buf) m4"
    have "acquired m1 [addr buf] m4"
      using js by (simp add: on_ext_acquired [OF snd])
    then have since: "chain_since m1 c1 [] ?m5"
      using acquired_rfree_one [OF ok1] inv1 by (simp add: chain_since_def)
    have w1: "PQsendQuery E p (c_string (semis qv @ [CHR 0x00])) (ext m) = (rc, ext ?m5)"
      using on_ext_mach [OF snd] js e1 e3 by simp
    obtain d m6 where d: "on_ext (start_deadline E t) ?m5 = (d, m6)"
      by (cases "on_ext (start_deadline E t) ?m5")
    have "(if rc \<noteq> 1 then Some (2, c1, ?m5)
       else case flush_outgoing n E c1 p (PQsocket E p (ext m)) (t > 0) d (ext m6) of
          None \<Rightarrow> None
        | Some (st, w) \<Rightarrow>
            (if st \<noteq> WORKER_PORT_OK then abort_chain c1 (m6\<lparr>ext := w\<rparr>)
             else multi_drain n E p (PQsocket E p (ext m)) (t > 0) d c1 (m6\<lparr>ext := w\<rparr>))) = Some res"
      using run fr j Some snd d qs sock
      by (cases "rc = 1") (simp_all add: execute_multi_read_def read_array_enough qv_def port_codes Let_def)
    from multi_read_dispatch [OF ok1 since d this, unfolded collect_same [OF same] flush_same [OF same]] w1 on_ext_mach [OF d, THEN conjunct2] show ?thesis
      by (intro finish, cases "rc = 1") (simp_all add: multi_read_spec_def)
  qed
qed

section \<open>A round keeps what the connection owns\<close>

lemma rollback_if_inerror_acquired: "ledger_ok m \<Longrightarrow> acquired m [] (rollback_if_inerror E p m)"
  by (auto simp: rollback_if_inerror_def pq_exec_def pq_clear_def split: prod.splits option.splits
      dest!: pq_result_Some pq_result_None intro: acquired_rfree_one)

lemma exit_pipeline_acquired [simp]: "acquired m0 xs (exit_pipeline E p m) = acquired m0 xs m"
  by (simp add: exit_pipeline_def on_ext_def split: prod.split)

lemma pipeline_acquired:
  assumes ok: "ledger_ok m" and k: "nat k \<le> length qs"
    and run: "execute_pipeline n E c p qs k t m = Some (st, m')"
  shows "acquired m [] m'"
proof -
  obtain k1 m1 where e: "on_ext (PQenterPipelineMode E p) m = (k1, m1)"
    by (cases "on_ext (PQenterPipelineMode E p) m")
  obtain s m3 where s: "on_ext (send_all E p (take (nat k) qs)) m1 = (s, m3)"
    by (cases "on_ext (send_all E p (take (nat k) qs)) m1")
  obtain k4 m4 where y: "on_ext (PQpipelineSync E p) m3 = (k4, m4)"
    by (cases "on_ext (PQpipelineSync E p) m3")
  obtain d m5 where d: "on_ext (start_deadline E t) m4 = (d, m5)"
    by (cases "on_ext (start_deadline E t) m4")
  have a: "acquired m [] m1" "acquired m [] m3" "acquired m [] m4" "acquired m [] m5"
    by (simp_all add: on_ext_acquired [OF e] on_ext_acquired [OF s] on_ext_acquired [OF y]
        on_ext_acquired [OF d])
  have drain: "acquired m [] m'"
    if "pipeline_drain n E c p x h d j (m5\<lparr>ext := w\<rparr>) = Some (st', m7)"
       "m' = rollback_if_inerror E p (exit_pipeline E p m7)" for x h j w st' m7
  proof -
    have a6: "acquired m [] (m5\<lparr>ext := w\<rparr>)" using a(4) by simp
    have "acquired (m5\<lparr>ext := w\<rparr>) [] m7"
      using pipeline_drain_ledger [OF acquired_ledger_ok [OF ok a6] that(1)] by simp
    with acquired_nil_trans [OF a6] have a7: "acquired m [] (exit_pipeline E p m7)" by simp
    then show ?thesis
      using acquired_nil_trans [OF a7 rollback_if_inerror_acquired [OF acquired_ledger_ok [OF ok a7]]]
      by (simp add: that(2))
  qed
  show ?thesis
    using run e s y d a drain k
    by (auto simp: execute_pipeline_def read_array_enough Let_def split: if_splits option.splits)
qed

text \<open>\<open>kept\<close>: handles and slot are as before, and the chain is the only other thing owned.\<close>

definition kept ::
  "'r native_conn \<Rightarrow> nat list \<Rightarrow> 'w mach \<Rightarrow> 'r native_conn \<Rightarrow> nat list \<Rightarrow> 'w mach \<Rightarrow> bool" where
  "kept c as m c' bs m' \<longleftrightarrow>
     conn_owned c' bs m' \<and> ledger_ok m' \<and> handle_ids c' = handle_ids c \<and>
     live m' - set (conn_ids c' bs) = live m - set (conn_ids c as) \<and>
     held m' = held m \<and> fault m' = fault m \<and> fresh m \<le> fresh m'"

lemma kept_quiet:
  "conn_owned c as m \<Longrightarrow> ledger_ok m \<Longrightarrow> acquired m [] m' \<Longrightarrow> kept c as m c as m'"
  using acquired_ledger_ok [of m "[]" m']
  by (auto simp: kept_def conn_owned_def acquired_def)

lemma kept_drained:
  assumes own: "conn_owned c as m" and ok: "ledger_ok m"
    and dr: "drained (free_all (chain_ids c as) m) c spec (st, c', m')"
  shows "\<exists>bs. kept c as m c' bs m'"
proof -
  let ?m0 = "free_all (chain_ids c as) m"
  from dr obtain bs where same: "same_but_chain c c'" and inv: "chain_inv c' bs"
    and acq: "acquired ?m0 (chain_ids c' bs) m'"
    by (auto simp: drained_def chain_since_def)
  have rel: "released m (set (chain_ids c as)) ?m0"
    using own by (intro free_all_released) (auto simp: conn_owned_def conn_ids_def)
  note f = same_but_chain_fields [OF same]
  have ok0: "ledger_ok ?m0" using released_ledger_ok [OF ok rel] .
  have new: "set (chain_ids c' bs) \<inter> live ?m0 = {}"
    using acq ok0 by (force simp: acquired_def ledger_ok_def)
  have old: "set (handle_ids c @ slot_ids c) \<subseteq> live ?m0" "distinct (handle_ids c @ slot_ids c)"
    using own rel by (auto simp: conn_owned_def conn_ids_def released_def)
  have "live m' - set (conn_ids c' bs) = live ?m0 - set (handle_ids c @ slot_ids c)"
    using acq new by (auto simp: acquired_def conn_ids_def f)
  also have "\<dots> = live m - set (conn_ids c as)"
    using rel by (auto simp: released_def conn_ids_def)
  finally have live: "live m' - set (conn_ids c' bs) = live m - set (conn_ids c as)" .
  have "distinct (conn_ids c' bs)" "set (conn_ids c' bs) \<subseteq> live m'"
    using acq old new by (auto simp: acquired_def conn_ids_def f)
  then have "conn_owned c' bs m'"
    using own inv by (simp add: conn_owned_def f)
  with live acq rel acquired_ledger_ok [OF ok0 acq] show ?thesis
    by (intro exI [of _ bs]) (simp add: kept_def f acquired_def released_def)
qed

lemma full_slot_sql:
  "full_slot c \<Longrightarrow> slot_sql c \<noteq> [] \<and> nat (sql_count c) \<le> length (slot_sql c)"
  by (auto simp: full_slot_def slot_sql_def)

lemma worker_execute_kept:
  assumes own: "conn_owned c as m" and ok: "ledger_ok m" and full: "slot_filled c"
    and run: "worker_execute n E p c m = Some (st, c', m')"
  shows "same_but_chain c c' \<and> (\<exists>bs. kept c as m c' bs m')"
proof -
  have "full_slot c"
    using own full by (simp add: conn_owned_def slot_inv_def)
  note sql = full_slot_sql [OF this]
  then obtain q qs where q: "slot_sql c = q # qs" by (cases "slot_sql c") auto
  then have first: "first_sql c m = (q, m)" by (simp add: first_sql_def)
  have quiet: "same_but_chain c c' \<and> (\<exists>bs. kept c as m c' bs m')"
    if "c' = c" "acquired m [] m'"
    using kept_quiet [OF own ok that(2)] that(1) by auto
  show ?thesis
  proof (cases "is_params c \<or> \<not> is_multi_read c")
    case True
    then show ?thesis
      using run first sql pipeline_acquired [OF ok, of "sql_count c" "slot_sql c" n E c p "timeout_ms c" st m']
      by (intro quiet) (auto simp: worker_execute_def lift_ext_def split: option.splits if_splits prod.splits)
  next
    case False
    then have run: "execute_multi_read n E c p (slot_sql c) (sql_count c) (timeout_ms c) m = Some (st, c', m')"
      using run by (simp add: worker_execute_def)
    show ?thesis
    proof (cases "PQsocket E p (ext m) < 0")
      case True
      with run show ?thesis
        by (intro quiet) (auto simp: execute_multi_read_def)
    next
      case sock: False
      have "drained (free_all (chain_ids c as) m) c
          (multi_read_spec n E c p (take (nat (sql_count c)) (slot_sql c)) (timeout_ms c) (ext m)) (st, c', m')"
        using own sql by (intro execute_multi_read_refines [OF ok _ _ _ _ sock run])
          (auto simp: conn_owned_def conn_ids_def)
      with kept_drained [OF own ok this] show ?thesis
        by (simp add: drained_def)
    qed
  qed
qed

text \<open>Clearing the slot gives back its payload and signals the submitters.\<close>

lemma worker_clear_eq:
  assumes own: "conn_owned c as m" and nh: "slot_mutex c \<notin> held m"
  shows "\<exists>c' m'. worker_clear c m = (c', m') \<and> conn_owned c' as m' \<and> \<not> slot_filled c' \<and>
    clean_slot c' \<and> handle_ids c' = handle_ids c \<and> shutdown_requested c' = shutdown_requested c \<and>
    released m (set (slot_ids c)) m' \<and> signals m' = slot_cond c # signals m \<and>
    chain_ids c' as = chain_ids c as"
proof -
  let ?m1 = "mutex_lock (slot_mutex c) m"
  have "slot_inv c" using own by (simp add: conn_owned_def)
  then obtain c1 where c1: "native_pool_free_slot_payload c ?m1 = (c1, free_all (slot_ids c) ?m1)"
      "clean_slot c1"
    using free_slot_payload_eq by blast
  have same: "handle_ids c1 = handle_ids c" "shutdown_requested c1 = shutdown_requested c" "pg c1 = pg c"
    using c1(1) by (auto simp: native_pool_free_slot_payload_def handle_ids_def Let_def)
  let ?c' = "c1\<lparr>slot_filled := False\<rparr>"
  let ?m' = "mutex_unlock (slot_mutex c) (cond_signal (slot_cond c) (free_all (slot_ids c) ?m1))"
  have ch: "chain_inv ?c' as" "chain_ids ?c' as = chain_ids c as"
    using own chain_frame(1,2) [of ?c' c as] free_slot_payload_frame [OF c1(1)]
    by (simp_all add: conn_owned_def)
  have rel: "released m (set (slot_ids c)) ?m'"
    using own nh by (auto simp: conn_owned_def conn_ids_def released_def mutex_lock_def mutex_unlock_def
        cond_signal_def free_all_live free_all_frame)
  have ids: "conn_ids ?c' as = handle_ids c @ chain_ids c as"
    using c1(2) ch(2) same by (simp add: conn_ids_def handle_ids_def clean_slot_def slot_ids_def)
  have "conn_owned ?c' as ?m'"
    using own rel ids ch(1) c1(2) same
    by (auto simp: conn_owned_def conn_ids_def released_def slot_inv_def clean_slot_def)
  moreover have "signals ?m' = slot_cond c # signals m"
    by (simp add: ledger)
  ultimately show ?thesis
    using rel c1 ch(2) same by (auto simp: worker_clear_def Let_def handle_ids_def clean_slot_def)
qed

lemma kept_clear:
  assumes k: "kept c as m c1 bs m1" and cl: "released m1 (set (slot_ids c1)) m2"
    and own: "conn_owned c2 bs m2" and c2: "clean_slot c2" "handle_ids c2 = handle_ids c1"
      "chain_ids c2 bs = chain_ids c1 bs"
  shows "kept c as m c2 bs m2"
proof -
  have "set (conn_ids c1 bs) = set (conn_ids c2 bs) \<union> set (slot_ids c1)"
    using c2 by (auto simp: conn_ids_def clean_slot_ids)
  then have "live m2 - set (conn_ids c2 bs) = live m1 - set (conn_ids c1 bs)"
    using cl by (auto simp: released_def)
  with k cl own c2(2) released_ledger_ok [OF _ cl] show ?thesis
    by (auto simp: kept_def released_def)
qed

lemma worker_round_kept:
  assumes own: "conn_owned c as m" and ok: "ledger_ok m" and full: "slot_filled c"
    and nh: "slot_mutex c \<notin> held m" and run: "worker_round n E c m = Some (msg, c', m')"
  shows "fst msg = port_id c \<and> (snd msg = 1 \<or> snd msg = 2) \<and> clean_slot c' \<and> \<not> slot_filled c' \<and>
    shutdown_requested c' = shutdown_requested c \<and> (\<exists>bs. kept c as m c' bs m')"
proof -
  obtain st c1 m1 where ex: "worker_execute n E (the (pg c)) c m = Some (st, c1, m1)"
    using run nh by (auto simp: worker_round_def lock_frame_eq split: option.splits prod.splits)
  from worker_execute_kept [OF own ok full ex] obtain bs where same: "same_but_chain c c1"
    and k: "kept c as m c1 bs m1"
    by blast
  note f = same_but_chain_fields [OF same]
  have "conn_owned c1 bs m1" "slot_mutex c1 \<notin> held m1"
    using k nh by (simp_all add: kept_def f)
  from worker_clear_eq [OF this] obtain c2 m2 where cl: "worker_clear c1 m1 = (c2, m2)"
    and c2: "conn_owned c2 bs m2" "\<not> slot_filled c2" "clean_slot c2" "handle_ids c2 = handle_ids c1"
      "shutdown_requested c2 = shutdown_requested c1" "released m1 (set (slot_ids c1)) m2"
      "chain_ids c2 bs = chain_ids c1 bs"
    by blast
  have "msg = (port_id c, st)" "c' = c2" "m' = m2"
    using run nh ex cl by (auto simp: worker_round_def lock_frame_eq)
  with kept_clear [OF k c2(6,1,3,4,7)] worker_execute_code [OF ex] c2 f show ?thesis
    by auto
qed

lemma worker_end_ok_pg:
  fixes E :: "('w, 'r) pg_env"
  shows "worker_end_ok (native_pool_worker_end E)"
  unfolding worker_end_ok_def
proof (intro allI impI)
  fix c :: "'r native_conn" and m :: "'w mach" and as
  assume ok: "ledger_ok m" and nolock: "held m = {}" and own: "conn_owned c as m"
    and stop: "shutdown_requested c"
  show "\<exists>c' m' as'. native_pool_worker_end E c m = (c', m') \<and> conn_owned c' as' m' \<and> ledger_ok m' \<and>
      handle_ids c' = handle_ids c \<and> live m' - set (conn_ids c' as') = live m - set (conn_ids c as) \<and>
      held m' = held m \<and> fault m' = fault m \<and> fresh m \<le> fresh m'"
  proof (cases "slot_filled c")
    case True
    have nh: "slot_mutex c \<notin> held m" using nolock by simp
    have "worker_round 1 E c m \<noteq> None"
      using nh worker_stopping [OF stop, of 0 E "the (pg c)" m]
      by (auto simp: worker_round_def lock_frame_eq split: prod.split)
    then obtain msg c' m' where r: "worker_round 1 E c m = Some (msg, c', m')"
      by (metis not_None_eq surj_pair)
    from worker_round_kept [OF own ok True nh r] show ?thesis
      using True r by (auto simp: native_pool_worker_end_def worker_choose_def kept_def)
  next
    case False
    then have "native_pool_worker_end E c m = (c, m)"
      by (simp add: native_pool_worker_end_def worker_choose_def split: worker_choice.split)
    with own ok show ?thesis by auto
  qed
qed

end
