(* ===== verification/Pg_Machine.thy ===== *)
theory Pg_Machine
  imports Pg_Worker_Laws
begin

text \<open>
  The PostgreSQL driver as an instance of \<open>driver_laws\<close>: its submissions, polls, stops, the
  worker's execution and the clearing of the slot keep what the connection owns, so the
  guarantees of the mailbox hold of it for every interleaving.
\<close>

section \<open>The four submissions as one\<close>

datatype pg_call =
    Call_query "string option"
  | Call_pipeline "string option list" int
  | Call_multi_read "string option list" int
  | Call_params string int "int list option" "string option list" "int list" "int list" int

definition pg_submit ::
  "pg_call \<Rightarrow> int \<Rightarrow> int \<Rightarrow> 'r native_conn \<Rightarrow> 'w mach \<Rightarrow> int \<times> 'r native_conn option \<times> 'w mach" where
  "pg_submit call port t c m =
     (case call of
        Call_query q \<Rightarrow> pool_submit_query (Some c) q port t m
      | Call_pipeline qs n \<Rightarrow> pool_submit_pipeline (Some c) (Some qs) n port t m
      | Call_multi_read qs n \<Rightarrow> pool_submit_multi_read (Some c) (Some qs) n port t m
      | Call_params q n tys vs ls fs rf \<Rightarrow>
          pool_submit_query_params (Some c) (Some q) n tys (if n > 0 then Some vs else None)
            (if n > 0 then Some ls else None) (if n > 0 then Some fs else None) rf port t m)"

text \<open>The caller's side of the contract, and what the call asks for.\<close>

definition call_ok :: "pg_call \<Rightarrow> bool" where
  "call_ok call \<longleftrightarrow>
     (case call of
        Call_query q \<Rightarrow> True
      | Call_pipeline qs n \<Rightarrow> nat n \<le> length qs
      | Call_multi_read qs n \<Rightarrow> nat n \<le> length qs
      | Call_params q n tys vs ls fs rf \<Rightarrow> n > 0 \<longrightarrow> caller_ok n tys vs ls fs)"

definition call_request :: "pg_call \<Rightarrow> pg_request" where
  "call_request call =
     (case call of
        Call_query q \<Rightarrow> Single (the q)
      | Call_pipeline qs n \<Rightarrow> Pipeline (map the (take (nat n) qs))
      | Call_multi_read qs n \<Rightarrow> MultiRead (map the (take (nat n) qs))
      | Call_params q n tys vs ls fs rf \<Rightarrow> WithParams q (params_of n tys vs ls fs rf))"

lemma map_Some_the: "map (\<lambda>q. Some (f q)) xs = ys \<Longrightarrow> map f xs = map the ys"
  by auto

lemma pg_submit_cases:
  assumes ok: "ledger_ok m" and nh: "slot_mutex c \<notin> held m" and inv: "slot_inv c"
    and call: "call_ok call" and res: "pg_submit call port t c m = res"
  shows "submit_refused c m res \<or>
    (submit_accepted c m port t res \<and>
     (\<exists>c' m'. res = (1, Some c', m') \<and> same_but_slot c c' \<and> slot_request c' = call_request call))"
proof -
  have locked: "submit_refused c m (submit_locked (Some c) p mr (Some qs) n port t m) \<or>
      (submit_accepted c m port t (submit_locked (Some c) p mr (Some qs) n port t m) \<and>
       (\<exists>c' m'. submit_locked (Some c) p mr (Some qs) n port t m = (1, Some c', m') \<and>
          same_but_slot c c' \<and> is_pipeline c' = p \<and> is_multi_read c' = mr \<and> \<not> is_params c' \<and>
          slot_sql c' = map the (take (nat n) qs)))"
    if "nat n \<le> length qs" "\<not> (p \<and> mr)" "\<not> p \<and> \<not> mr \<Longrightarrow> n = 1" for p mr qs n
  proof -
    have sql: "slot_sql c' = map the (take (nat n) qs)"
      if "submit_accepted c m port t (k, Some c', m')"
        "map (\<lambda>q. Some (contents q)) (contents (the (sql c'))) = take (nat n) qs" for k c' m'
      using that map_Some_the [OF that(2)]
      by (auto simp: submit_accepted_def slot_inv_def full_slot_def slot_sql_def)
    show ?thesis
      using submit_locked_cases [OF ok nh that(1) inv that(2,3)] sql by fastforce
  qed
  show ?thesis
  proof (cases call)
    case (Call_query q)
    with locked [of 1 "[q]" False False] res show ?thesis
      by (auto simp: pg_submit_def pool_submit_query_def call_request_def slot_request_def)
  next
    case (Call_pipeline qs n)
    with locked [of n qs True False] res call show ?thesis
      by (auto simp: pg_submit_def pool_submit_pipeline_def call_request_def slot_request_def call_ok_def)
  next
    case (Call_multi_read qs n)
    with locked [of n qs False True] res call show ?thesis
      by (auto simp: pg_submit_def pool_submit_multi_read_def call_request_def slot_request_def call_ok_def)
  next
    case (Call_params q n tys vs ls fs rf)
    with submit_params_cases [OF ok nh inv, of n tys vs ls fs q rf port t] res call show ?thesis
      by (auto simp: pg_submit_def call_request_def call_ok_def request_accepted_def)
  qed
qed

section \<open>What each operation keeps\<close>

lemma same_but_slot_fields:
  assumes "same_but_slot c c'"
  shows "shutdown_requested c' = shutdown_requested c" "handle_ids c' = handle_ids c" "pg c' = pg c"
    "chain_store c' = chain_store c" "chain_head c' = chain_head c" "chain_tail c' = chain_tail c"
proof -
  note eq = assms [unfolded same_but_slot_def]
  show "shutdown_requested c' = shutdown_requested c" "pg c' = pg c"
    "chain_store c' = chain_store c" "chain_head c' = chain_head c" "chain_tail c' = chain_tail c"
    by (subst eq, simp)+
  show "handle_ids c' = handle_ids c" by (subst eq, simp add: handle_ids_def)
qed

lemma accepted_owned:
  assumes own: "conn_owned c as m" and ok: "ledger_ok m" and same: "same_but_slot c c'"
    and acc: "submit_accepted c m port t (1, Some c', m')"
  shows "conn_owned c' as m' \<and> ledger_ok m' \<and> held m' = held m \<and> fault m' = fault m"
proof -
  from acc have a: "acquired m (slot_ids c') m'" and s: "\<not> slot_filled c" "slot_inv c'"
    by (auto simp: submit_accepted_def)
  have clean: "slot_ids c = []"
    using own s(1) by (simp add: conn_owned_def slot_inv_def clean_slot_ids)
  have new: "set (slot_ids c') \<inter> live m = {}"
    using a ok by (force simp: acquired_def ledger_ok_def)
  note f = same_but_slot_fields [OF same]
  note ch = chain_frame(1,2) [OF f(4,5,6), of as]
  have "distinct (conn_ids c' as)" "set (conn_ids c' as) \<subseteq> live m'"
    using own a new clean by (auto simp: conn_owned_def conn_ids_def acquired_def f ch)
  with own s(2) a acquired_ledger_ok [OF ok a] show ?thesis
    by (simp add: conn_owned_def f ch acquired_def)
qed

lemma refused_owned:
  "conn_owned c as m \<Longrightarrow> ledger_ok m \<Longrightarrow> submit_refused c m (k, Some c', m') \<Longrightarrow>
   c' = c \<and> conn_owned c as m' \<and> ledger_ok m' \<and> held m' = held m \<and> fault m' = fault m"
  using acquired_ledger_ok [of m "[]" m'] by (auto simp: submit_refused_def conn_owned_def acquired_def)

lemma signal_shutdown_owned:
  "conn_owned c as m \<Longrightarrow> held m = {} \<Longrightarrow> ledger_ok m \<Longrightarrow>
   conn_owned c as (signal_shutdown d m) \<and> ledger_ok (signal_shutdown d m) \<and>
   held (signal_shutdown d m) = {} \<and> fault (signal_shutdown d m) = fault m"
  using signal_shutdown_released [of m d] released_ledger_ok [of m "{}"] conn_owned_released [of c as m "{}"]
  by (simp add: released_def)

text \<open>Polling takes the first result out of the chain, or asks libpq when it is empty.\<close>

lemma chain_ids_cells: "\<forall>b \<in> set as. node_cell c' b = node_cell c b \<Longrightarrow> chain_ids c' as = chain_ids c as"
  by (simp add: chain_ids_def cong: map_cong)

lemma poll_same: "poll_result E (Some c) m = (r, Some c', m') \<Longrightarrow> same_but_chain c c'"
  by (auto simp: poll_result_def same_but_chain_def Let_def split: option.splits prod.splits)

lemma get_owned:
  assumes own: "conn_owned c as m" and ok: "ledger_ok m" and g: "pq_getResult E p m = (r, m')"
  shows "conn_owned c as m' \<and> ledger_ok m' \<and> held m' = held m \<and> fault m' = fault m"
proof -
  have "acquired m (opt_ids r) m'"
    using g by (cases r) (auto simp: pq_getResult_def dest!: pq_result_Some pq_result_None)
  with acquired_ledger_ok [OF ok this] own show ?thesis
    by (auto simp: conn_owned_def acquired_def)
qed

lemma poll_owned:
  assumes own: "conn_owned c as m" and ok: "ledger_ok m"
    and poll: "poll_result E (Some c) m = (r, Some c', m')"
  shows "(\<exists>bs. conn_owned c' bs m') \<and> ledger_ok m' \<and> held m' = held m \<and> fault m' = fault m"
proof -
  from own obtain p where p: "pg c = Some p" and inv: "chain_inv c as"
    by (auto simp: conn_owned_def)
  note f = same_but_chain_fields [OF poll_same [OF poll]]
  show ?thesis
  proof (cases as)
    case Nil
    with inv p poll have "pq_getResult E p m = (r, m')" "c' = c"
      by (auto simp: poll_result_def chain_inv_empty split: prod.splits)
    with get_owned [OF own ok, of E p r m'] show ?thesis by blast
  next
    case (Cons a bs)
    with poll_result_chain [OF p, of a bs E m] inv poll
    have m': "m' = rfree a m" and inv': "chain_inv c' bs"
      and cells: "\<forall>b \<in> set bs. node_cell c' b = node_cell c b"
      by auto
    have ids: "set (conn_ids c' bs) \<subseteq> set (conn_ids c as) - {a}" "distinct (conn_ids c' bs)"
      using own Cons chain_ids_cells [OF cells] by (auto simp: conn_owned_def conn_ids_def f)
    have a: "a \<in> live m"
      using own Cons by (auto simp: conn_owned_def conn_ids_def)
    then have "conn_owned c' bs m'"
      using own ids inv' by (auto simp: conn_owned_def f m' rfree_def)
    with a released_ledger_ok [OF ok rfree_released [OF a]] show ?thesis
      by (auto simp: m' rfree_def)
  qed
qed

lemma drop_owned:
  assumes own: "conn_owned c as m" and ok: "ledger_ok m"
    and fr: "native_pool_free_result_chain c m = (c', m')"
  shows "same_but_chain c c' \<and> (\<exists>bs. conn_owned c' bs m') \<and> ledger_ok m' \<and> held m' = held m \<and>
    fault m' = fault m"
proof -
  have inv: "chain_inv c as" and d: "distinct (chain_ids c as)" "set (chain_ids c as) \<subseteq> live m"
    using own by (auto simp: conn_owned_def conn_ids_def)
  have c': "c' = c\<lparr>chain_store := [], chain_head := None, chain_tail := None\<rparr>"
    and m': "m' = free_all (chain_ids c as) m"
    using fr free_result_chain_eq [OF inv, of m] by simp_all
  note rel = free_all_released [OF d]
  have same: "same_but_chain c c'" by (simp add: c')
  note f = same_but_chain_fields [OF same]
  have "chain_inv c' []" by (simp add: c' chain_inv_empty)
  then have "conn_owned c' [] m'"
    using own rel by (auto simp: conn_owned_def conn_ids_def f released_def m')
  with same rel released_ledger_ok [OF ok rel] show ?thesis
    by (auto simp: m' released_def)
qed

section \<open>The driver\<close>

text \<open>
  \<open>pg_client\<close>: poll the next result, or drop the chain as \<open>pool_release\<close> does. A stop is the
  atomic store of \<open>shutdown_requested\<close> and the signal under the slot mutex.
\<close>

definition pg_stop :: "'r native_conn \<Rightarrow> 'w mach \<Rightarrow> 'r native_conn \<times> 'w mach" where
  "pg_stop c m = (let c' = c\<lparr>shutdown_requested := True\<rparr> in (c', signal_shutdown c' m))"

definition pg_client :: "('w, 'r) pg_env \<Rightarrow> 'r native_conn \<Rightarrow> 'w mach \<Rightarrow> ('r native_conn \<times> 'w mach) list" where
  "pg_client E c m =
     [case poll_result E (Some c) m of (_, c', m') \<Rightarrow> (case c' of Some d \<Rightarrow> (d, m') | None \<Rightarrow> (c, m')),
      native_pool_free_result_chain c m]"

definition pg_driver :: "('w, 'r) pg_env \<Rightarrow> (pg_call, 'r native_conn, 'w) driver" where
  "pg_driver E =
     \<lparr>d_filled = slot_filled, d_port = port_id, d_stopping = shutdown_requested,
      d_submit = pg_submit, d_stop = pg_stop,
      d_cancel = (\<lambda>c. pool_cancel E (Some c)), d_client = pg_client E,
      d_execute = (\<lambda>n c. worker_execute n E (the (pg c)) c), d_clear = worker_clear\<rparr>"

lemma pg_driver_simps [simp]:
  "d_filled (pg_driver E) = slot_filled" "d_port (pg_driver E) = port_id"
  "d_stopping (pg_driver E) = shutdown_requested" "d_submit (pg_driver E) = pg_submit"
  "d_stop (pg_driver E) = pg_stop" "d_cancel (pg_driver E) c = pool_cancel E (Some c)"
  "d_client (pg_driver E) = pg_client E"
  "d_execute (pg_driver E) n c = worker_execute n E (the (pg c)) c" "d_clear (pg_driver E) = worker_clear"
  by (simp_all add: pg_driver_def)

text \<open>
  The invariant: handles, slot payload and chain are owned and disjoint, no mutex is held
  between steps, and nothing undefined has happened.
\<close>

definition pg_own :: "'r native_conn \<Rightarrow> 'w mach \<Rightarrow> bool" where
  "pg_own c m \<longleftrightarrow> (\<exists>as. conn_owned c as m) \<and> ledger_ok m \<and> held m = {} \<and> \<not> fault m"

lemma pg_ownE:
  assumes "pg_own c m"
  obtains as where "conn_owned c as m" "ledger_ok m" "held m = {}" "\<not> fault m"
  using assms by (auto simp: pg_own_def)

lemma pg_submit_law:
  assumes own: "pg_own c m" and call: "call_ok call" and run: "pg_submit call port t c m = (k, Some c', m')"
  shows "pg_own c' m' \<and> ((k = 0 \<and> c' = c) \<or>
    (k = 1 \<and> \<not> slot_filled c \<and> \<not> shutdown_requested c \<and> slot_filled c' \<and> port_id c' = port \<and>
     \<not> shutdown_requested c'))"
proof -
  from own obtain as where o: "conn_owned c as m" "ledger_ok m" "held m = {}" "\<not> fault m"
    by (rule pg_ownE)
  have "slot_mutex c \<notin> held m" "slot_inv c"
    using o by (simp_all add: conn_owned_def)
  from pg_submit_cases [OF o(2) this call run] show ?thesis
  proof (elim disjE conjE exE)
    assume "submit_refused c m (k, Some c', m')"
    with refused_owned [OF o(1,2) this] o show ?thesis
      by (auto simp: pg_own_def submit_refused_def)
  next
    fix c1 m1
    assume acc: "submit_accepted c m port t (k, Some c', m')" and eq: "(k, Some c', m') = (1, Some c1, m1)"
      and same: "same_but_slot c c1"
    then have acc': "submit_accepted c m port t (1, Some c', m')" and same': "same_but_slot c c'"
      by simp_all
    from accepted_owned [OF o(1,2) same' acc'] acc' eq same_but_slot_fields(1) [OF same'] o show ?thesis
      by (auto simp: pg_own_def submit_accepted_def)
  qed
qed

lemma pg_stop_law:
  assumes "pg_own c m" "pg_stop c m = (c', m')"
  shows "pg_own c' m' \<and> slot_filled c' = slot_filled c \<and> port_id c' = port_id c \<and> shutdown_requested c'"
proof -
  from assms(1) obtain as where o: "conn_owned c as m" "ledger_ok m" "held m = {}" "\<not> fault m"
    by (rule pg_ownE)
  have c': "c' = c\<lparr>shutdown_requested := True\<rparr>" "m' = signal_shutdown c' m"
    using assms(2) by (auto simp: pg_stop_def Let_def)
  have "conn_owned c' as m" using o(1) by (simp add: c'(1))
  from signal_shutdown_owned [OF this o(3,2), of c'] o show ?thesis
    by (auto simp: pg_own_def c'(1) c'(2) [unfolded c'(1)])
qed

lemma pg_cancel_law:
  assumes "pg_own c m"
  shows "pg_own c (pool_cancel E (Some c) m)"
proof -
  from assms obtain as where o: "conn_owned c as m" "ledger_ok m" "held m = {}" "\<not> fault m"
    by (rule pg_ownE)
  have r: "released m {} (pool_cancel E (Some c) m)"
    by (auto simp: pool_cancel_def split: option.splits)
  have "conn_owned c as (pool_cancel E (Some c) m)"
    by (rule conn_owned_released [OF o(1) r]) simp
  with released_ledger_ok [OF o(2) r] r o(3,4) show ?thesis
    by (auto simp: pg_own_def released_def)
qed

lemma pg_client_law:
  assumes "pg_own c m" "(c', m') \<in> set (pg_client E c m)"
  shows "pg_own c' m' \<and> same_but_chain c c'"
proof -
  from assms(1) obtain as where o: "conn_owned c as m" "ledger_ok m" "held m = {}" "\<not> fault m"
    by (rule pg_ownE)
  obtain r d m1 where poll: "poll_result E (Some c) m = (r, d, m1)" by (cases "poll_result E (Some c) m")
  then obtain d' where d: "d = Some d'"
    by (auto simp: poll_result_def Let_def split: option.splits prod.splits)
  from assms(2) poll d consider "(c', m') = (d', m1)" | "native_pool_free_result_chain c m = (c', m')"
    by (auto simp: pg_client_def)
  then show ?thesis
  proof cases
    case 1
    with poll_owned [OF o(1,2), of E r d' m1] poll_same [of E c m r d' m1] poll d o show ?thesis
      by (auto simp: pg_own_def)
  next
    case 2
    from drop_owned [OF o(1,2) this] o show ?thesis by (auto simp: pg_own_def)
  qed
qed

interpretation pg_drv: driver_laws "pg_driver E" call_ok pg_own
  for E :: "('w, 'r) pg_env"
proof unfold_locales
  fix c c' :: "'r native_conn" and m m' :: "'w mach" and call port t k n st
  assume own: "pg_own c m"
  from own obtain as where o: "conn_owned c as m" "ledger_ok m" "held m = {}" "\<not> fault m"
    by (rule pg_ownE)
  show "pg_own c' m' \<and> (k = 0 \<and> same_view (pg_driver E) c c' \<or>
      k = 1 \<and> \<not> d_filled (pg_driver E) c \<and> \<not> d_stopping (pg_driver E) c \<and> d_filled (pg_driver E) c' \<and>
      d_port (pg_driver E) c' = port \<and> \<not> d_stopping (pg_driver E) c')"
    if "call_ok call" "d_submit (pg_driver E) call port t c m = (k, Some c', m')"
    using pg_submit_law [OF own that(1), of port t k c' m'] that(2) by auto
  show "pg_own c' m' \<and> d_filled (pg_driver E) c' = d_filled (pg_driver E) c \<and>
      d_port (pg_driver E) c' = d_port (pg_driver E) c \<and> d_stopping (pg_driver E) c'"
    if "d_stop (pg_driver E) c m = (c', m')"
    using pg_stop_law [OF own, of c' m'] that by simp
  show "pg_own c (d_cancel (pg_driver E) c m)"
    using pg_cancel_law [OF own] by simp
  show "pg_own c' m' \<and> same_view (pg_driver E) c c'"
    if "(c', m') \<in> set (d_client (pg_driver E) c m)"
    using pg_client_law [OF own, of c' m' E] that same_but_chain_fields [of c c'] by (auto simp: same_view_def)
  show "pg_own c' m' \<and> same_view (pg_driver E) c c' \<and> (st = 1 \<or> st = 2)"
    if "d_filled (pg_driver E) c" "d_execute (pg_driver E) n c m = Some (st, c', m')"
    using worker_execute_kept [OF o(1,2), of n E "the (pg c)" st c' m'] worker_execute_code [of n E _ c m st c' m']
      that o same_but_chain_fields [of c c'] by (auto simp: pg_own_def kept_def same_view_def)
  show "pg_own c' m' \<and> \<not> d_filled (pg_driver E) c' \<and> d_stopping (pg_driver E) c' = d_stopping (pg_driver E) c"
    if "d_clear (pg_driver E) c m = (c', m')"
  proof -
    have "slot_mutex c \<notin> held m" using o by simp
    from worker_clear_eq [OF o(1) this] that obtain "conn_owned c' as m'" "\<not> slot_filled c'"
      "shutdown_requested c' = shutdown_requested c" "released m (set (slot_ids c)) m'"
      by auto
    with o released_ledger_ok [OF o(2)] show ?thesis by (auto simp: pg_own_def released_def)
  qed
qed

section \<open>After the notification\<close>

text \<open>
  With memory to spare a free slot takes the next statement: the order clear, then post is
  what makes this so for a client that has just been notified.
\<close>

lemma submit_locked_plenty:
  assumes "oom m = []" "\<not> slot_filled c" "\<not> shutdown_requested c" "0 < n" "nat n \<le> length qs"
    "None \<notin> set (take (nat n) qs)"
  shows "fst (submit_locked (Some c) p mr (Some qs) n port t m) = 1"
proof -
  let ?m1 = "mutex_lock (slot_mutex c) m"
  have "oom ?m1 = []" using assms(1) by (simp add: ledger)
  then obtain v m2 where v: "halloc () ?m1 = (Some v, m2)" "oom m2 = []"
    using halloc_plenty [of ?m1 "()"] by auto
  then obtain ds m3 where d: "dup_queries (take (nat n) qs) [] m2 = (Some ds, m3)"
    using dup_queries_plenty [of m2 "take (nat n) qs" "[]"] assms(6) by auto
  show ?thesis
    using assms v d by (simp add: submit_locked_def read_array_enough Let_def)
qed

section \<open>Draining the chain\<close>

fun polls :: "('w, 'r) pg_env \<Rightarrow> nat \<Rightarrow> 'r native_conn \<Rightarrow> 'w mach \<Rightarrow> 'r cell option list" where
  "polls E 0 c m = []"
| "polls E (Suc k) c m =
     (case poll_result E (Some c) m of
        (r, Some c', m') \<Rightarrow> r # polls E k c' m'
      | (r, None, m') \<Rightarrow> [r])"

lemma polls_chain:
  "pg c = Some p \<Longrightarrow> chain_inv c as \<Longrightarrow> polls E (length as) c m = map Some (chain_cells c as)"
proof (induction as arbitrary: c m)
  case Nil
  then show ?case by (simp add: chain_cells_def)
next
  case (Cons a as)
  from poll_result_chain [OF Cons.prems] obtain c' where
    c': "poll_result E (Some c) m = (Some (node_cell c a), Some c', rfree a m)" "chain_inv c' as"
      "\<forall>b \<in> set as. node_cell c' b = node_cell c b"
    by blast
  have "pg c' = Some p"
    using same_but_chain_fields(5) [OF poll_same [OF c'(1)]] Cons.prems(1) by simp
  with Cons.IH [OF this c'(2)] c' show ?case
    by (simp add: chain_cells_def)
qed

end
