(* ===== verification/Dart_Api_Dl.thy ===== *)
theory Dart_Api_Dl
  imports C_Prelude
begin

text \<open>
  The Dart API the workers post through: dart_api_dl.c and the symbol lists of
  dart_api_dl.h. The VM passes a table of (name, function) entries; each symbol of the lists
  becomes a function pointer, NULL when the table lacks it. A function is its address. The
  table is a list; its terminator, the entry with a NULL name, is \<open>None\<close>.
\<close>

type_synonym dart_entry = "string option \<times> nat"

record dart_api =
  dl_major :: int
  dl_minor :: int
  dl_functions :: "dart_entry list"

definition DART_API_DL_MAJOR_VERSION :: int where "DART_API_DL_MAJOR_VERSION = 2"

definition DART_NATIVE_API_DL_SYMBOLS :: "string list" where
  "DART_NATIVE_API_DL_SYMBOLS =
    [''Dart_PostCObject'', ''Dart_PostInteger'', ''Dart_NewNativePort'', ''Dart_CloseNativePort'']"

definition DART_API_DL_SYMBOLS :: "string list" where
  "DART_API_DL_SYMBOLS =
    [''Dart_IsError'', ''Dart_IsApiError'', ''Dart_IsUnhandledExceptionError'',
     ''Dart_IsCompilationError'', ''Dart_IsFatalError'', ''Dart_GetError'',
     ''Dart_ErrorHasException'', ''Dart_ErrorGetException'', ''Dart_ErrorGetStackTrace'',
     ''Dart_NewApiError'', ''Dart_NewCompilationError'', ''Dart_NewUnhandledExceptionError'',
     ''Dart_PropagateError'', ''Dart_HandleFromPersistent'', ''Dart_HandleFromWeakPersistent'',
     ''Dart_NewPersistentHandle'', ''Dart_SetPersistentHandle'',
     ''Dart_DeletePersistentHandle'', ''Dart_NewWeakPersistentHandle'',
     ''Dart_DeleteWeakPersistentHandle'', ''Dart_NewFinalizableHandle'',
     ''Dart_DeleteFinalizableHandle'', ''Dart_CurrentIsolate'', ''Dart_ExitIsolate'',
     ''Dart_EnterIsolate'', ''Dart_GetMainPortId'', ''Dart_Post'', ''Dart_NewSendPort'',
     ''Dart_NewSendPortEx'', ''Dart_SendPortGetId'', ''Dart_SendPortGetIdEx'',
     ''Dart_GetCurrentThreadOwnsIsolate'', ''Dart_EnterScope'', ''Dart_ExitScope'',
     ''Dart_IsNull'', ''Dart_Null'']"

definition DART_API_DEPRECATED_DL_SYMBOLS :: "string list" where
  "DART_API_DEPRECATED_DL_SYMBOLS =
    [''Dart_UpdateExternalSize'', ''Dart_UpdateFinalizableExternalSize'']"

definition DART_API_ALL_DL_SYMBOLS :: "string list" where
  "DART_API_ALL_DL_SYMBOLS = DART_NATIVE_API_DL_SYMBOLS @ DART_API_DL_SYMBOLS"

text \<open>
  The scan stops at the terminator. \<open>Inl\<close>: it ran off a table without one, which C leaves
  undefined.
\<close>

fun FindFunctionPointer :: "dart_entry list \<Rightarrow> string \<Rightarrow> unit + nat option" where
  "FindFunctionPointer [] nm = Inl ()"
| "FindFunctionPointer ((None, f) # es) nm = Inr None"
| "FindFunctionPointer ((Some n, f) # es) nm =
     (if n = nm then Inr (Some f) else FindFunctionPointer es nm)"

text \<open>
  The function pointer variables, by symbol: \<open>None\<close> is NULL. The deprecated symbols get the
  no-op functions of this file, whose addresses are an argument.
\<close>

type_synonym dl_vars = "string \<Rightarrow> nat option"

fun init_symbols :: "dart_entry list \<Rightarrow> string list \<Rightarrow> dl_vars \<Rightarrow> unit + dl_vars" where
  "init_symbols es [] V = Inr V"
| "init_symbols es (nm # nms) V =
     (case FindFunctionPointer es nm of
        Inl u \<Rightarrow> Inl u
      | Inr f \<Rightarrow> init_symbols es nms (V(nm := f)))"

definition Dart_InitializeApiDL :: "(string \<Rightarrow> nat) \<Rightarrow> dart_api \<Rightarrow> dl_vars \<Rightarrow> unit + (int \<times> dl_vars)" where
  "Dart_InitializeApiDL deprecated api V =
     (if dl_major api \<noteq> DART_API_DL_MAJOR_VERSION then Inr (-1, V)
      else (case init_symbols (dl_functions api) DART_API_ALL_DL_SYMBOLS V of
          Inl u \<Rightarrow> Inl u
        | Inr V1 \<Rightarrow>
            Inr (0, fold (\<lambda>nm W. W(nm := Some (deprecated nm))) DART_API_DEPRECATED_DL_SYMBOLS V1)))"

section \<open>What the table resolves to\<close>

text \<open>The entries before the terminator; the first with a name is the one found.\<close>

fun named_entries :: "dart_entry list \<Rightarrow> (string \<times> nat) list" where
  "named_entries [] = []"
| "named_entries ((None, f) # es) = []"
| "named_entries ((Some n, f) # es) = (n, f) # named_entries es"

definition terminated :: "dart_entry list \<Rightarrow> bool" where
  "terminated es \<longleftrightarrow> None \<in> fst ` set es"

lemma FindFunctionPointer_map_of:
  "terminated es \<Longrightarrow> FindFunctionPointer es nm = Inr (map_of (named_entries es) nm)"
  by (induction es nm rule: FindFunctionPointer.induct) (auto simp: terminated_def)

lemma init_symbols_eq:
  "terminated es \<Longrightarrow> init_symbols es nms V =
   Inr (\<lambda>nm. if nm \<in> set nms then map_of (named_entries es) nm else V nm)"
  by (induction nms arbitrary: V) (auto simp: FindFunctionPointer_map_of fun_eq_iff)

lemma fold_upd: "fold (\<lambda>nm W. W(nm := Some (g nm))) nms V = (\<lambda>nm. if nm \<in> set nms then Some (g nm) else V nm)"
  by (induction nms arbitrary: V) (auto simp: fun_eq_iff)

lemma InitializeApiDL_resolves:
  assumes "terminated (dl_functions api)" "dl_major api = DART_API_DL_MAJOR_VERSION"
  shows "Dart_InitializeApiDL dep api V =
    Inr (0, \<lambda>nm. if nm \<in> set DART_API_DEPRECATED_DL_SYMBOLS then Some (dep nm)
      else if nm \<in> set DART_API_ALL_DL_SYMBOLS then map_of (named_entries (dl_functions api)) nm
      else V nm)"
  using assms by (simp add: Dart_InitializeApiDL_def init_symbols_eq fold_upd)

lemma InitializeApiDL_version:
  "dl_major api \<noteq> DART_API_DL_MAJOR_VERSION \<Longrightarrow> Dart_InitializeApiDL dep api V = Inr (-1, V)"
  by (simp add: Dart_InitializeApiDL_def)

end
