(* ===== verification/Abi_Word.thy ===== *)
theory Abi_Word
  imports Dart_Api_Dl "HOL-Library.Word"
begin

unbundle bit_operations_syntax

text \<open>
  The ABI version word of the four libraries: the major version in the upper half, the minor
  one in the lower; what the Dart side reads back with a shift and a mask.
\<close>

definition pack_abi :: "64 word \<Rightarrow> 64 word \<Rightarrow> 64 word" where
  "pack_abi major minor = push_bit 32 major OR minor"

section \<open>Signed values\<close>

text \<open>\<open>(int)\<close> of a 64-bit value keeps its low 32 bits.\<close>

definition int32 :: "64 word \<Rightarrow> int" where
  "int32 w = sint (ucast w :: 32 word)"

lemma sint_word_of_int:
  "- (2 ^ (LENGTH('a) - 1)) \<le> x \<Longrightarrow> x < 2 ^ (LENGTH('a) - 1) \<Longrightarrow> sint (word_of_int x :: 'a::len word) = x"
  by (simp add: sint_sbintrunc' signed_take_bit_int_eq_self)

lemma sint_of_nat: "n < 2 ^ 63 \<Longrightarrow> sint (of_nat n :: 64 word) = int n"
  using sint_word_of_int [where 'a = 64, of "int n"] by simp

lemma uint_of_nat64: "n < 2 ^ 64 \<Longrightarrow> uint (of_nat n :: 64 word) = int n"
  by (simp add: unsigned_of_nat take_bit_nat_eq_self)

lemma int32_small: "n < 2 ^ 31 \<Longrightarrow> int32 (of_nat n) = int n"
proof -
  assume n: "n < 2 ^ 31"
  have "ucast (of_nat n :: 64 word) = (of_nat n :: 32 word)"
    using n by (intro word_uint_eqI) (simp add: unsigned_of_nat unsigned_ucast_eq take_bit_nat_eq_self)
  with sint_word_of_int [where 'a = 32, of "int n"] n show ?thesis by (simp add: int32_def)
qed

section \<open>The two halves\<close>

text \<open>Unpacking: the shift and the mask the Dart side applies.\<close>

lemma word_below_bits:
  "(w :: 64 word) < 2 ^ n \<Longrightarrow> n \<le> k \<Longrightarrow> \<not> bit w k"
  using less_mask_eq [of w n] by (metis bit_and_iff bit_mask_iff linorder_not_le)

lemma pack_abi_parts:
  assumes "major < 2 ^ 31" "minor < 2 ^ 32"
  shows "drop_bit 32 (pack_abi major minor) = major" "take_bit 32 (pack_abi major minor) = minor"
proof -
  note hi = word_below_bits [OF assms(1)] and lo = word_below_bits [OF assms(2)]
  show "drop_bit 32 (pack_abi major minor) = major"
  proof (rule bit_word_eqI)
    fix n :: nat
    assume "n < LENGTH(64)"
    have "n < 32" if "bit major n"
      using hi [of n] that by (cases "31 \<le> n") auto
    then show "bit (drop_bit 32 (pack_abi major minor)) n = bit major n"
      using lo [of "32 + n"] by (auto simp: pack_abi_def bit_simps)
  qed
  show "take_bit 32 (pack_abi major minor) = minor"
    by (rule bit_word_eqI) (use hi lo in \<open>auto simp: pack_abi_def bit_simps not_less\<close>)
qed

end
