(* ===== verification/Native_Db.thy ===== *)
theory Native_Db
  imports Pg_Env Abi_Word
begin

unbundle bit_operations_syntax

text \<open>
  native_db.c: the ABI version word, the raw connection for tests, and the result inspection
  calls over libpq. What a \<open>PGresult*\<close> answers is the argument \<open>R\<close>; a \<open>char*\<close> is the
  bytes it points at, NULL is \<open>None\<close>.
\<close>

definition NATIVE_DB_ABI_VERSION_MAJOR :: "64 word" where "NATIVE_DB_ABI_VERSION_MAJOR = 2"
definition NATIVE_DB_ABI_VERSION_MINOR :: "64 word" where "NATIVE_DB_ABI_VERSION_MINOR = 2"

definition native_db_abi_version :: "64 word" where
  "native_db_abi_version = push_bit 32 NATIVE_DB_ABI_VERSION_MAJOR OR NATIVE_DB_ABI_VERSION_MINOR"

definition InitDartApiDL :: "(string \<Rightarrow> nat) \<Rightarrow> dart_api \<Rightarrow> dl_vars \<Rightarrow> unit + (int \<times> dl_vars)" where
  "InitDartApiDL dep data V = Dart_InitializeApiDL dep data V"

definition connect_db :: "('w, 'r) pg_env \<Rightarrow> string \<Rightarrow> 'w mach \<Rightarrow> nat option \<times> 'w mach" where
  "connect_db E ci m =
     (let (p, m1) = pq_connect E ci m in
      if \<not> PQstatus_ok E p (ext m1) then (None, pq_finish E p m1)
      else (Some p, m1\<lparr>ext := PQsetnonblocking E p (ext m1)\<rparr>))"

definition close_db :: "('w, 'r) pg_env \<Rightarrow> nat option \<Rightarrow> 'w mach \<Rightarrow> 'w mach" where
  "close_db E conn m = (case conn of None \<Rightarrow> m | Some p \<Rightarrow> pq_finish E p m)"

section \<open>Result inspection\<close>

record 'r pg_result_api =
  PQntuples :: "'r \<Rightarrow> int"
  PQnfields :: "'r \<Rightarrow> int"
  PQfname :: "'r \<Rightarrow> int \<Rightarrow> string option"
  PQgetisnull :: "'r \<Rightarrow> int \<Rightarrow> int \<Rightarrow> bool"
  PQgetvalue :: "'r \<Rightarrow> int \<Rightarrow> int \<Rightarrow> string"
  PQgetlength :: "'r \<Rightarrow> int \<Rightarrow> int \<Rightarrow> int"
  PQftype :: "'r \<Rightarrow> int \<Rightarrow> 32 word"
  PQresultStatus :: "'r \<Rightarrow> int"
  PQresultErrorMessage :: "'r \<Rightarrow> string"

definition get_row_count :: "'r pg_result_api \<Rightarrow> 'r cell \<Rightarrow> int" where
  "get_row_count R r = PQntuples R (contents r)"

definition get_col_count :: "'r pg_result_api \<Rightarrow> 'r cell \<Rightarrow> int" where
  "get_col_count R r = PQnfields R (contents r)"

definition get_field_name :: "'r pg_result_api \<Rightarrow> 'r cell \<Rightarrow> int \<Rightarrow> string option" where
  "get_field_name R r c = PQfname R (contents r) c"

definition get_raw_value :: "'r pg_result_api \<Rightarrow> 'r cell \<Rightarrow> int \<Rightarrow> int \<Rightarrow> string option" where
  "get_raw_value R r row c =
     (if PQgetisnull R (contents r) row c then None else Some (PQgetvalue R (contents r) row c))"

definition get_raw_length :: "'r pg_result_api \<Rightarrow> 'r cell \<Rightarrow> int \<Rightarrow> int \<Rightarrow> int" where
  "get_raw_length R r row c =
     (if PQgetisnull R (contents r) row c then 0 else PQgetlength R (contents r) row c)"

definition get_field_type :: "'r pg_result_api \<Rightarrow> 'r cell \<Rightarrow> int \<Rightarrow> 32 word" where
  "get_field_type R r c = PQftype R (contents r) c"

definition get_result_status :: "'r pg_result_api \<Rightarrow> 'r cell \<Rightarrow> int" where
  "get_result_status R r = PQresultStatus R (contents r)"

definition get_error_message :: "'r pg_result_api \<Rightarrow> 'r cell \<Rightarrow> string" where
  "get_error_message R r = PQresultErrorMessage R (contents r)"

definition clear_result :: "'r cell option \<Rightarrow> 'w mach \<Rightarrow> 'w mach" where
  "clear_result r m = (case r of None \<Rightarrow> m | Some c \<Rightarrow> pq_clear c m)"

section \<open>Laws\<close>

lemma connect_db_cases:
  assumes "ledger_ok m" "connect_db E ci m = (r, m')"
  shows "acquired m (case r of None \<Rightarrow> [] | Some p \<Rightarrow> [p]) m'"
proof -
  obtain p m1 where p: "pq_connect E ci m = (p, m1)" by (cases "pq_connect E ci m")
  note a = pq_connect_acquired [OF p]
  have "acquired m [] (rfree p m1)"
    using acquired_rfree_one [OF assms(1) a] .
  moreover have "pq_finish E p m1 = (rfree p m1)\<lparr>ext := PQfinish E p (ext m1)\<rparr>"
    by (simp add: pq_finish_def rfree_def)
  ultimately have "acquired m [] (pq_finish E p m1)"
    by simp
  then show ?thesis
    using assms(2) p a by (auto simp: connect_db_def split: if_splits)
qed

lemma raw_null: "get_raw_value R r i j = None \<Longrightarrow> get_raw_length R r i j = 0"
  by (auto simp: get_raw_value_def get_raw_length_def split: if_splits)

end
