(* ===== verification/Pg_Properties.thy ===== *)
theory Pg_Properties
  imports Pg_Machine Native_Db
begin

text \<open>
  The properties of the PostgreSQL driver. Each is a few steps over the component theories;
  the witnesses run them on \<open>demo_pg\<close>, a server that answers every statement with its own
  text and whose clock advances a microsecond per \<open>select\<close>.
\<close>

section \<open>A concrete server\<close>

definition demo_pg :: "(nat \<times> string list, string) pg_env" where
  "demo_pg =
     \<lparr>PQconnectdb = \<lambda>p ci w. w, PQstatus_ok = \<lambda>p w. True, PQsetnonblocking = \<lambda>p w. w,
      PQfinish = \<lambda>p w. w, PQsocket = \<lambda>p w. 3,
      PQsendQuery = \<lambda>p q (t, rs). (1, (t, rs @ [q])),
      PQsendQueryParams = \<lambda>p q ps (t, rs). (1, (t, rs @ [q])),
      PQflush = \<lambda>p w. (0, w), PQconsumeInput = \<lambda>p w. (1, w), PQisBusy = \<lambda>p w. (False, w),
      PQgetResult = \<lambda>p (t, rs). (case rs of [] \<Rightarrow> (None, (t, [])) | r # rs' \<Rightarrow> (Some r, (t, rs'))),
      PQenterPipelineMode = \<lambda>p w. (1, w), PQexitPipelineMode = \<lambda>p w. (1, w),
      PQpipelineSync = \<lambda>p (t, rs). (1, (t, rs @ [''sync''])), PQtrans_inerror = \<lambda>p w. False,
      PQexec = \<lambda>p q w. (Some q, w), PQgetCancel_ok = \<lambda>p w. True, PQcancel = \<lambda>p w. w,
      select_io = \<lambda>sock wr tv (t, rs). (SelReady True, (t + 1000, rs)),
      clock_gettime = \<lambda>(t, rs). (\<lparr>tv_sec = int t div 1000000000, tv_nsec = int t mod 1000000000\<rparr>, (t, rs)),
      shutdown_meanwhile = \<lambda>p w. (False, w)\<rparr>"

definition demo_mach :: "(nat \<times> string list) mach" where
  "demo_mach = \<lparr>oom = [], fresh = 4, live = {0, 1, 2, 3}, held = {}, signals = [], fault = False,
     ext = (0, [])\<rparr>"

definition demo_conn :: "string native_conn" where
  "demo_conn = zero_conn\<lparr>pg := Some 0, slot_mutex := 1, slot_cond := 2, worker := 3\<rparr>"

definition demo_state :: "(string native_conn, nat \<times> string list) drv_state" where
  "demo_state = \<lparr>st_conn = demo_conn, st_mach = demo_mach, st_pc = At_top, st_accepted = [], st_posted = []\<rparr>"

lemmas demo_defs = demo_mach_def demo_conn_def zero_conn_def demo_state_def

lemma demo_conn_owned: "conn_owned demo_conn [] demo_mach" "fresh_conn demo_conn" "ledger_ok demo_mach"
  by (auto simp: demo_defs conn_owned_def fresh_conn_def conn_ids_def handle_ids_def slot_ids_def
      slot_inv_def clean_slot_def chain_inv_empty ledger_ok_def)

lemma demo_start: "drv_start (pg_driver demo_pg) pg_own demo_state"
proof -
  have "pg_own demo_conn demo_mach"
    using demo_conn_owned by (auto simp: pg_own_def) (simp_all add: demo_defs)
  then show ?thesis
    by (simp add: drv_start_def demo_state_def) (simp add: demo_defs)
qed


section \<open>Delivery\<close>

text \<open>C1. Every accepted request is answered exactly once and in order: at any moment the
  notifications posted so far, followed by the at most two requests still in flight, are the
  requests accepted; every posted code is 1 or 2.\<close>

theorem pg_exactly_once:
  assumes "drv_start (pg_driver E) pg_own s0" "(drv_step (pg_driver E) call_ok)\<^sup>*\<^sup>* s0 s"
  shows "map fst (st_posted s) @ in_flight (drv_abs (pg_driver E) s) = st_accepted s \<and>
    (\<forall>c \<in> set (st_posted s). snd c = 1 \<or> snd c = 2)"
  by (rule pg_drv.exactly_once [OF assms])

text \<open>A run: one statement submitted, executed and answered, then shutdown.\<close>

lemma demo_run:
  "\<exists>s. (drv_step (pg_driver demo_pg) call_ok)\<^sup>*\<^sup>* demo_state s \<and> st_posted s = [(7, 1)] \<and> st_pc s = Returned"
proof (rule pg_drv.serves_and_returns [OF demo_start])
  show "call_ok (Call_query (Some ''SELECT 1''))" by (simp add: call_ok_def)
  show "map_option fst (serve_once (pg_driver demo_pg) 9 (Call_query (Some ''SELECT 1'')) 7 0 (st_conn demo_state)
      (st_mach demo_state)) = Some 1" by code_simp
qed

theorem pg_exactly_once_witness:
  "\<exists>s. (drv_step (pg_driver demo_pg) call_ok)\<^sup>*\<^sup>* demo_state s \<and> st_posted s = [(7, 1)] \<and> 7 \<in> set (st_accepted s)"
proof -
  obtain s where s: "(drv_step (pg_driver demo_pg) call_ok)\<^sup>*\<^sup>* demo_state s" "st_posted s = [(7, 1)]" using demo_run by blast
  from pg_exactly_once [OF demo_start s(1)] s(2) have "st_accepted s = 7 # in_flight (drv_abs (pg_driver demo_pg) s)" by simp
  with s show ?thesis by (intro exI [of _ s]) simp
qed

text \<open>C9. A worker that has returned has answered every request it accepted, and its slot is
  empty: a shutdown drops nothing.\<close>

theorem pg_shutdown_drops_nothing:
  assumes "drv_start (pg_driver E) pg_own s0" "(drv_step (pg_driver E) call_ok)\<^sup>*\<^sup>* s0 s"
    "st_pc s = Returned"
  shows "map fst (st_posted s) = st_accepted s \<and> \<not> slot_filled (st_conn s)"
  using pg_drv.drops_nothing [OF assms] by simp

theorem pg_shutdown_drops_nothing_witness:
  "\<exists>s. (drv_step (pg_driver demo_pg) call_ok)\<^sup>*\<^sup>* demo_state s \<and> st_pc s = Returned \<and> st_accepted s = [7] \<and>
     \<not> slot_filled (st_conn s)"
proof -
  obtain s where s: "(drv_step (pg_driver demo_pg) call_ok)\<^sup>*\<^sup>* demo_state s" "st_posted s = [(7, 1)]" "st_pc s = Returned"
    using demo_run by blast
  from pg_shutdown_drops_nothing [OF demo_start s(1,3)] s show ?thesis by (intro exI [of _ s]) simp
qed



text \<open>C19. A client that has been notified can submit at once: when every accepted request has
  been answered and shutdown has not been requested, a submission with memory to spare is
  never refused, because the slot is cleared before the notification is posted.\<close>

theorem pg_submit_after_notify:
  assumes "drv_start (pg_driver E) pg_own s0" "(drv_step (pg_driver E) call_ok)\<^sup>*\<^sup>* s0 s"
    "map fst (st_posted s) = st_accepted s" "\<not> shutdown_requested (st_conn s)" "oom (st_mach s) = []"
  shows "fst (pool_submit_query (Some (st_conn s)) (Some q) port t (st_mach s)) = 1"
proof -
  have "\<not> slot_filled (st_conn s)"
    using pg_drv.answered_free [OF assms(1-3)] by simp
  from submit_locked_plenty [OF assms(5) this assms(4), of 1 "[Some q]" False False port t] show ?thesis
    by (simp add: pool_submit_query_def)
qed

theorem pg_submit_after_notify_witness:
  "fst (pool_submit_query (Some demo_conn) (Some ''SELECT 1'') 7 0 demo_mach) = 1"
  using pg_submit_after_notify [OF demo_start, of demo_state "''SELECT 1''" 7 0]
  by (simp add: demo_defs)

section \<open>Submission\<close>

text \<open>C8. A submission is all or nothing, with each of its allocations failing or not: refused,
  it returns 0, changes neither the connection nor the ledger and signals nobody; accepted, the
  slot holds exactly the request the caller described (copied statements, parameter bytes,
  types, formats), owns exactly the memory acquired, and the worker is signalled once.\<close>

theorem pg_submission_exact:
  assumes "ledger_ok m" "slot_mutex c \<notin> held m" "slot_inv c" "call_ok call"
  shows "submit_refused c m (pg_submit call port t c m) \<or>
    (\<exists>c' m'. pg_submit call port t c m = (1, Some c', m') \<and> \<not> slot_filled c \<and> same_but_slot c c' \<and>
       slot_request c' = call_request call \<and> port_id c' = port \<and> timeout_ms c' = t \<and> slot_inv c' \<and>
       acquired m (slot_ids c') m' \<and> signals m' = slot_cond c # signals m)"
  using pg_submit_cases [OF assms refl, of port t] by (fastforce simp: submit_accepted_def)

theorem pg_submission_exact_witness:
  "\<exists>c' m'. pg_submit (Call_query (Some ''SELECT 1'')) 7 0 demo_conn demo_mach = (1, Some c', m') \<and>
     slot_request c' = call_request (Call_query (Some ''SELECT 1'')) \<and> port_id c' = 7"
proof -
  have "slot_mutex demo_conn \<notin> held demo_mach" "slot_inv demo_conn" "call_ok (Call_query (Some ''SELECT 1''))"
    using demo_conn_owned by (auto simp: conn_owned_def call_ok_def) (simp add: demo_defs)
  note exact = pg_submission_exact [OF demo_conn_owned(3) this, of 7 0]
  have "fst (pg_submit (Call_query (Some ''SELECT 1'')) 7 0 demo_conn demo_mach) = 1" by code_simp
  then have "\<not> submit_refused demo_conn demo_mach (pg_submit (Call_query (Some ''SELECT 1'')) 7 0 demo_conn demo_mach)"
    by (auto simp: submit_refused_def)
  with exact show ?thesis by blast
qed

section \<open>Execution\<close>

text \<open>C3. A multi-read keeps every result the server sends, in order: the request refines the
  reference that sends the statements joined by semicolons and collects the results of
  \<open>PQgetResult\<close> in a list. On success the chain holds that list and polling returns it, result
  by result; on any abort the chain is empty and everything allocated has been given back.\<close>

theorem pg_multi_read_correct:
  assumes "ledger_ok m" "conn_owned c as m" "nat k \<le> length qs" "\<not> PQsocket E p (ext m) < 0"
    and "execute_multi_read n E c p qs k t m = Some (st, c', m')"
  shows "\<exists>bs. chain_inv c' bs \<and> acquired (free_all (chain_ids c as) m) (chain_ids c' bs) m' \<and>
    (if st = 1 then
       multi_read_spec n E c p (take (nat k) qs) t (ext m) = Some (1, chain_results c' bs, ext m') \<and>
       map (map_option contents) (polls E (length bs) c' m') = map Some (chain_results c' bs)
     else st = 2 \<and> bs = [])"
proof -
  have own: "chain_inv c as" "set (chain_ids c as) \<subseteq> live m" "distinct (chain_ids c as)"
    using assms(2) by (auto simp: conn_owned_def conn_ids_def)
  from execute_multi_read_refines [OF assms(1) own assms(3,4,5)] obtain bs where
    same: "same_but_chain c c'" and since: "chain_since (free_all (chain_ids c as) m) c' bs m'"
    and cases: "if st = 1 then multi_read_spec n E c p (take (nat k) qs) t (ext m) =
        Some (1, chain_results c' bs, ext m') else st = 2 \<and> bs = []"
    by (auto simp: drained_def)
  obtain q where "pg c' = Some q"
    using assms(2) same_but_chain_fields(5) [OF same] by (auto simp: conn_owned_def)
  with since have "map (map_option contents) (polls E (length bs) c' m') = map Some (chain_results c' bs)"
    using polls_chain [of c' q bs E m'] by (simp add: chain_since_def chain_results_def chain_cells_def)
  with since cases show ?thesis
    by (auto simp: chain_since_def)
qed

lemma demo_multi_run:
  "execute_multi_read 5 demo_pg demo_conn 0 [''A'', ''B''] 2 50 demo_mach \<noteq> None \<and>
   fst (the (execute_multi_read 5 demo_pg demo_conn 0 [''A'', ''B''] 2 50 demo_mach)) = 1"
  by code_simp

theorem pg_multi_read_correct_witness:
  "\<exists>c' m' bs. execute_multi_read 5 demo_pg demo_conn 0 [''A'', ''B''] 2 50 demo_mach = Some (1, c', m') \<and>
     map (map_option contents) (polls demo_pg (length bs) c' m') = map Some (chain_results c' bs)"
proof -
  obtain c' m' where r: "execute_multi_read 5 demo_pg demo_conn 0 [''A'', ''B''] 2 50 demo_mach = Some (1, c', m')"
    using demo_multi_run by (metis option.exhaust_sel prod.collapse)
  have "nat 2 \<le> length [''A'', ''B'']" "\<not> PQsocket demo_pg 0 (ext demo_mach) < 0"
    by (simp_all add: demo_pg_def)
  from pg_multi_read_correct [OF demo_conn_owned(3,1) this r] r show ?thesis by auto
qed

text \<open>C30. \<open>join_with_semicolons\<close> builds exactly the statements separated by semicolons and
  their NUL in a block of exactly that size, without writing past it; what libpq reads from
  the block is that text when no statement contains a NUL.\<close>

theorem pg_join_text:
  assumes "join_with_semicolons qs m = (Some blk, m')"
  shows "contents blk = semis qs @ [CHR 0x00] \<and> acquired m [addr blk] m' \<and>
    ((\<forall>q \<in> set qs. CHR 0x00 \<notin> set q) \<longrightarrow> c_string (contents blk) = semis qs)"
  using join_with_semicolons_Some [OF assms] c_string_semis [of qs] by simp

theorem pg_join_text_witness:
  "\<exists>blk m'. join_with_semicolons [''SELECT 1'', ''SELECT 2''] demo_mach = (Some blk, m') \<and>
     c_string (contents blk) = ''SELECT 1;SELECT 2''"
proof -
  have "fst (join_with_semicolons [''SELECT 1'', ''SELECT 2''] demo_mach) \<noteq> None" by code_simp
  then obtain blk m' where r: "join_with_semicolons [''SELECT 1'', ''SELECT 2''] demo_mach = (Some blk, m')"
    by (metis not_None_eq prod.collapse)
  from pg_join_text [OF r] r show ?thesis by auto
qed



text \<open>C21. A requested shutdown stops the worker at once: one iteration of each loop ends any
  request, the two single-statement paths with code 2.\<close>

theorem pg_shutdown_ends_request:
  assumes "shutdown_requested c"
  shows "worker_execute (Suc n) E p c m \<noteq> None \<and>
    (\<exists>w'. execute_single (Suc n) E c p q t w = Some (2, w')) \<and>
    (\<exists>w'. execute_single_params (Suc n) E c p q ps t w = Some (2, w'))"
  using worker_stopping [OF assms] single_stopping [OF assms, of n E p] by blast

theorem pg_shutdown_ends_request_witness:
  "worker_execute (Suc 0) demo_pg 0 (demo_conn\<lparr>shutdown_requested := True\<rparr>) demo_mach \<noteq> None"
  using pg_shutdown_ends_request [of "demo_conn\<lparr>shutdown_requested := True\<rparr>" 0 demo_pg 0 demo_mach] by simp



text \<open>C32. The pipeline's drain loop has no way out when libpq reports idle and has no result:
  its NULL branch checks neither the deadline nor waits, so with no shutdown it loops for
  ever, whatever the timeout.\<close>

theorem pg_pipeline_null_spin:
  assumes "0 < remaining" and "\<forall>w. load_shutdown E c p w = (False, w)"
    and "\<forall>w. PQisBusy E p w = (False, w)" and "\<forall>w. PQgetResult E p w = (None, w)"
  shows "pipeline_drain n E c p sock has_deadline deadline remaining m = None"
  using assms by (induction n) (auto simp: on_ext_def pq_getResult_def pq_result_def)

theorem pg_pipeline_null_spin_witness:
  "pipeline_drain 1000 (demo_pg\<lparr>PQgetResult := \<lambda>p w. (None, w)\<rparr>) demo_conn 0 3 True
     \<lparr>tv_sec = 0, tv_nsec = 1\<rparr> 3 demo_mach = None"
  by (rule pg_pipeline_null_spin) (simp_all add: demo_pg_def load_shutdown_def demo_defs)

section \<open>The pool\<close>

text \<open>C10. Creating a pool is all or nothing, with any allocation, mutex, thread or connection
  failing: NULL leaves the ledger as it was (nothing leaks, nothing is freed twice); a pool
  has \<open>max\<close> idle, connected, empty connections and owns exactly what was acquired.\<close>

theorem pg_create_atomic:
  assumes "ledger_ok m" "held m = {}"
    and "pool_create E (native_pool_worker_end E) ci mn max_n t m = (r, m')"
  shows "case r of
      None \<Rightarrow> acquired m [] m'
    | Some p \<Rightarrow> acquired m (frame_ids p @ concat (map handle_ids (conns p))) m' \<and>
        length (conns p) = nat max_n \<and> (\<forall>c \<in> set (conns p). fresh_conn c) \<and>
        pool_owned p (no_chains (conns p)) m' \<and> pg_leased p = {}"
proof (cases r)
  case None
  with pool_create_cases [OF assms(1) worker_end_ok_pg assms(2,3)] show ?thesis by simp
next
  case (Some p)
  note c = pool_create_cases [OF assms(1) worker_end_ok_pg assms(2,3), unfolded Some option.case]
  then have "pg_leased p = {}"
    by (intro array_fresh_unleased) (simp add: fresh_conn_def)
  with c created_pool_owned [OF assms(1), of p m'] Some show ?thesis by simp
qed

theorem pg_create_atomic_witness:
  "\<exists>p m'. pool_create demo_pg (native_pool_worker_end demo_pg) (Some ''host=a'') 1 2 0 demo_mach = (Some p, m') \<and>
     length (conns p) = 2 \<and> pg_leased p = {}"
proof -
  have "fst (pool_create demo_pg (native_pool_worker_end demo_pg) (Some ''host=a'') 1 2 0 demo_mach) \<noteq> None"
    by code_simp
  then obtain p m' where r: "pool_create demo_pg (native_pool_worker_end demo_pg) (Some ''host=a'') 1 2 0 demo_mach = (Some p, m')"
    by (metis not_None_eq prod.collapse)
  have "held demo_mach = {}" by (simp add: demo_defs)
  from pg_create_atomic [OF demo_conn_owned(3) this r] r show ?thesis by auto
qed

text \<open>C11. A pool created and destroyed leaves the ledger as it was: every connection, mutex,
  condition variable, thread and block is given back exactly once.\<close>

theorem pg_create_destroy_balanced:
  assumes "ledger_ok m" "held m = {}"
    and "pool_create E (native_pool_worker_end E) ci mn max_n t m = (Some p, m')"
  shows "acquired m [] (pool_destroy E (native_pool_worker_end E) (Some p) m')"
  by (rule create_destroy [OF assms(1) worker_end_ok_pg assms(2,3)])

theorem pg_create_destroy_balanced_witness:
  "\<exists>p m'. pool_create demo_pg (native_pool_worker_end demo_pg) (Some ''host=a'') 1 2 0 demo_mach = (Some p, m') \<and>
     live (pool_destroy demo_pg (native_pool_worker_end demo_pg) (Some p) m') = live demo_mach"
proof -
  have "fst (pool_create demo_pg (native_pool_worker_end demo_pg) (Some ''host=a'') 1 2 0 demo_mach) \<noteq> None"
    by code_simp
  then obtain p m' where r: "pool_create demo_pg (native_pool_worker_end demo_pg) (Some ''host=a'') 1 2 0 demo_mach = (Some p, m')"
    by (metis not_None_eq prod.collapse)
  have "held demo_mach = {}" by (simp add: demo_defs)
  from pg_create_destroy_balanced [OF demo_conn_owned(3) this r] r show ?thesis
    by (auto simp: acquired_def)
qed

text \<open>C12. No connection is in two hands: after any run of acquires and releases from a fresh
  pool the handles held are distinct and are exactly the connections marked in use, and a
  connection given back can be acquired again.\<close>

theorem pg_leases_exclusive:
  assumes "\<forall>c \<in> set (conns p). \<not> in_use c"
    and "lease_run try_acquire (set_in_use False) ops (p, []) = (q, hs)"
  shows "distinct hs \<and> set hs = pg_leased q \<and> length hs \<le> pg_capacity q \<and>
    (\<forall>i \<in> set hs. \<exists>j q'. try_acquire (set_in_use False i q) = (Some j, q'))"
proof -
  have l: "pg_leased p = {}" using assms(1) by (rule array_fresh_unleased)
  note d = pg_array.run_distinct [OF l assms(2)]
  have "i < pg_capacity q" if "i \<in> set hs" for i
    using d that by (auto simp: array_leased_def)
  with d pg_array.take_after_give [of _ q] show ?thesis by blast
qed

definition demo_pool :: "string native_pool" where
  "demo_pool = \<lparr>pool_block = 10, conninfo = None, max_size = 2, default_acquire_timeout_ms = 100,
     conns_block = 11, conns = [demo_conn, demo_conn], mutex = 12, free_cond = 13, shutting_down = False\<rparr>"

theorem pg_leases_exclusive_witness:
  "let (q, hs) = lease_run try_acquire (set_in_use False) [Take, Take, Give 0, Take] (demo_pool, [])
   in distinct hs \<and> set hs = pg_leased q"
proof -
  obtain q hs where r: "lease_run try_acquire (set_in_use False) [Take, Take, Give 0, Take] (demo_pool, []) = (q, hs)"
    by (cases "lease_run try_acquire (set_in_use False) [Take, Take, Give 0, Take] (demo_pool, [])")
  have "\<forall>c \<in> set (conns demo_pool). \<not> in_use c" by (simp add: demo_pool_def demo_defs)
  from pg_leases_exclusive [OF this r] r show ?thesis by simp
qed

text \<open>C28. \<open>pool_acquire\<close> grants only a connection that was free in the pool it saw when it
  last held the mutex, and refuses only for a shutdown, for a zero timeout on a full pool, or
  after the deadline, which is exactly the effective timeout after the call.\<close>

theorem pg_acquire_outcome:
  assumes "pool_acquire now ws (Some p) timeout = (r, Some q)" "normal now"
  shows "case r of
      Granted i \<Rightarrow> (\<exists>k \<le> length ws. let p1 = after_wakes (take k ws) p in
         try_acquire p1 = (Some i, q) \<and> i < pg_capacity p1 \<and> i \<notin> pg_leased p1 \<and> \<not> shutting_down p1)
    | Refused \<Rightarrow> shutting_down q \<or>
        (effective_timeout p timeout = 0 \<and> q = p \<and> {..<pg_capacity p} \<subseteq> pg_leased p) \<or>
        (0 < effective_timeout p timeout \<and>
         (\<exists>w \<in> set ws. \<not> wk_signalled w \<and>
            ns_of now + effective_timeout p timeout * 1000000 \<le> ns_of (wk_now w)))
    | Blocked \<Rightarrow> \<not> shutting_down p"
proof (cases "shutting_down p")
  case True
  with assms show ?thesis by (auto simp: pool_acquire_def)
next
  case False
  let ?eff = "effective_timeout p timeout"
  from False assms have l: "acquire_loop shutting_down try_acquire ?eff (deadline_from_ms now ?eff) ws p = (r, q)"
    by (auto simp: pool_acquire_def Let_def split: prod.splits)
  show ?thesis
  proof (cases r)
    case (Granted i)
    with pg_array.acquire_loop_granted [of shutting_down ?eff _ ws p i q] l show ?thesis by fastforce
  next
    case Refused
    have d: "0 < ?eff \<Longrightarrow> ns_of (deadline_from_ms now ?eff) = ns_of now + ?eff * 1000000"
      using deadline_core(2) [OF assms(2), of ?eff] by simp
    show ?thesis
      unfolding Refused acquire_result.case
      using pg_array.acquire_loop_refused [OF l [unfolded Refused]] d by metis
  next
    case Blocked
    with False show ?thesis by simp
  qed
qed

theorem pg_acquire_outcome_witness:
  "\<exists>q. pool_acquire \<lparr>tv_sec = 5, tv_nsec = 0\<rparr> [] (Some demo_pool) 0 = (Granted 0, Some q) \<and>
     0 \<in> pg_leased q"
proof -
  obtain r q where r: "pool_acquire \<lparr>tv_sec = 5, tv_nsec = 0\<rparr> [] (Some demo_pool) 0 = (r, Some q)" "r = Granted 0"
    by (simp add: pool_acquire_def demo_pool_def acquire_loop.simps try_acquire_def demo_defs Let_def)
  have "normal \<lparr>tv_sec = 5, tv_nsec = 0\<rparr>" by (simp add: normal_def)
  from pg_acquire_outcome [OF r(1) this] r(2) have "try_acquire demo_pool = (Some 0, q)" "0 < pg_capacity demo_pool"
    by auto
  with pg_array.acquire_Some [of demo_pool 0 q] r show ?thesis by blast
qed

text \<open>C31. Releasing a connection drops the results a multi-read left undrained (each cleared
  once), marks it free and wakes one waiter.\<close>

theorem pg_release_drops_results:
  assumes "i < length (conns p)" "chain_inv (conns p ! i) as" "mutex p \<notin> held m"
  shows "\<exists>p' m'. pool_release (Some p) (Some i) m = (Some p', m') \<and> chain_inv (conns p' ! i) [] \<and>
    pg_leased p' = pg_leased p - {i} \<and> signals m' = free_cond p # signals m \<and>
    live m' = live (free_all (chain_ids (conns p ! i) as) m)"
  using pool_release_eq [OF assms] by auto

theorem pg_release_drops_results_witness:
  "\<exists>p' m'. pool_release (Some demo_pool) (Some 1) demo_mach = (Some p', m') \<and> pg_leased p' = pg_leased demo_pool - {1}"
proof -
  have "1 < length (conns demo_pool)" "chain_inv (conns demo_pool ! 1) []" "mutex demo_pool \<notin> held demo_mach"
    by (simp_all add: demo_pool_def demo_defs chain_inv_empty)
  from pg_release_drops_results [OF this] show ?thesis by blast
qed

section \<open>Dispatch, time, versions\<close>

text \<open>C18. The worker runs exactly the request in the slot: which of the four paths it takes,
  the statements and their number, the parameters and the timeout are those of the submission,
  whichever flags earlier requests had raised.\<close>

theorem pg_worker_runs_request:
  assumes "slot_filled c" "slot_inv c"
  shows "worker_execute n E p c m =
    (case slot_request c of
       Single q \<Rightarrow> lift_ext c m (execute_single n E c p q (timeout_ms c) (ext m))
     | WithParams q ps \<Rightarrow> lift_ext c m (execute_single_params n E c p q ps (timeout_ms c) (ext m))
     | MultiRead qs \<Rightarrow> execute_multi_read n E c p qs (int (length qs)) (timeout_ms c) m
     | Pipeline qs \<Rightarrow>
         map_option (\<lambda>(st, m1). (st, c, m1))
           (execute_pipeline n E c p qs (int (length qs)) (timeout_ms c) m))"
proof -
  from assms have full: "full_slot c" by (simp add: slot_inv_def)
  then obtain q qs where q: "slot_sql c = q # qs" using full_slot_sql by (cases "slot_sql c") auto
  have "sql_count c = int (length (slot_sql c))"
    using full by (auto simp: full_slot_def slot_sql_def)
  with q show ?thesis
    by (auto simp: worker_execute_def slot_request_def first_sql_def split: option.split)
qed

definition demo_full :: "string native_conn" where
  "demo_full = demo_conn\<lparr>slot_filled := True, sql := Some (Cell 5 [Cell 6 ''A'']), sql_count := 1, port_id := 9\<rparr>"

theorem pg_worker_runs_request_witness:
  "worker_execute 3 demo_pg 0 demo_full demo_mach =
     lift_ext demo_full demo_mach (execute_single 3 demo_pg demo_full 0 ''A'' 0 (0, []))"
proof -
  have f: "slot_filled demo_full" "slot_inv demo_full" "slot_request demo_full = Single ''A''"
    by (simp_all add: demo_full_def demo_defs slot_inv_def full_slot_def slot_request_def slot_sql_def)
  show ?thesis
    using pg_worker_runs_request [OF f(1,2), of 3 demo_pg 0 demo_mach] f(3)
    by (simp add: demo_full_def demo_defs)
qed

text \<open>C33. Deadlines are exact: for a normal clock reading and a timeout in milliseconds the
  deadline is normal and lies exactly that long after it; the worker and the pool compute the
  same one. Each \<open>select\<close> timeout is positive, at most a second and never past the deadline.\<close>

theorem deadline_exact:
  assumes "normal now" "0 \<le> t"
  shows "normal (deadline_from_ms now t) \<and> ns_of (deadline_from_ms now t) = ns_of now + t * 1000000 \<and>
    compute_deadline now t = deadline_from_ms now t \<and>
    (\<forall>h d tv. next_select_tv h d now = Some tv \<longrightarrow>
       0 < us_of tv \<and> us_of tv \<le> 1000000 \<and> 0 \<le> tval_usec tv \<and> tval_usec tv < 1000000 \<and>
       (h \<longrightarrow> us_of tv \<le> ms_until d now * 1000))"
  using deadline_core [OF assms] next_select_tv_us by (fastforce simp: compute_deadline_same)

theorem deadline_exact_witness:
  "ns_of (deadline_from_ms \<lparr>tv_sec = 1, tv_nsec = 999999999\<rparr> 1500) = 3499999999"
  using deadline_exact [of "\<lparr>tv_sec = 1, tv_nsec = 999999999\<rparr>" 1500]
  by (simp add: normal_def ns_of_def)



text \<open>C35. Initialising the Dart API resolves every symbol of the two lists to the first entry
  of that name before the terminator, leaves the ones the VM lacks NULL, points the deprecated
  ones at the local no-ops, and refuses a VM of another major version without touching any.\<close>

theorem dart_api_resolution:
  assumes "terminated (dl_functions api)"
  shows "InitDartApiDL dep api V =
    (if dl_major api \<noteq> 2 then Inr (-1, V)
     else Inr (0, \<lambda>nm. if nm \<in> set DART_API_DEPRECATED_DL_SYMBOLS then Some (dep nm)
       else if nm \<in> set DART_API_ALL_DL_SYMBOLS then map_of (named_entries (dl_functions api)) nm
       else V nm))"
  using InitializeApiDL_resolves [OF assms] InitializeApiDL_version [of api dep V]
  by (auto simp: InitDartApiDL_def DART_API_DL_MAJOR_VERSION_def)

theorem dart_api_resolution_witness:
  "\<exists>V. InitDartApiDL (\<lambda>_. 0) \<lparr>dl_major = 2, dl_minor = 6,
      dl_functions = [(Some ''Dart_PostCObject'', 77), (None, 0)]\<rparr> Map.empty = Inr (0, V) \<and>
     V ''Dart_PostCObject'' = Some 77 \<and> V ''Dart_Post'' = None"
proof -
  let ?api = "\<lparr>dl_major = 2, dl_minor = 6, dl_functions = [(Some ''Dart_PostCObject'', 77), (None, 0)]\<rparr>"
  have "terminated (dl_functions ?api)" by (simp add: terminated_def)
  from dart_api_resolution [OF this, of "\<lambda>_. 0" Map.empty] show ?thesis
    by (simp add: DART_API_DEPRECATED_DL_SYMBOLS_def DART_API_ALL_DL_SYMBOLS_def
        DART_NATIVE_API_DL_SYMBOLS_def DART_API_DL_SYMBOLS_def)
qed

end
