(* ===== verification/My_Env.thy ===== *)
theory My_Env
  imports C_Time C_Strings "HOL-Library.Word"
begin

text \<open>
  What the MySQL driver calls outside its sources: libmysqlclient. Each call is a field of
  \<open>my_env\<close> over an abstract outside world \<open>'w\<close>; \<open>'r\<close> is what a stored \<open>MYSQL_RES\<close> holds.
  The wrappers add the life of the handles to the ledger: \<open>mysql_init\<close> allocates (and may
  fail like \<open>malloc\<close>), \<open>mysql_close\<close> frees; a stored result is live until
  \<open>mysql_free_result\<close>.
\<close>

record my_creds =
  cr_host :: "string option"
  cr_user :: "string option"
  cr_password :: "string option"
  cr_db :: "string option"
  cr_port :: "16 word"

datatype my_option = Ssl_mode_disabled | Set_charset_name string

record ('w, 'r) my_env =
  mariadb_client :: bool
  mysql_library_init :: "'w \<Rightarrow> 'w"
  mysql_thread_init :: "'w \<Rightarrow> 'w"
  mysql_thread_end :: "'w \<Rightarrow> 'w"
  mysql_options :: "nat \<Rightarrow> my_option \<Rightarrow> 'w \<Rightarrow> 'w"
  mysql_real_connect :: "nat \<Rightarrow> my_creds \<Rightarrow> int \<Rightarrow> 'w \<Rightarrow> bool \<times> 'w"
  mysql_close :: "nat \<Rightarrow> 'w \<Rightarrow> 'w"
  mysql_thread_id :: "nat \<Rightarrow> 'w \<Rightarrow> 64 word"
  mysql_real_query :: "nat \<Rightarrow> string \<Rightarrow> 'w \<Rightarrow> int \<times> 'w"
  mysql_query :: "nat \<Rightarrow> string \<Rightarrow> 'w \<Rightarrow> 'w"
  mysql_store_result :: "nat \<Rightarrow> 'w \<Rightarrow> 'r option \<times> 'w"
  mysql_errno :: "nat \<Rightarrow> 'w \<Rightarrow> int"
  mysql_error :: "nat \<Rightarrow> 'w \<Rightarrow> string option"
  mysql_affected_rows :: "nat \<Rightarrow> 'w \<Rightarrow> 64 word"
  mysql_num_fields :: "'r \<Rightarrow> 32 word"
  mysql_next_result :: "nat \<Rightarrow> 'w \<Rightarrow> int \<times> 'w"

text \<open>\<open>CLIENT_MULTI_STATEMENTS\<close> of the client library's headers.\<close>

definition CLIENT_MULTI_STATEMENTS :: int where "CLIENT_MULTI_STATEMENTS = 65536"

definition my_close :: "('w, 'r) my_env \<Rightarrow> nat \<Rightarrow> 'w mach \<Rightarrow> 'w mach" where
  "my_close E h m = rfree h (m\<lparr>ext := mysql_close E h (ext m)\<rparr>)"

definition my_store_result :: "('w, 'r) my_env \<Rightarrow> nat \<Rightarrow> 'w mach \<Rightarrow> 'r cell option \<times> 'w mach" where
  "my_store_result E h m =
     (case mysql_store_result E h (ext m) of
        (None, w) \<Rightarrow> (None, m\<lparr>ext := w\<rparr>)
      | (Some r, w) \<Rightarrow> (let (c, m1) = rnew r (m\<lparr>ext := w\<rparr>) in (Some c, m1)))"

definition my_free_result :: "'r cell \<Rightarrow> 'w mach \<Rightarrow> 'w mach" where
  "my_free_result c m = rfree (addr c) m"

lemma my_store_result_acquired: "my_store_result E h m = (r, m') \<Longrightarrow> acquired m (opt_ids r) m'"
  by (auto simp: my_store_result_def rnew_def acquired_def split: prod.splits option.splits)

lemma my_store_result_ext:
  "my_store_result E h m = (r, m') \<Longrightarrow> mysql_store_result E h (ext m) = (map_option contents r, ext m')"
  by (auto simp: my_store_result_def rnew_def split: prod.splits option.splits)

end
