(* ===== verification/Result_Chain.thy ===== *)
theory Result_Chain
  imports Linked_Chain "HOL-Library.AList" "HOL-Library.Multiset"
begin

text \<open>
  The result chains of the MySQL, SQLite and MongoDB drivers: heap nodes linked by a \<open>next\<close>
  field, kept in an association list from addresses to nodes. The three drivers build a chain
  with the same head and tail pointers, free it with the same loop, and hand out its first
  node in \<open>poll_result\<close>. The locale \<open>result_nodes\<close> says what a driver's node type must satisfy;
  each driver interprets it on its own node record.

  \<open>owned ids m\<close> is what a connection claims of the ledger: the resources \<open>ids\<close> are distinct
  and live and nothing undefined has happened.
\<close>

section \<open>Ownership\<close>

definition owned :: "nat list \<Rightarrow> 'w mach \<Rightarrow> bool" where
  "owned ids m \<longleftrightarrow> distinct ids \<and> set ids \<subseteq> live m \<and> ledger_ok m \<and> \<not> fault m"

lemma owned_ext [simp]: "owned ids (m\<lparr>ext := w\<rparr>) = owned ids m"
  by (simp add: owned_def)

lemma owned_mset: "owned xs m \<Longrightarrow> mset ys = mset xs \<Longrightarrow> owned ys m"
  using mset_eq_imp_distinct_iff [of ys xs] mset_eq_setD [of ys xs] by (simp add: owned_def)

lemma owned_grow:
  assumes own: "owned ids m" and acq: "acquired m xs m'"
  shows "owned (ids @ xs) m'"
proof -
  from acq have m': "distinct xs" "live m' = live m \<union> set xs" "fault m' = fault m"
    and new: "\<forall>x \<in> set xs. fresh m \<le> x"
    unfolding acquired_def by blast+
  from own have m: "distinct ids" "set ids \<subseteq> live m" "ledger_ok m" "\<not> fault m"
    unfolding owned_def by blast+
  have "set ids \<inter> set xs = {}"
    using m(2,3) new by (fastforce simp: ledger_ok_def)
  moreover have "set ids \<subseteq> live m'" "set xs \<subseteq> live m'" using m(2) m'(2) by auto
  ultimately show ?thesis
    using acquired_ledger_ok [OF m(3) acq] m(1,4) m'(1,3) by (simp only: owned_def) simp
qed

lemma owned_drop: "owned (xs @ ys) m \<Longrightarrow> owned ys m" "owned (xs @ ys) m \<Longrightarrow> owned xs m"
  by (auto simp: owned_def)

lemma owned_shrink: "owned (xs @ ys) m \<Longrightarrow> released m (set xs) m' \<Longrightarrow> owned ys m'"
  using released_ledger_ok [of m "set xs" m'] by (auto simp: owned_def released_def)

lemma owned_free: "owned (xs @ ys) m \<Longrightarrow> owned ys (free_all xs m)"
proof -
  assume own: "owned (xs @ ys) m"
  then have "released m (set xs) (free_all xs m)"
    by (intro free_all_released) (simp_all add: owned_def)
  with own show ?thesis by (rule owned_shrink)
qed

lemma owned_quiet: "owned ids m \<Longrightarrow> released m {} m' \<Longrightarrow> owned ids m'"
  using owned_shrink [of "[]" ids m m'] by simp

lemma owned_released: "owned xs m \<Longrightarrow> released m Y m' \<Longrightarrow> set xs \<inter> Y = {} \<Longrightarrow> owned xs m'"
  using released_ledger_ok [of m Y m'] by (auto simp: owned_def released_def)

lemma acquired_plain: "acquired m [] m' \<Longrightarrow> owned ids m \<Longrightarrow> owned ids m'"
  using owned_grow [of ids m "[]" m'] by simp

section \<open>The loops\<close>

text \<open>
  \<open>if (head == NULL) head = tail = w; else { tail->next = w; tail = w; }\<close>. A tail that is no
  node is a use after free.
\<close>

definition link_node ::
  "(nat option \<Rightarrow> 'n \<Rightarrow> 'n) \<Rightarrow> nat option \<Rightarrow> nat option \<Rightarrow> nat \<Rightarrow> 'n \<Rightarrow> (nat \<times> 'n) list \<Rightarrow> 'w mach \<Rightarrow>
   nat option \<times> nat option \<times> (nat \<times> 'n) list \<times> 'w mach" where
  "link_node set_next head tail w new st m =
     (let st1 = AList.update w new st in
      case head of
        None \<Rightarrow> (Some w, Some w, st1, m)
      | Some _ \<Rightarrow>
          (case Option.bind tail (\<lambda>t. map_option (Pair t) (map_of st1 t)) of
             None \<Rightarrow> (head, Some w, st1, m\<lparr>fault := True\<rparr>)
           | Some (t, nd) \<Rightarrow> (head, Some w, AList.update t (set_next (Some w) nd) st1, m)))"

text \<open>
  \<open>while (head != NULL) { next = head->next; clear(head); head = next; }\<close>; a head that is no
  node is a use after free.
\<close>

function free_chain ::
  "('n \<Rightarrow> nat option) \<Rightarrow> (nat \<Rightarrow> 'n \<Rightarrow> 'w mach \<Rightarrow> 'w mach) \<Rightarrow> nat option \<Rightarrow> (nat \<times> 'n) list \<Rightarrow> 'w mach \<Rightarrow>
   (nat \<times> 'n) list \<times> 'w mach" where
  "free_chain nx clear None st m = (st, m)"
| "free_chain nx clear (Some a) st m =
     (case map_of st a of
        None \<Rightarrow> (st, m\<lparr>fault := True\<rparr>)
      | Some nd \<Rightarrow> free_chain nx clear (nx nd) (AList.delete a st) (clear a nd m))"
  by pat_completeness auto
termination
proof (relation "measure (\<lambda>(nx, clear, p, st, m). length st)", goal_cases)
  case (2 nx clear a st m nd)
  then have "a \<in> fst ` set st"
    by (metis (no_types, lifting) domI dom_map_of_conv_image_fst)
  then have "length (AList.delete a st) < length st"
    unfolding AList.delete_eq by (force simp: length_filter_less)
  then show ?case by simp
qed simp

text \<open>
  \<open>poll_result\<close>: the first node leaves the connection's heap, its owner is now the caller.
\<close>

definition poll_head ::
  "('n \<Rightarrow> nat option) \<Rightarrow> nat option \<Rightarrow> (nat \<times> 'n) list \<Rightarrow> 'w mach \<Rightarrow>
   (nat \<times> 'n) option \<times> nat option \<times> (nat \<times> 'n) list \<times> 'w mach" where
  "poll_head nx head st m =
     (case head of
        None \<Rightarrow> (None, None, st, m)
      | Some a \<Rightarrow>
          (case map_of st a of
             None \<Rightarrow> (None, None, st, m\<lparr>fault := True\<rparr>)
           | Some nd \<Rightarrow> (Some (a, nd), nx nd, AList.delete a st, m)))"

section \<open>Stores of nodes\<close>

lemma update_new: "a \<notin> fst ` set st \<Longrightarrow> AList.update a v st = st @ [(a, v)]"
  by (induction st) auto

lemma delete_filter: "AList.delete a st = filter (\<lambda>n. fst n \<noteq> a) st"
  by (induction st) auto

lemma update_at: "a \<notin> fst ` set st \<Longrightarrow> AList.update a v (st @ (a, u) # ts) = st @ (a, v) # ts"
  by (induction st) auto

text \<open>\<open>ids a nd\<close>: what the node at \<open>a\<close> owns, its own block included.\<close>

definition store_ids :: "(nat \<Rightarrow> 'n \<Rightarrow> nat list) \<Rightarrow> (nat \<times> 'n) list \<Rightarrow> nat list" where
  "store_ids ids st = concat (map (\<lambda>(a, nd). ids a nd) st)"

lemma store_ids_simps [simp]:
  "store_ids ids [] = []" "store_ids ids ((a, nd) # st) = ids a nd @ store_ids ids st"
  "store_ids ids (st @ ts) = store_ids ids st @ store_ids ids ts"
  by (simp_all add: store_ids_def)

text \<open>The nodes of a chain, in order, and the rest of the store.\<close>

definition chain_nodes :: "(nat \<times> 'n) list \<Rightarrow> nat list \<Rightarrow> (nat \<times> 'n) list" where
  "chain_nodes st as = map (\<lambda>a. (a, the (map_of st a))) as"

definition off_chain :: "(nat \<times> 'n) list \<Rightarrow> nat list \<Rightarrow> (nat \<times> 'n) list" where
  "off_chain st as = filter (\<lambda>n. fst n \<notin> set as) st"

lemma chain_nodes_simps [simp]:
  "chain_nodes st [] = []" "chain_nodes st (a # as) = (a, the (map_of st a)) # chain_nodes st as"
  by (simp_all add: chain_nodes_def)

lemma off_chain_Nil [simp]: "off_chain st [] = st"
  by (simp add: off_chain_def)

lemma off_chain_delete: "off_chain (AList.delete a st) as = off_chain st (a # as)"
  by (auto simp: off_chain_def delete_filter intro: filter_cong)

lemma map_of_delete: "a \<noteq> b \<Longrightarrow> map_of (AList.delete a st) b = map_of st b"
  by (simp add: AList.delete_conv')

lemma delete_mset:
  assumes "distinct (map fst st)" "map_of st a = Some nd"
  shows "mset st = add_mset (a, nd) (mset (AList.delete a st))"
  using assms
proof (induction st)
  case Nil
  then show ?case by simp
next
  case (Cons n st)
  show ?case
  proof (cases "fst n = a")
    case True
    with Cons.prems(1) have "\<forall>x \<in> set st. fst x \<noteq> a" by (metis (no_types) distinct.simps(2) image_eqI list.simps(9) set_map)
    then have "AList.delete a st = st"
      unfolding delete_filter filter_id_conv .
    with True Cons.prems(2) show ?thesis by (cases n) (auto simp: delete_filter)
  next
    case False
    with Cons show ?thesis by (cases n) (auto simp: delete_filter)
  qed
qed

lemma store_ids_mset: "mset st = mset ts \<Longrightarrow> mset (store_ids ids st) = mset (store_ids ids ts)"
proof -
  have "mset (store_ids ids st) = \<Sum>\<^sub># (image_mset (\<lambda>(a, nd). mset (ids a nd)) (mset st))" for st
    by (induction st) auto
  then show "mset st = mset ts \<Longrightarrow> mset (store_ids ids st) = mset (store_ids ids ts)"
    by simp
qed

lemma delete_ids_mset:
  "distinct (map fst st) \<Longrightarrow> map_of st a = Some nd \<Longrightarrow>
   mset (store_ids ids st) = mset (ids a nd) + mset (store_ids ids (AList.delete a st))"
  using store_ids_mset [of st "(a, nd) # AList.delete a st" ids] delete_mset [of st a nd] by simp

lemma distinct_delete: "distinct (map fst st) \<Longrightarrow> distinct (map fst (AList.delete a st))"
  by (simp add: delete_filter distinct_map_filter)

text \<open>
  \<open>store_ok nx ids pre st head m\<close>: a connection owns the resources \<open>pre\<close> and its nodes \<open>st\<close>, and
  \<open>head\<close> starts a chain of them.
\<close>

definition store_ok ::
  "('n \<Rightarrow> nat option) \<Rightarrow> (nat \<Rightarrow> 'n \<Rightarrow> nat list) \<Rightarrow> nat list \<Rightarrow> (nat \<times> 'n) list \<Rightarrow> nat option \<Rightarrow> 'w mach \<Rightarrow> bool"
where
  "store_ok nx ids pre st head m \<longleftrightarrow> owned (pre @ store_ids ids st) m \<and> distinct (map fst st) \<and>
     (\<exists>as. chain_at nx (map_of st) head as \<and> distinct as)"

lemma store_ok_ext [simp]: "store_ok nx ids pre st head (m\<lparr>ext := w\<rparr>) = store_ok nx ids pre st head m"
  by (simp add: store_ok_def)

lemma store_ok_owned: "store_ok nx ids pre st head m \<Longrightarrow> owned (pre @ store_ids ids st) m"
  by (simp add: store_ok_def)

lemma store_ok_mset: "store_ok nx ids pre st head m \<Longrightarrow> mset pre' = mset pre \<Longrightarrow> store_ok nx ids pre' st head m"
  using owned_mset [of "pre @ store_ids ids st" m "pre' @ store_ids ids st"] by (simp add: store_ok_def)

lemma store_ok_acquired:
  assumes "store_ok nx ids pre st head m" "acquired m xs m'" "mset pre' = mset pre + mset xs"
  shows "store_ok nx ids pre' st head m'"
  using assms owned_mset [OF owned_grow [OF store_ok_owned [OF assms(1)] assms(2)], of "pre' @ store_ids ids st"]
  by (simp add: store_ok_def)

lemma store_ok_released:
  "store_ok nx ids (xs @ pre) st head m \<Longrightarrow> released m (set xs) m' \<Longrightarrow> store_ok nx ids pre st head m'"
  using owned_shrink [of xs "pre @ store_ids ids st" m m'] by (simp add: store_ok_def)

lemma store_ok_quiet: "store_ok nx ids pre st head m \<Longrightarrow> released m {} m' \<Longrightarrow> store_ok nx ids pre st head m'"
  using store_ok_released [of nx ids "[]" pre st head m m'] by simp

text \<open>
  \<open>grown\<close>: from \<open>m\<close> to \<open>m'\<close> exactly the resources of the new nodes were acquired, and \<open>head'\<close>
  starts a chain of the new store; it holds every node when there was none before.
\<close>

definition grown ::
  "('n \<Rightarrow> nat option) \<Rightarrow> (nat \<Rightarrow> 'n \<Rightarrow> nat list) \<Rightarrow> (nat \<times> 'n) list \<Rightarrow> 'w mach \<Rightarrow> (nat \<times> 'n) list \<Rightarrow> nat option \<Rightarrow>
   'w mach \<Rightarrow> bool" where
  "grown nx ids st m st' head' m' \<longleftrightarrow>
     (\<exists>xs. acquired m xs m' \<and> mset (store_ids ids st') = mset (store_ids ids st) + mset xs) \<and>
     distinct (map fst st') \<and>
     (\<exists>as. chain_at nx (map_of st') head' as \<and> distinct as \<and> (st = [] \<longrightarrow> fst ` set st' = set as))"

lemma grown_store_ok:
  assumes ok: "store_ok nx ids pre st head m" and g: "grown nx ids st m st' head' m'"
  shows "store_ok nx ids pre st' head' m'"
proof -
  from g obtain xs where xs: "acquired m xs m'" "mset (store_ids ids st') = mset (store_ids ids st) + mset xs"
    by (auto simp: grown_def)
  have "owned (pre @ store_ids ids st') m'"
    by (rule owned_mset [OF owned_grow [OF store_ok_owned [OF ok] xs(1)]]) (simp add: xs(2))
  with g show ?thesis by (auto simp: store_ok_def grown_def)
qed

lemma grown_same:
  assumes "store_ok nx ids pre st head m" "acquired m [] m'"
  shows "grown nx ids st m st head m'"
proof -
  from assms(1) obtain as where as: "chain_at nx (map_of st) head as" "distinct as" "distinct (map fst st)"
    by (auto simp: store_ok_def)
  have "st = [] \<longrightarrow> fst ` set st = set as" using chain_at_dom [OF as(1)] by auto
  with as assms(2) show ?thesis unfolding grown_def by fastforce
qed

lemma grown_ext [simp]: "grown nx ids st m st' head' (m'\<lparr>ext := w\<rparr>) = grown nx ids st m st' head' m'"
  "grown nx ids st (m\<lparr>ext := w\<rparr>) st' head' m' = grown nx ids st m st' head' m'"
  by (simp_all add: grown_def)

section \<open>The contract\<close>

text \<open>
  \<open>nx\<close>, \<open>set_nx\<close>: the link and its update; \<open>ids\<close>: what a node owns; \<open>clear\<close> frees exactly that;
  \<open>view\<close>: the node's content, which the link is no part of.
\<close>

locale result_nodes =
  fixes nx :: "'n \<Rightarrow> nat option" and set_nx :: "nat option \<Rightarrow> 'n \<Rightarrow> 'n"
    and ids :: "nat \<Rightarrow> 'n \<Rightarrow> nat list" and clear :: "nat \<Rightarrow> 'n \<Rightarrow> 'w mach \<Rightarrow> 'w mach"
    and view :: "'n \<Rightarrow> 'v"
  assumes nx_set: "nx (set_nx p nd) = p" and ids_set: "ids a (set_nx p nd) = ids a nd"
    and ids_self: "a \<in> set (ids a nd)" and view_set: "view (set_nx p nd) = view nd"
    and clear_law: "owned (ids a nd @ zs) m \<Longrightarrow> clear a nd m = free_all (ids a nd) m"
begin

lemma store_dom: "fst ` set st \<subseteq> set (store_ids ids st)"
  using ids_self by (force simp: store_ids_def)

lemma new_key: "owned (store_ids ids st @ zs) m \<Longrightarrow> w \<notin> live m \<Longrightarrow> w \<notin> fst ` set st"
  using store_dom by (auto simp: owned_def)

text \<open>Freeing a chain gives back exactly what its nodes own and leaves the rest of the store.\<close>

lemma free_chain_eq:
  "chain_at nx (map_of st) p as \<Longrightarrow> distinct as \<Longrightarrow> distinct (map fst st) \<Longrightarrow>
   owned (store_ids ids st @ zs) m \<Longrightarrow>
   free_chain nx clear p st m = (off_chain st as, free_all (store_ids ids (chain_nodes st as)) m) \<and>
   mset (store_ids ids st) = mset (store_ids ids (chain_nodes st as)) + mset (store_ids ids (off_chain st as))"
proof (induction as arbitrary: p st m)
  case Nil
  then show ?case by simp
next
  case (Cons a as)
  let ?st = "AList.delete a st"
  from Cons.prems obtain nd where p: "p = Some a" and nd: "map_of st a = Some nd"
    and ch: "chain_at nx (map_of st) (nx nd) as" by auto
  have same: "map_of ?st b = map_of st b" if "b \<in> set as" for b
    using that Cons.prems(2) by (intro map_of_delete) auto
  with ch have ch': "chain_at nx (map_of ?st) (nx nd) as"
    using chain_at_cong [of as "map_of ?st" "map_of st"] by simp
  note split = delete_ids_mset [OF Cons.prems(3) nd, of ids]
  have own: "owned (ids a nd @ store_ids ids ?st @ zs) m"
    using split by (intro owned_mset [OF Cons.prems(4)]) simp
  have nodes: "chain_nodes ?st as = chain_nodes st as"
    using same by (simp add: chain_nodes_def)
  from Cons.IH [OF ch' _ distinct_delete [OF Cons.prems(3)] owned_free [OF own]] Cons.prems(2)
  show ?case
    by (simp add: p nd clear_law [OF own] nodes off_chain_delete free_all_append split)
qed

text \<open>Polling takes the first node; what it owns leaves the store.\<close>

lemma poll_head_eq:
  assumes "chain_at nx (map_of st) p (a # as)" "distinct (a # as)" "distinct (map fst st)"
  shows "\<exists>nd. map_of st a = Some nd \<and> poll_head nx p st m = (Some (a, nd), nx nd, AList.delete a st, m) \<and>
    chain_at nx (map_of (AList.delete a st)) (nx nd) as \<and>
    mset (store_ids ids st) = mset (ids a nd) + mset (store_ids ids (AList.delete a st))"
proof -
  from assms obtain nd where p: "p = Some a" and nd: "map_of st a = Some nd"
    and ch: "chain_at nx (map_of st) (nx nd) as" by auto
  have "map_of (AList.delete a st) b = map_of st b" if "b \<in> set as" for b
    using that assms(2) by (intro map_of_delete) auto
  with ch chain_at_cong [of as "map_of (AList.delete a st)" "map_of st"] p nd
    delete_ids_mset [OF assms(3) nd, of ids] show ?thesis
    by (auto simp: poll_head_def)
qed

subsection \<open>Building a chain behind what the store already holds\<close>

text \<open>
  \<open>building st0 st head tail news\<close>: \<open>news\<close> are the nodes linked so far, in order, added to the
  store \<open>st0\<close>.
\<close>

definition building ::
  "(nat \<times> 'n) list \<Rightarrow> (nat \<times> 'n) list \<Rightarrow> nat option \<Rightarrow> nat option \<Rightarrow> (nat \<times> 'n) list \<Rightarrow> bool" where
  "building st0 st head tail news \<longleftrightarrow>
     st = st0 @ news \<and> distinct (map fst st) \<and> chain_at nx (map_of st) head (map fst news) \<and>
     (news \<noteq> [] \<longrightarrow> tail = Some (fst (last news)) \<and> nx (snd (last news)) = None)"

lemma building_start: "distinct (map fst st0) \<Longrightarrow> building st0 st0 None tail []"
  by (simp add: building_def)

lemma map_of_app: "distinct (map fst (xs @ ys)) \<Longrightarrow> a \<in> fst ` set ys \<Longrightarrow> map_of (xs @ ys) a = map_of ys a"
proof -
  assume "distinct (map fst (xs @ ys))" "a \<in> fst ` set ys"
  then have "a \<notin> fst ` set xs" by auto
  then have "map_of xs a = None" by (simp add: map_of_eq_None_iff)
  then show ?thesis by (simp add: map_add_def)
qed

lemma building_keys: "distinct (map fst (xs @ ys)) \<Longrightarrow> n \<in> set ys \<Longrightarrow> fst n \<notin> fst ` set xs"
  by auto

lemma building_nodes:
  assumes "building st0 st head tail news"
  shows "chain_nodes st (map fst news) = news"
proof -
  from assms have st: "st = st0 @ news" and d: "distinct (map fst (st0 @ news))"
    unfolding building_def by blast+
  have "the (map_of st (fst n)) = snd n" if "n \<in> set news" for n
  proof -
    have "map_of news (fst n) = Some (snd n)"
      using that d by (intro map_of_is_SomeI) simp_all
    then show ?thesis using that map_of_app [OF d, of "fst n"] by (simp add: st)
  qed
  then show ?thesis by (simp add: chain_nodes_def map_idI)
qed

lemma building_link:
  assumes b: "building st0 st head tail news" and w: "w \<notin> fst ` set st" and new: "nx new = None"
  shows "\<exists>head' st' news'. link_node set_nx head tail w new st m = (head', Some w, st', m) \<and>
    building st0 st' head' (Some w) news' \<and> map (view \<circ> snd) news' = map (view \<circ> snd) news @ [view new] \<and>
    store_ids ids news' = store_ids ids news @ ids w new"
proof (cases news rule: rev_cases)
  case Nil
  with b have "st = st0" "head = None" by (auto simp: building_def)
  with b w new Nil have "link_node set_nx head tail w new st m = (Some w, Some w, st0 @ [(w, new)], m)"
    "building st0 (st0 @ [(w, new)]) (Some w) (Some w) [(w, new)]"
    by (auto simp: link_node_def update_new building_def map_of_app simp del: map_of_append)
  with Nil show ?thesis by (intro exI conjI) auto
next
  case (snoc ns x)
  obtain t nd where x: "x = (t, nd)" by (cases x)
  let ?nd = "set_nx (Some w) nd" and ?st = "st0 @ ns @ [(t, set_nx (Some w) nd), (w, new)]"
  from b have "st = st0 @ news" and d: "distinct (map fst st)"
    and "chain_at nx (map_of st) head (map fst news)" "news \<noteq> [] \<longrightarrow> tail = Some (fst (last news))"
    unfolding building_def by blast+
  with snoc x have st: "st = st0 @ ns @ [(t, nd)]" and tl: "tail = Some t"
    and ch: "chain_at nx (map_of st) head (map fst ns @ [t])"
    by simp_all
  from ch obtain a where hd: "head = Some a" by (cases ns) auto
  have keys: "t \<notin> fst ` set (st0 @ ns)" "t \<noteq> w" using d w by (auto simp: st)
  have none: "map_of (st0 @ ns) t = None" "map_of (st0 @ ns @ [(t, nd)]) w = None"
    using keys(1) w by (simp_all only: map_of_eq_None_iff st) simp_all
  have "map_of (st @ [(w, new)]) t = Some nd"
    using none keys(2) by (auto simp: st map_add_def split: option.splits)
  moreover have "AList.update t ?nd (st @ [(w, new)]) = ?st"
    using update_at [OF keys(1), of ?nd nd "[(w, new)]"] by (simp add: st)
  ultimately have link: "link_node set_nx head tail w new st m = (head, Some w, ?st, m)"
    by (simp add: link_node_def update_new [OF w] hd tl)
  have "map_of ?st = (map_of st)(t \<mapsto> ?nd, w \<mapsto> new)"
    using none keys(2) by (intro ext) (auto simp: st map_add_def split: option.splits if_splits)
  moreover have "distinct (map fst ns @ [t])" "w \<notin> set (map fst ns @ [t])"
    using d w by (auto simp: st)
  ultimately have "chain_at nx (map_of ?st) head (map fst ns @ [t, w])"
    using chain_at_snoc [OF ch, of w ?nd new] by (simp add: nx_set new)
  moreover have "distinct (map fst ?st)" using d w by (auto simp: st)
  ultimately have "building st0 ?st head (Some w) (ns @ [(t, ?nd), (w, new)])"
    by (simp add: building_def new)
  with link snoc x show ?thesis
    by (intro exI conjI) (auto simp: ids_set view_set)
qed

lemma building_distinct: "building st0 st head tail news \<Longrightarrow> distinct (map fst news)"
  by (auto simp: building_def)

text \<open>An aborted build gives everything back: the store is what it was.\<close>

lemma building_abort:
  assumes b: "building st0 st head tail news" and own: "owned (store_ids ids st0 @ store_ids ids news @ zs) m"
  shows "free_chain nx clear head st m = (st0, free_all (store_ids ids news) m)"
proof -
  from b have st: "st = st0 @ news" and d: "distinct (map fst st)"
    and ch: "chain_at nx (map_of st) head (map fst news)"
    unfolding building_def by blast+
  note building_nodes [OF b]
  moreover have "off_chain st (map fst news) = st0"
  proof -
    have "\<forall>n \<in> set st0. fst n \<notin> set (map fst news)" using d by (force simp: st)
    then show ?thesis by (simp add: off_chain_def st filter_empty_conv filter_id_conv)
  qed
  moreover have "owned (store_ids ids st @ zs) m" using own by (simp add: st)
  ultimately show ?thesis
    using free_chain_eq [OF ch _ d] b by (simp add: building_distinct)
qed

subsection \<open>What the operations do to a connection's nodes\<close>

text \<open>One new node replaces the chain: the nodes of the old one stay in the store.\<close>

lemma grown_put:
  assumes ok: "store_ok nx ids pre st head m" and acq: "acquired m (ids w nd) m'" and nd: "nx nd = None"
  shows "grown nx ids st m (AList.update w nd st) (Some w) m'"
proof -
  have own: "owned (store_ids ids st @ pre) m"
    by (rule owned_mset [OF store_ok_owned [OF ok]]) simp
  have "ledger_ok m" using own by (simp add: owned_def)
  then have "w \<notin> live m"
    using acq ids_self [of w nd] by (force simp: acquired_def ledger_ok_def)
  from new_key [OF own this] have w: "w \<notin> fst ` set st" .
  have d: "distinct (map fst (st @ [(w, nd)]))"
    using ok w by (simp add: store_ok_def)
  have "chain_at nx (map_of (st @ [(w, nd)])) (Some w) [w]"
    using map_of_app [OF d, of w] nd by (simp del: map_of_append)
  moreover have "mset (store_ids ids (st @ [(w, nd)])) = mset (store_ids ids st) + mset (ids w nd)" by simp
  ultimately show ?thesis
    unfolding grown_def update_new [OF w] using acq d
    by (intro conjI exI [of _ "ids w nd"] exI [of _ "[w]"]) (simp_all del: map_of_append)
qed

lemma grown_built:
  assumes b: "building st0 st head tail news" and acq: "acquired m0 (store_ids ids news) m"
  shows "grown nx ids st0 m0 st head m"
proof -
  from b have st: "st = st0 @ news" "distinct (map fst st)" "chain_at nx (map_of st) head (map fst news)"
    unfolding building_def by blast+
  then show ?thesis
    unfolding grown_def using acq building_distinct [OF b]
    by (intro conjI exI [of _ "store_ids ids news"] exI [of _ "map fst news"]) (simp_all del: map_of_append)
qed

text \<open>The same for a chain under construction: one more node, or everything given back.\<close>

lemma built_link:
  assumes b: "building st0 st head tail news" and own: "owned (pre @ store_ids ids st0) m0"
    and acq: "acquired m0 (store_ids ids news @ ids w new) m" and new: "nx new = None"
  shows "\<exists>head' st' news'. link_node set_nx head tail w new st m = (head', Some w, st', m) \<and>
    building st0 st' head' (Some w) news' \<and> map (view \<circ> snd) news' = map (view \<circ> snd) news @ [view new] \<and>
    acquired m0 (store_ids ids news') m"
proof -
  have st: "st = st0 @ news" using b unfolding building_def by blast
  from owned_grow [OF own acq] have d: "distinct (pre @ store_ids ids st0 @ store_ids ids news @ ids w new)"
    by (simp add: owned_def)
  have "w \<notin> fst ` set st"
    using d ids_self [of w new] store_dom [of st] by (auto simp: st)
  from building_link [OF b this new, of m] acq show ?thesis by fastforce
qed

lemma built_abort:
  assumes b: "building st0 st head tail news" and own: "owned (pre @ store_ids ids st0) m0"
    and acq: "acquired m0 (store_ids ids news @ zs) m"
    and free: "free_chain nx clear head st (free_all zs m) = (st', m')"
  shows "st' = st0 \<and> acquired m0 [] m' \<and> oom m' = oom m \<and> ext m' = ext m"
proof -
  have own1: "owned (zs @ store_ids ids st0 @ store_ids ids news @ pre) m"
    by (rule owned_mset [OF owned_grow [OF own acq]]) simp
  from building_abort [OF b owned_free [OF own1]] free
  have "st' = st0" "m' = free_all (zs @ store_ids ids news) m" by (simp_all add: free_all_append)
  moreover have "distinct (zs @ store_ids ids news)"
    using own1 by (auto simp: owned_def)
  moreover have "ledger_ok m0" using own by (simp add: owned_def)
  ultimately show ?thesis using acquired_free_every [OF _ acq, of "zs @ store_ids ids news"] by (auto simp: free_all_frame)
qed

text \<open>A chain that holds every node is freed with nothing left.\<close>

lemma store_free_all:
  assumes ok: "store_ok nx ids pre st head m"
    and all: "chain_at nx (map_of st) head as" "distinct as" "fst ` set st = set as"
  shows "\<exists>m'. free_chain nx clear head st m = ([], m') \<and> released m (set (store_ids ids st)) m' \<and> owned pre m' \<and>
    oom m' = oom m"
proof -
  let ?xs = "store_ids ids (chain_nodes st as)"
  have own: "owned (store_ids ids st @ pre) m"
    by (rule owned_mset [OF store_ok_owned [OF ok]]) simp
  have "off_chain st as = []" using all(3) by (auto simp: off_chain_def filter_empty_conv)
  with free_chain_eq [OF all(1,2) _ own] ok
  have f: "free_chain nx clear head st m = ([], free_all ?xs m)" "mset (store_ids ids st) = mset ?xs"
    by (simp_all add: store_ok_def)
  have own': "owned (?xs @ pre) m" by (rule owned_mset [OF own]) (simp add: f(2))
  then have "released m (set ?xs) (free_all ?xs m)"
    by (intro free_all_released) (simp_all add: owned_def)
  with f owned_free [OF own'] mset_eq_setD [OF f(2)] show ?thesis by (simp add: free_all_frame)
qed

text \<open>Tearing a connection down: its thread, its chain, then the rest of its handles.\<close>

lemma store_dismantle:
  assumes ok: "store_ok nx ids (w # rest) st head m"
    and all: "chain_at nx (map_of st) head as" "distinct as" "fst ` set st = set as"
  shows "\<exists>m'. free_chain nx clear head st (rfree w m) = ([], m') \<and> oom m' = oom m \<and>
    (\<forall>x. released m (set (w # rest @ store_ids ids st)) (free_all rest (m'\<lparr>ext := x\<rparr>)))"
proof -
  have own: "owned (w # rest @ store_ids ids st) m" using store_ok_owned [OF ok] by simp
  then have rel: "released m {w} (rfree w m)" by (intro rfree_released) (simp add: owned_def)
  have "store_ok nx ids rest st head (rfree w m)"
    using ok rel by (intro store_ok_released [of nx ids "[w]" rest]) simp_all
  from store_free_all [OF this all] obtain m' where m': "free_chain nx clear head st (rfree w m) = ([], m')"
    "released (rfree w m) (set (store_ids ids st)) m'" "owned rest m'" "oom m' = oom m"
    by (auto simp: rfree_frame)
  have "released (m'\<lparr>ext := x\<rparr>) (set rest) (free_all rest (m'\<lparr>ext := x\<rparr>))" for x
    using m'(3) by (intro free_all_released) (simp_all add: owned_def)
  then have "released m' (set rest) (free_all rest (m'\<lparr>ext := x\<rparr>))" for x by simp
  from released_trans [OF released_trans [OF rel m'(2)] this] m'(1,4) show ?thesis
    by (intro exI [of _ m']) (simp add: Un_commute insert_commute)
qed

lemma store_poll:
  assumes ok: "store_ok nx ids pre st head m" and poll: "poll_head nx head st m = (r, head', st', m')"
  shows "m' = m \<and> store_ok nx ids pre st' head' m \<and>
    (case r of None \<Rightarrow> st' = st | Some (a, nd) \<Rightarrow> owned (ids a nd @ pre @ store_ids ids st') m)"
proof -
  from ok obtain as where as: "chain_at nx (map_of st) head as" "distinct as" "distinct (map fst st)"
    and own: "owned (pre @ store_ids ids st) m"
    by (auto simp: store_ok_def)
  show ?thesis
  proof (cases as)
    case Nil
    with as(1) poll ok show ?thesis by (auto simp: poll_head_def)
  next
    case (Cons a bs)
    from poll_head_eq [OF as [unfolded Cons], of m] obtain nd where
      nd: "poll_head nx head st m = (Some (a, nd), nx nd, AList.delete a st, m)"
      and ch: "chain_at nx (map_of (AList.delete a st)) (nx nd) bs"
      and ids: "mset (store_ids ids st) = mset (ids a nd) + mset (store_ids ids (AList.delete a st))"
      by blast
    have "owned (ids a nd @ pre @ store_ids ids (AList.delete a st)) m"
      by (rule owned_mset [OF own]) (simp add: ids)
    with owned_drop(1) [OF this] nd ch poll as(2) distinct_delete [OF as(3)] show ?thesis
      by (auto simp: store_ok_def Cons)
  qed
qed

lemma store_free:
  assumes ok: "store_ok nx ids pre st head m" and run: "free_chain nx clear head st m = (st', m')"
  shows "\<exists>xs. m' = free_all xs m \<and> released m (set xs) m' \<and> store_ok nx ids pre st' None m' \<and>
    mset (store_ids ids st) = mset xs + mset (store_ids ids st') \<and>
    (\<forall>as. chain_at nx (map_of st) head as \<longrightarrow> xs = store_ids ids (chain_nodes st as))"
proof -
  from ok obtain as where as: "chain_at nx (map_of st) head as" "distinct as" "distinct (map fst st)"
    and own: "owned (pre @ store_ids ids st) m"
    by (auto simp: store_ok_def)
  let ?xs = "store_ids ids (chain_nodes st as)"
  have own': "owned (store_ids ids st @ pre) m" by (rule owned_mset [OF own]) simp
  from free_chain_eq [OF as own'] run have st': "st' = off_chain st as" "m' = free_all ?xs m"
    and split: "mset (store_ids ids st) = mset ?xs + mset (store_ids ids st')"
    by simp_all
  have o: "owned (?xs @ pre @ store_ids ids st') m"
    by (rule owned_mset [OF own]) (simp add: split)
  then have rel: "released m (set ?xs) m'"
    unfolding st'(2) by (intro free_all_released) (simp_all add: owned_def)
  have "distinct (map fst st')" using as(3) by (simp add: st'(1) off_chain_def distinct_map_filter)
  then have "store_ok nx ids pre st' None m'"
    using owned_shrink [OF o rel] by (auto simp: store_ok_def intro!: exI [of _ "[]"])
  with st'(2) rel split chain_at_unique [OF as(1)] show ?thesis by blast
qed

text \<open>A chain followed with \<open>poll_result\<close> yields the contents in order.\<close>

fun poll_all :: "nat \<Rightarrow> nat option \<Rightarrow> (nat \<times> 'n) list \<Rightarrow> 'w mach \<Rightarrow> (nat \<times> 'n) option list" where
  "poll_all 0 p st m = []"
| "poll_all (Suc k) p st m = (case poll_head nx p st m of (r, p', st', m') \<Rightarrow> r # poll_all k p' st' m')"

lemma poll_all_chain:
  "chain_at nx (map_of st) p as \<Longrightarrow> distinct as \<Longrightarrow> distinct (map fst st) \<Longrightarrow>
   poll_all (length as) p st m = map Some (chain_nodes st as)"
proof (induction as arbitrary: p st)
  case Nil
  then show ?case by simp
next
  case (Cons a as)
  from poll_head_eq [OF Cons.prems] obtain nd where
    nd: "map_of st a = Some nd" "poll_head nx p st m = (Some (a, nd), nx nd, AList.delete a st, m)"
    "chain_at nx (map_of (AList.delete a st)) (nx nd) as" by blast
  have "chain_nodes (AList.delete a st) as = chain_nodes st as"
    unfolding chain_nodes_def using Cons.prems(2) map_of_delete [of a _ st] by (intro map_cong) fastforce+
  with Cons.IH [OF nd(3) _ distinct_delete [OF Cons.prems(3)]] Cons.prems(2) nd(1,2) show ?case
    by simp
qed

end

end
