(* ===== verification/My_Conn.thy ===== *)
theory My_Conn
  imports My_Env Result_Chain
begin

text \<open>
  One MySQL connection: \<open>struct mysql_conn\<close> and \<open>struct native_mysql_result\<close> of
  mysql_pool_internal.h, and the operations of mysql_pool.c on them: the slot payload, the
  three submissions, poll and cancel. The result wrappers are heap nodes linked by their
  \<open>next\<close> field, kept in \<open>results\<close>; the back pointer \<open>pool\<close> is used for the credentials
  only. Messages to stderr are left out.
\<close>

record 'r native_mysql_result =
  mr_res :: "'r cell option"
  affected_rows :: int
  col_count :: int
  cached_row :: int
  mr_row :: "string option list option"
  mr_lengths :: "int list"
  mr_next :: "nat option"

record 'r mysql_conn =
  my :: "nat option"
  thread_id :: "64 word"
  my_pool :: "my_creds option"
  index :: int
  in_use :: bool
  worker :: nat
  slot_mutex :: nat
  slot_cond :: nat
  slot_filled :: bool
  is_batch :: bool
  is_multi_read :: bool
  sql :: "string cell option"
  port_id :: int
  timeout_ms :: int
  results :: "(nat \<times> 'r native_mysql_result) list"
  last_result :: "nat option"
  last_errno :: int
  last_error :: string
  shutdown_requested :: bool

section \<open>The slot\<close>

definition mysql_pool_free_slot_payload :: "'r mysql_conn \<Rightarrow> 'w mach \<Rightarrow> 'r mysql_conn \<times> 'w mach" where
  "mysql_pool_free_slot_payload conn m =
     (conn\<lparr>sql := None, is_batch := False, is_multi_read := False, port_id := 0, timeout_ms := 0\<rparr>,
      cfree (sql conn) m)"

text \<open>The four pools have the same static \<open>dup_string\<close>.\<close>

definition mysql_dup_string :: "string option \<Rightarrow> 'w mach \<Rightarrow> string cell option \<times> 'w mach" where
  "mysql_dup_string s m = (case s of None \<Rightarrow> (None, m) | Some b \<Rightarrow> halloc b m)"

lemma mysql_dup_string_eq: "mysql_dup_string = dup_string"
  by (intro ext) (simp add: mysql_dup_string_def dup_string_def)

definition mysql_pool_submit_query ::
  "'r mysql_conn option \<Rightarrow> string option \<Rightarrow> int \<Rightarrow> int \<Rightarrow> 'w mach \<Rightarrow> int \<times> 'r mysql_conn option \<times> 'w mach"
where
  "mysql_pool_submit_query conn q port t m =
     (case (conn, q) of
        (Some c, Some text) \<Rightarrow>
          (let m1 = mutex_lock (slot_mutex c) m in
           if slot_filled c \<or> shutdown_requested c then (0, conn, mutex_unlock (slot_mutex c) m1)
           else (case mysql_dup_string (Some text) m1 of
               (None, m2) \<Rightarrow> (0, conn, mutex_unlock (slot_mutex c) m2)
             | (Some s, m2) \<Rightarrow>
                 (1, Some (c\<lparr>slot_filled := True, sql := Some s, port_id := port, timeout_ms := t\<rparr>),
                  mutex_unlock (slot_mutex c) (cond_signal (slot_cond c) m2))))
      | _ \<Rightarrow> (0, conn, m))"

text \<open>
  \<open>join_stmts\<close>: the size loop, which refuses a NULL statement, and the copy loop through
  \<open>char *p\<close>. Each size counts a separator, so the block has one byte more than the text.
\<close>

fun my_join_size :: "string option list \<Rightarrow> nat \<Rightarrow> nat option" where
  "my_join_size [] n = Some n"
| "my_join_size (None # qs) n = None"
| "my_join_size (Some q # qs) n = my_join_size qs (n + (length q + 1))"

fun my_join_copy :: "nat \<Rightarrow> nat \<Rightarrow> string list \<Rightarrow> nat \<Rightarrow> string \<Rightarrow> 'w mach \<Rightarrow> nat \<times> string \<times> 'w mach" where
  "my_join_copy cnt i [] p buf m = (p, buf, m)"
| "my_join_copy cnt i (q # qs) p buf m =
     (let (buf1, m1) = write_bytes p q buf m;
          p1 = p + length q;
          (p2, buf2, m2) =
            (if i + 1 < cnt then (let (b, m2) = write_bytes p1 '';'' buf1 m1 in (p1 + 1, b, m2))
             else (p1, buf1, m1))
      in my_join_copy cnt (Suc i) qs p2 buf2 m2)"

definition join_stmts :: "string option list \<Rightarrow> int \<Rightarrow> 'w mach \<Rightarrow> string cell option \<times> 'w mach" where
  "join_stmts stmts cnt m =
     (let (qs, m0) = read_array (nat cnt) stmts m in
      case my_join_size qs 1 of
        None \<Rightarrow> (None, m0)
      | Some block \<Rightarrow>
          (case halloc () m0 of
             (None, m1) \<Rightarrow> (None, m1)
           | (Some blk, m1) \<Rightarrow>
               (let (p, buf, m2) = my_join_copy (nat cnt) 0 (map the qs) 0 (replicate block (CHR 0xCC)) m1;
                    (buf1, m3) = write_bytes p [CHR 0x00] buf m2
                in (Some (Cell (addr blk) buf1), m3))))"

text \<open>The two joined submissions differ in the flag they raise.\<close>

definition submit_joined ::
  "('r mysql_conn \<Rightarrow> 'r mysql_conn) \<Rightarrow> 'r mysql_conn option \<Rightarrow> string option list option \<Rightarrow> int \<Rightarrow> int \<Rightarrow> int \<Rightarrow>
   'w mach \<Rightarrow> int \<times> 'r mysql_conn option \<times> 'w mach" where
  "submit_joined raise conn stmts cnt port t m =
     (case (conn, stmts) of
        (Some c, Some qs) \<Rightarrow>
          (if cnt \<le> 0 then (0, conn, m)
           else (case join_stmts qs cnt m of
               (None, m1) \<Rightarrow> (0, conn, m1)
             | (Some joined, m1) \<Rightarrow>
                 (let m2 = mutex_lock (slot_mutex c) m1 in
                  if slot_filled c \<or> shutdown_requested c then
                    (0, conn, rfree (addr joined) (mutex_unlock (slot_mutex c) m2))
                  else
                    (1, Some (raise (c\<lparr>slot_filled := True, sql := Some joined, port_id := port, timeout_ms := t\<rparr>)),
                     mutex_unlock (slot_mutex c) (cond_signal (slot_cond c) m2)))))
      | _ \<Rightarrow> (0, conn, m))"

definition mysql_pool_submit_batch ::
  "'r mysql_conn option \<Rightarrow> string option list option \<Rightarrow> int \<Rightarrow> int \<Rightarrow> int \<Rightarrow> 'w mach \<Rightarrow>
   int \<times> 'r mysql_conn option \<times> 'w mach" where
  "mysql_pool_submit_batch = submit_joined (\<lambda>c. c\<lparr>is_batch := True\<rparr>)"

definition mysql_pool_submit_multi_read ::
  "'r mysql_conn option \<Rightarrow> string option list option \<Rightarrow> int \<Rightarrow> int \<Rightarrow> int \<Rightarrow> 'w mach \<Rightarrow>
   int \<times> 'r mysql_conn option \<times> 'w mach" where
  "mysql_pool_submit_multi_read = submit_joined (\<lambda>c. c\<lparr>is_multi_read := True\<rparr>)"

section \<open>Cancel and poll\<close>

definition mysql_pool_kill_query :: "('w, 'r) my_env \<Rightarrow> my_creds \<Rightarrow> 64 word \<Rightarrow> 'w mach \<Rightarrow> 'w mach" where
  "mysql_pool_kill_query E cr tid m =
     (case halloc () m of
        (None, m1) \<Rightarrow> m1
      | (Some k, m1) \<Rightarrow>
          (let h = addr k;
               w1 = (if mariadb_client E then ext m1 else mysql_options E h Ssl_mode_disabled (ext m1));
               (up, w2) = mysql_real_connect E h cr 0 w1;
               w3 = (if up then mysql_query E h (snprintf 64 (''KILL QUERY '' @ decimal (unat tid))) w2 else w2)
           in my_close E h (m1\<lparr>ext := w3\<rparr>)))"

definition mysql_pool_cancel :: "('w, 'r) my_env \<Rightarrow> 'r mysql_conn option \<Rightarrow> 'w mach \<Rightarrow> 'w mach" where
  "mysql_pool_cancel E conn m =
     (case conn of
        None \<Rightarrow> m
      | Some c \<Rightarrow> (case my_pool c of None \<Rightarrow> m | Some cr \<Rightarrow> mysql_pool_kill_query E cr (thread_id c) m))"

text \<open>\<open>native_mysql_clear_result\<close> on a node of the heap: its result, then its block.\<close>

definition native_mysql_clear_result :: "nat \<Rightarrow> 'r native_mysql_result \<Rightarrow> 'w mach \<Rightarrow> 'w mach" where
  "native_mysql_clear_result a nd m =
     rfree a (case mr_res nd of None \<Rightarrow> m | Some r \<Rightarrow> my_free_result r m)"

text \<open>
  The two loops that free a chain, \<open>free_result_chain\<close> of the worker and the one in
  \<open>teardown_conn\<close>.
\<close>

definition mysql_free_result_chain ::
  "nat option \<Rightarrow> (nat \<times> 'r native_mysql_result) list \<Rightarrow> 'w mach \<Rightarrow>
   (nat \<times> 'r native_mysql_result) list \<times> 'w mach" where
  "mysql_free_result_chain = free_chain mr_next native_mysql_clear_result"

definition native_mysql_poll_result ::
  "'r mysql_conn option \<Rightarrow> 'w mach \<Rightarrow> (nat \<times> 'r native_mysql_result) option \<times> 'r mysql_conn option \<times> 'w mach"
where
  "native_mysql_poll_result conn m =
     (case conn of
        None \<Rightarrow> (None, conn, m)
      | Some c \<Rightarrow>
          (let (r, head, st, m1) = poll_head mr_next (last_result c) (results c) m
           in (r, Some (c\<lparr>results := st, last_result := head\<rparr>), m1)))"

end
