(* ===== verification/My_Worker.thy ===== *)
theory My_Worker
  imports My_Conn Driver_Machine
begin

text \<open>
  The MySQL worker thread, mysql_pool_worker.c: error capture, the three ways to run a
  request, and one round of \<open>mysql_pool_worker_main\<close>. libmysqlclient blocks, so only the
  loops over \<open>mysql_next_result\<close> take fuel; \<open>None\<close> is a thread still looping.
\<close>

definition MY_PORT_OK :: int where "MY_PORT_OK = 1"
definition MY_PORT_ABORTED :: int where "MY_PORT_ABORTED = 2"

definition mysql_clear_conn_error :: "'r mysql_conn \<Rightarrow> 'r mysql_conn" where
  "mysql_clear_conn_error conn = conn\<lparr>last_errno := 0, last_error := []\<rparr>"

definition mysql_capture_conn_error :: "('w, 'r) my_env \<Rightarrow> nat \<Rightarrow> 'w \<Rightarrow> 'r mysql_conn \<Rightarrow> 'r mysql_conn" where
  "mysql_capture_conn_error E h w conn =
     (let e = mysql_errno E h w;
          msg = mysql_error E h w
      in conn\<lparr>last_errno := e,
              last_error := snprintf 512
                (if e = 0 \<and> (msg = None \<or> msg = Some []) then
                   ''query aborted with no MySQL error (native failure)''
                 else (case msg of None \<Rightarrow> [] | Some s \<Rightarrow> s))\<rparr>)"

text \<open>A \<open>calloc\<close>ed wrapper.\<close>

definition zero_result :: "'r native_mysql_result" where
  "zero_result = \<lparr>mr_res = None, affected_rows = 0, col_count = 0, cached_row = 0, mr_row = None,
     mr_lengths = [], mr_next = None\<rparr>"

definition free_opt_result :: "'r cell option \<Rightarrow> 'w mach \<Rightarrow> 'w mach" where
  "free_opt_result r m = (case r of None \<Rightarrow> m | Some c \<Rightarrow> my_free_result c m)"

definition num_fields :: "('w, 'r) my_env \<Rightarrow> 'r cell option \<Rightarrow> int" where
  "num_fields E r = (case r of None \<Rightarrow> 0 | Some c \<Rightarrow> sint (mysql_num_fields E (contents c)))"

definition my_execute_single ::
  "('w, 'r) my_env \<Rightarrow> nat \<Rightarrow> 'r mysql_conn \<Rightarrow> string \<Rightarrow> 'w mach \<Rightarrow> int \<times> 'r mysql_conn \<times> 'w mach" where
  "my_execute_single E h conn q m =
     (let (rc, w) = mysql_real_query E h q (ext m); m1 = m\<lparr>ext := w\<rparr> in
      if rc \<noteq> 0 then (MY_PORT_ABORTED, conn, m1)
      else let (res, m2) = my_store_result E h m1 in
        if res = None \<and> mysql_errno E h (ext m2) \<noteq> 0 then (MY_PORT_ABORTED, conn, m2)
        else (case halloc () m2 of
            (None, m3) \<Rightarrow> (MY_PORT_ABORTED, conn, free_opt_result res m3)
          | (Some blk, m3) \<Rightarrow>
              (let wrapped = zero_result\<lparr>mr_res := res,
                     affected_rows := (if res = None then sint (mysql_affected_rows E h (ext m3)) else 0),
                     col_count := num_fields E res, cached_row := -1, mr_row := None, mr_lengths := []\<rparr>
               in (MY_PORT_OK,
                   conn\<lparr>results := AList.update (addr blk) wrapped (results conn),
                        last_result := Some (addr blk)\<rparr>, m3))))"

text \<open>The batch's drain: every result set is freed.\<close>

fun batch_drain :: "nat \<Rightarrow> ('w, 'r) my_env \<Rightarrow> nat \<Rightarrow> 'w mach \<Rightarrow> (int \<times> 'w mach) option" where
  "batch_drain 0 E h m = None"
| "batch_drain (Suc n) E h m =
     (let (r, m1) = my_store_result E h m in
      if r = None \<and> mysql_errno E h (ext m1) \<noteq> 0 then Some (MY_PORT_ABORTED, m1)
      else let m2 = free_opt_result r m1;
               (nx, w) = mysql_next_result E h (ext m2);
               m3 = m2\<lparr>ext := w\<rparr> in
        if nx > 0 then Some (MY_PORT_ABORTED, m3)
        else if nx < 0 then Some (MY_PORT_OK, m3)
        else batch_drain n E h m3)"

definition my_execute_batch ::
  "nat \<Rightarrow> ('w, 'r) my_env \<Rightarrow> nat \<Rightarrow> 'r mysql_conn \<Rightarrow> string \<Rightarrow> 'w mach \<Rightarrow>
   (int \<times> 'r mysql_conn \<times> 'w mach) option" where
  "my_execute_batch fuel E h conn q m =
     (let (rc, w) = mysql_real_query E h q (ext m); m1 = m\<lparr>ext := w\<rparr> in
      if rc \<noteq> 0 then Some (MY_PORT_ABORTED, conn, m1)
      else (case batch_drain fuel E h m1 of
          None \<Rightarrow> None
        | Some (st, m2) \<Rightarrow>
            (if st = MY_PORT_ABORTED then Some (MY_PORT_ABORTED, conn, m2)
             else (case halloc () m2 of
                 (None, m3) \<Rightarrow> Some (MY_PORT_ABORTED, conn, m3)
               | (Some blk, m3) \<Rightarrow>
                   Some (MY_PORT_OK,
                     conn\<lparr>results := AList.update (addr blk) (zero_result\<lparr>cached_row := -1\<rparr>) (results conn),
                          last_result := Some (addr blk)\<rparr>, m3)))))"

text \<open>The multi-read loop, over the heap and the local \<open>head\<close> and \<open>tail\<close>.\<close>

definition my_wrap :: "('w, 'r) my_env \<Rightarrow> 'r cell option \<Rightarrow> 'r native_mysql_result" where
  "my_wrap E res = zero_result\<lparr>mr_res := res, col_count := num_fields E res, cached_row := -1, mr_next := None\<rparr>"

fun my_multi_drain ::
  "nat \<Rightarrow> ('w, 'r) my_env \<Rightarrow> nat \<Rightarrow> (nat \<times> 'r native_mysql_result) list \<Rightarrow> nat option \<Rightarrow> nat option \<Rightarrow> 'w mach \<Rightarrow>
   (int \<times> (nat \<times> 'r native_mysql_result) list \<times> nat option \<times> 'w mach) option" where
  "my_multi_drain 0 E h st head tail m = None"
| "my_multi_drain (Suc n) E h st head tail m =
     (let (res, m1) = my_store_result E h m in
      if res = None \<and> mysql_errno E h (ext m1) \<noteq> 0 then
        (let (st1, m2) = mysql_free_result_chain head st m1 in Some (MY_PORT_ABORTED, st1, None, m2))
      else (case halloc () m1 of
          (None, m2) \<Rightarrow>
            (let (st1, m3) = mysql_free_result_chain head st (free_opt_result res m2)
             in Some (MY_PORT_ABORTED, st1, None, m3))
        | (Some blk, m2) \<Rightarrow>
            (let (head1, tail1, st1, m3) =
                   link_node (\<lambda>p nd. nd\<lparr>mr_next := p\<rparr>) head tail (addr blk) (my_wrap E res) st m2;
                 (nx, w) = mysql_next_result E h (ext m3);
                 m4 = m3\<lparr>ext := w\<rparr>
             in if nx > 0 then
                  (let (st2, m5) = mysql_free_result_chain head1 st1 m4 in Some (MY_PORT_ABORTED, st2, None, m5))
                else if nx < 0 then Some (MY_PORT_OK, st1, head1, m4)
                else my_multi_drain n E h st1 head1 tail1 m4)))"

definition my_execute_multi_read ::
  "nat \<Rightarrow> ('w, 'r) my_env \<Rightarrow> nat \<Rightarrow> 'r mysql_conn \<Rightarrow> string \<Rightarrow> 'w mach \<Rightarrow>
   (int \<times> 'r mysql_conn \<times> 'w mach) option" where
  "my_execute_multi_read fuel E h conn q m =
     (let (rc, w) = mysql_real_query E h q (ext m); m1 = m\<lparr>ext := w\<rparr> in
      if rc \<noteq> 0 then Some (MY_PORT_ABORTED, conn, m1)
      else (case my_multi_drain fuel E h (results conn) None None m1 of
          None \<Rightarrow> None
        | Some (st, rs, head, m2) \<Rightarrow>
            (if st = MY_PORT_ABORTED then Some (MY_PORT_ABORTED, conn\<lparr>results := rs\<rparr>, m2)
             else Some (MY_PORT_OK, conn\<lparr>results := rs, last_result := head\<rparr>, m2))))"

section \<open>One round of the worker\<close>

text \<open>Step 2. \<open>sql\<close> is read as a C string; a NULL one is a fault.\<close>

definition mysql_worker_execute ::
  "nat \<Rightarrow> ('w, 'r) my_env \<Rightarrow> 'r mysql_conn \<Rightarrow> 'w mach \<Rightarrow> (int \<times> 'r mysql_conn \<times> 'w mach) option" where
  "mysql_worker_execute fuel E c m =
     (let h = the (my c);
          c1 = mysql_clear_conn_error c;
          (q, m1) = (case sql c of None \<Rightarrow> ([], m\<lparr>fault := True\<rparr>) | Some s \<Rightarrow> (c_string (contents s), m))
      in case (if is_multi_read c then my_execute_multi_read fuel E h c1 q m1
               else if is_batch c then my_execute_batch fuel E h c1 q m1
               else Some (my_execute_single E h c1 q m1)) of
           None \<Rightarrow> None
         | Some (status, c2, m2) \<Rightarrow>
             Some (status,
               (if status = MY_PORT_ABORTED then mysql_capture_conn_error E h (ext m2) c2 else c2), m2))"

definition mysql_worker_clear :: "'r mysql_conn \<Rightarrow> 'w mach \<Rightarrow> 'r mysql_conn \<times> 'w mach" where
  "mysql_worker_clear c m =
     (let m1 = mutex_lock (slot_mutex c) m;
          (c1, m2) = mysql_pool_free_slot_payload c m1
      in (c1\<lparr>slot_filled := False\<rparr>, mutex_unlock (slot_mutex c) (cond_signal (slot_cond c) m2)))"

definition mysql_worker_round ::
  "nat \<Rightarrow> ('w, 'r) my_env \<Rightarrow> 'r mysql_conn \<Rightarrow> 'w mach \<Rightarrow> ((int \<times> int) \<times> 'r mysql_conn \<times> 'w mach) option"
where
  "mysql_worker_round fuel E c m =
     (case mysql_worker_execute fuel E c (mutex_unlock (slot_mutex c) (mutex_lock (slot_mutex c) m)) of
        None \<Rightarrow> None
      | Some (status, c1, m2) \<Rightarrow>
          (let (c2, m3) = mysql_worker_clear c1 m2 in Some ((port_id c, status), c2, m3)))"

text \<open>
  What is left of \<open>mysql_pool_worker_main\<close> once shutdown has been requested: a request still
  in the slot is served, then the thread ends. \<open>None\<close>: it never does.
\<close>

definition mysql_worker_end ::
  "nat \<Rightarrow> ('w, 'r) my_env \<Rightarrow> 'r mysql_conn \<Rightarrow> 'w mach \<Rightarrow> ('r mysql_conn \<times> 'w mach) option" where
  "mysql_worker_end fuel E c m =
     (case worker_choose (slot_filled c) (shutdown_requested c) of
        Serve \<Rightarrow>
          (case mysql_worker_round fuel E c m of
             None \<Rightarrow> None
           | Some (_, c1, m1) \<Rightarrow> Some (c1, m1\<lparr>ext := mysql_thread_end E (ext m1)\<rparr>))
      | _ \<Rightarrow> Some (c, m\<lparr>ext := mysql_thread_end E (ext m)\<rparr>))"

end
