(* ===== verification/Pool_Life.thy ===== *)
theory Pool_Life
  imports C_Prelude
begin

text \<open>
  The two loops over a pool's connections: bringing them up one by one with a rollback of the
  earlier ones at the first failure, and taking all of them down. The locales state what one
  connection's initialisation and tear-down must satisfy; their lemmas are about the whole
  array. The MySQL, SQLite and MongoDB pools interpret them.
\<close>

section \<open>The synchronisation objects and the thread\<close>

text \<open>
  The second half of the three \<open>init_conn\<close> functions: \<open>pthread_mutex_init\<close>,
  \<open>pthread_cond_init\<close> and \<open>pthread_create\<close>, each failure undoing the earlier steps and closing
  the connection's handle. The result: mutex, condition variable and thread.
\<close>

definition init_sync :: "('w mach \<Rightarrow> 'w mach) \<Rightarrow> 'w mach \<Rightarrow> (nat \<times> nat \<times> nat) option \<times> 'w mach" where
  "init_sync close m =
     (case halloc () m of
        (None, m1) \<Rightarrow> (None, close m1)
      | (Some mu, m1) \<Rightarrow>
          (case halloc () m1 of
             (None, m2) \<Rightarrow> (None, close (rfree (addr mu) m2))
           | (Some cv, m2) \<Rightarrow>
               (case halloc () m2 of
                  (None, m3) \<Rightarrow> (None, close (rfree (addr mu) (rfree (addr cv) m3)))
                | (Some th, m3) \<Rightarrow> (Some (addr mu, addr cv, addr th), m3))))"

lemma acquired_snoc: "acquired m xs m1 \<Longrightarrow> halloc v m1 = (Some c, m2) \<Longrightarrow> acquired m (xs @ [addr c]) m2"
  using acquired_trans [of m xs m1 "[addr c]" m2] halloc_Some [of v m1 c m2] by simp

lemma acquired_failed: "acquired m xs m1 \<Longrightarrow> halloc v m1 = (None, m2) \<Longrightarrow> acquired m xs m2"
  using acquired_trans [OF _ halloc_None, of m xs m1 v m2] by simp

lemma init_sync_law:
  assumes ok: "ledger_ok m0" and acq: "acquired m0 [h] m"
    and close: "\<And>m'. acquired m0 [h] m' \<Longrightarrow> acquired m0 [] (close m')"
    and run: "init_sync close m = (r, m')"
  shows "case r of None \<Rightarrow> acquired m0 [] m' | Some (mu, cv, th) \<Rightarrow> acquired m0 [h, th, mu, cv] m'"
proof -
  obtain mu m1 where h1: "halloc () m = (mu, m1)" by (cases "halloc () m")
  show ?thesis
  proof (cases mu)
    case None
    with acquired_failed [OF acq] h1 have "acquired m0 [h] m1" by simp
    from close [OF this] h1 run None show ?thesis by (auto simp: init_sync_def)
  next
    case mu: (Some mu')
    note a1 = acquired_snoc [OF acq h1 [unfolded mu]]
    obtain cv m2 where h2: "halloc () m1 = (cv, m2)" by (cases "halloc () m1")
    show ?thesis
    proof (cases cv)
      case None
      with acquired_failed [OF a1] h2 have "acquired m0 ([h] @ [addr mu']) m2" by simp
      then have "acquired m0 [] (close (rfree (addr mu') m2))"
        using close acquired_drop [OF ok, of "[h]" "[addr mu']" m2 "[addr mu']"] by simp
      with run h1 h2 mu None show ?thesis by (auto simp: init_sync_def)
    next
      case cv: (Some cv')
      note a2 = acquired_snoc [OF a1 h2 [unfolded cv]]
      obtain th m3 where h3: "halloc () m2 = (th, m3)" by (cases "halloc () m2")
      show ?thesis
      proof (cases th)
        case None
        with acquired_failed [OF a2] h3 have a3: "acquired m0 ([h] @ [addr mu', addr cv']) m3" by simp
        then have "distinct [addr cv', addr mu']" by (auto simp: acquired_def)
        then have "acquired m0 [] (close (rfree (addr mu') (rfree (addr cv') m3)))"
          using close acquired_drop [OF ok a3, of "[addr cv', addr mu']"] by (simp add: insert_commute)
        with run h1 h2 h3 mu cv None show ?thesis by (auto simp: init_sync_def)
      next
        case th: (Some th')
        note a3 = acquired_snoc [OF a2 h3 [unfolded th]]
        then have "distinct [h, addr th', addr mu', addr cv']" by (auto simp: acquired_def)
        then have "acquired m0 [h, addr th', addr mu', addr cv'] m3"
          by (intro acquired_perm [OF a3]) auto
        with run h1 h2 h3 mu cv th show ?thesis by (auto simp: init_sync_def)
      qed
    qed
  qed
qed

section \<open>Bringing up\<close>

fun bring_up ::
  "(nat \<Rightarrow> 'w mach \<Rightarrow> 'c option \<times> 'w mach) \<Rightarrow> ('c \<Rightarrow> 'w mach \<Rightarrow> 'w mach) \<Rightarrow> nat \<Rightarrow> 'c list \<Rightarrow> 'w mach \<Rightarrow>
   'c list option \<times> 'w mach" where
  "bring_up init undo 0 up m = (Some up, m)"
| "bring_up init undo (Suc n) up m =
     (case init (length up) m of
        (None, m1) \<Rightarrow> (None, fold undo up m1)
      | (Some c, m1) \<Rightarrow> bring_up init undo n (up @ [c]) m1)"

text \<open>One connection's initialisation, failed or not; its undoing gives back what it took.\<close>

locale conn_life =
  fixes init :: "nat \<Rightarrow> 'w mach \<Rightarrow> 'c option \<times> 'w mach" and undo :: "'c \<Rightarrow> 'w mach \<Rightarrow> 'w mach"
    and ids :: "'c \<Rightarrow> nat list" and fresh_conn :: "'c \<Rightarrow> bool"
  assumes init_law: "ledger_ok m \<Longrightarrow> held m = {} \<Longrightarrow> init i m = (r, m') \<Longrightarrow>
      (case r of None \<Rightarrow> acquired m [] m' | Some c \<Rightarrow> acquired m (ids c) m' \<and> fresh_conn c)"
    and undo_law: "ledger_ok m \<Longrightarrow> held m = {} \<Longrightarrow> \<not> fault m \<Longrightarrow> fresh_conn c \<Longrightarrow> distinct (ids c) \<Longrightarrow>
      set (ids c) \<subseteq> live m \<Longrightarrow> released m (set (ids c)) (undo c m)"
begin

lemma undo_all:
  "ledger_ok m \<Longrightarrow> held m = {} \<Longrightarrow> \<not> fault m \<Longrightarrow> \<forall>c \<in> set cs. fresh_conn c \<Longrightarrow> distinct (concat (map ids cs)) \<Longrightarrow>
   set (concat (map ids cs)) \<subseteq> live m \<Longrightarrow> released m (set (concat (map ids cs))) (fold undo cs m)"
proof (induction cs arbitrary: m)
  case Nil
  then show ?case by simp
next
  case (Cons c cs)
  have r: "released m (set (ids c)) (undo c m)"
    using Cons.prems by (intro undo_law) auto
  have "set (concat (map ids cs)) \<subseteq> live (undo c m)" "held (undo c m) = {}" "\<not> fault (undo c m)"
    using Cons.prems r by (auto simp: released_def)
  with Cons.IH [OF released_ledger_ok [OF Cons.prems(1) r]] Cons.prems
  have "released (undo c m) (set (concat (map ids cs))) (fold undo cs (undo c m))"
    by simp
  with released_trans [OF r this] show ?case by simp
qed

lemma bring_up_cases:
  assumes ok: "ledger_ok m0" and nolock: "held m0 = {}" and nofault: "\<not> fault m0"
  shows "acquired m0 (concat (map ids up)) m \<Longrightarrow> \<forall>c \<in> set up. fresh_conn c \<Longrightarrow>
    bring_up init undo n up m = (r, m') \<Longrightarrow>
    (case r of
       None \<Rightarrow> acquired m0 [] m'
     | Some cs \<Rightarrow> acquired m0 (concat (map ids cs)) m' \<and> (\<forall>c \<in> set cs. fresh_conn c) \<and>
         length cs = length up + n)"
proof (induction n arbitrary: up m)
  case 0
  then show ?case by auto
next
  case (Suc n)
  obtain k m1 where i: "init (length up) m = (k, m1)" by (cases "init (length up) m")
  have okm: "ledger_ok m" and hm: "held m = {}"
    using acquired_ledger_ok [OF ok Suc.prems(1)] Suc.prems(1) nolock by (auto simp: acquired_def)
  note il = init_law [OF okm hm i]
  show ?case
  proof (cases k)
    case None
    with il have a: "acquired m0 (concat (map ids up)) m1"
      using acquired_trans [OF Suc.prems(1), of "[]" m1] by simp
    then have "released m1 (set (concat (map ids up))) (fold undo up m1)"
      using Suc.prems(2) nolock nofault acquired_ledger_ok [OF ok a] by (intro undo_all) (auto simp: acquired_def)
    with acquired_released [OF ok a] show ?thesis
      using Suc.prems(3) i None by auto
  next
    case (Some c)
    with il have a: "acquired m0 (concat (map ids (up @ [c]))) m1" and f: "\<forall>d \<in> set (up @ [c]). fresh_conn d"
      using acquired_trans [OF Suc.prems(1), of "ids c" m1] Suc.prems(2) by auto
    have "bring_up init undo n (up @ [c]) m1 = (r, m')"
      using Suc.prems(3) i Some by simp
    from Suc.IH [OF a f this] show ?thesis by (simp split: option.splits)
  qed
qed

lemma bring_up_fresh:
  assumes "ledger_ok m0" "held m0 = {}" "\<not> fault m0" "acquired m0 xs m" "bring_up init undo n [] m = (r, m')"
  shows "case r of None \<Rightarrow> acquired m [] m'
    | Some cs \<Rightarrow> acquired m (concat (map ids cs)) m' \<and> (\<forall>c \<in> set cs. fresh_conn c) \<and> length cs = n"
proof -
  have m: "ledger_ok m" "held m = {}" "\<not> fault m"
    using acquired_ledger_ok [OF assms(1,4)] assms(2-4) by (simp_all add: acquired_def)
  from bring_up_cases [OF m, of "[]" m n r m'] assms(5) show ?thesis by (simp split: option.splits)
qed

end

section \<open>The pool's own objects\<close>

text \<open>
  The second half of the three \<open>pool_create\<close> functions: mutex, condition variable, array of
  connections and the connections, each failure undoing the earlier steps. \<open>free_mu\<close> is what a
  failing \<open>pthread_cond_init\<close> does to the mutex, \<open>undo\<close> gives back what was there before. The
  result: mutex, condition variable, array and connections.
\<close>

definition create_tail ::
  "(nat \<Rightarrow> 'w mach \<Rightarrow> 'w mach) \<Rightarrow> ('w mach \<Rightarrow> 'c list option \<times> 'w mach) \<Rightarrow> ('w mach \<Rightarrow> 'w mach) \<Rightarrow> 'w mach \<Rightarrow>
   (nat \<times> nat \<times> nat \<times> 'c list) option \<times> 'w mach" where
  "create_tail free_mu up undo m =
     (case halloc () m of
        (None, m1) \<Rightarrow> (None, undo m1)
      | (Some mu, m1) \<Rightarrow>
          (case halloc () m1 of
             (None, m2) \<Rightarrow> (None, undo (free_mu (addr mu) m2))
           | (Some cv, m2) \<Rightarrow>
               (case halloc () m2 of
                  (None, m3) \<Rightarrow> (None, undo (rfree (addr mu) (rfree (addr cv) m3)))
                | (Some cb, m3) \<Rightarrow>
                    (case up m3 of
                       (None, m4) \<Rightarrow> (None, undo (rfree (addr mu) (rfree (addr cv) (rfree (addr cb) m4))))
                     | (Some cs, m4) \<Rightarrow> (Some (addr mu, addr cv, addr cb, cs), m4)))))"

lemma create_tail_cases:
  assumes ok: "ledger_ok m0" and acq: "acquired m0 S m"
    and undo: "\<And>k. acquired m0 S k \<Longrightarrow> acquired m0 [] (undo k)" and Q: "\<And>k. acquired m0 [] k \<Longrightarrow> Q k"
    and free_mu: "\<And>mu k. acquired m0 (S @ [mu]) k \<Longrightarrow> Q (undo (free_mu mu k))"
    and up: "\<And>xs k cs k'. acquired m0 xs k \<Longrightarrow> up k = (cs, k') \<Longrightarrow>
      (case cs of None \<Rightarrow> acquired k [] k' | Some cs \<Rightarrow> acquired k (concat (map ids cs)) k' \<and> P cs)"
    and run: "create_tail free_mu up undo m = (r, m')"
  shows "case r of None \<Rightarrow> Q m'
    | Some (mu, cv, cb, cs) \<Rightarrow> acquired m0 (S @ [mu, cv, cb] @ concat (map ids cs)) m' \<and> P cs"
proof -
  have gone: "Q (undo (free_all zs k))" if "acquired m0 (S @ ys) k" "set zs = set ys" "distinct zs" for ys zs k
    using acquired_drop [OF ok that] undo Q by simp
  obtain mu m1 where h1: "halloc () m = (mu, m1)" by (cases "halloc () m")
  show ?thesis
  proof (cases mu)
    case None
    from gone [of "[]" m1 "[]"] acquired_failed [OF acq h1 [unfolded None]] run h1 None
    show ?thesis by (auto simp: create_tail_def)
  next
    case mu: (Some mu')
    note a1 = acquired_snoc [OF acq h1 [unfolded mu]]
    obtain cv m2 where h2: "halloc () m1 = (cv, m2)" by (cases "halloc () m1")
    show ?thesis
    proof (cases cv)
      case None
      from free_mu [OF acquired_failed [OF a1 h2 [unfolded None]]] run h1 h2 mu None
      show ?thesis by (auto simp: create_tail_def)
    next
      case cv: (Some cv')
      note a2 = acquired_snoc [OF a1 h2 [unfolded cv]]
      obtain cb m3 where h3: "halloc () m2 = (cb, m3)" by (cases "halloc () m2")
      show ?thesis
      proof (cases cb)
        case None
        from acquired_failed [OF a2 h3 [unfolded None]] have a: "acquired m0 (S @ [addr mu', addr cv']) m3" by simp
        then have "distinct [addr cv', addr mu']" by (auto simp: acquired_def)
        with gone [OF a, of "[addr cv', addr mu']"] run h1 h2 h3 mu cv None
        show ?thesis by (auto simp: create_tail_def insert_commute)
      next
        case cb: (Some cb')
        have a3: "acquired m0 (S @ [addr mu', addr cv', addr cb']) m3"
          using acquired_snoc [OF a2 h3 [unfolded cb]] by simp
        then have d3: "distinct [addr cb', addr cv', addr mu']" by (auto simp: acquired_def)
        obtain cs m4 where b: "up m3 = (cs, m4)" by (cases "up m3")
        note B = up [OF a3 b]
        show ?thesis
        proof (cases cs)
          case None
          with B have "acquired m0 (S @ [addr mu', addr cv', addr cb']) m4"
            using acquired_trans [OF a3, of "[]" m4] by simp
          from gone [OF this _ d3] run h1 h2 h3 b mu cv cb None
          show ?thesis by (auto simp: create_tail_def insert_commute)
        next
          case (Some cs')
          with B have "acquired m0 (S @ [addr mu', addr cv', addr cb'] @ concat (map ids cs')) m4"
            using acquired_trans [OF a3] by fastforce
          with B run h1 h2 h3 b mu cv cb Some show ?thesis by (auto simp: create_tail_def)
        qed
      qed
    qed
  qed
qed

section \<open>Taking down\<close>

text \<open>The loop of the \<open>pool_destroy\<close> functions that asks every worker to stop.\<close>

fun stop_all :: "('c \<Rightarrow> 'w mach \<Rightarrow> 'c \<times> 'w mach) \<Rightarrow> 'c list \<Rightarrow> 'w mach \<Rightarrow> 'c list \<times> 'w mach" where
  "stop_all stop [] m = ([], m)"
| "stop_all stop (c # cs) m =
     (let (c1, m1) = stop c m; (cs1, m2) = stop_all stop cs m1 in (c1 # cs1, m2))"

lemma stop_all_map:
  assumes "\<And>c m. c \<in> set cs \<Longrightarrow> ledger_ok m \<Longrightarrow> held m = {} \<Longrightarrow> fst (stop c m) = g c \<and> released m {} (snd (stop c m))"
    and "ledger_ok m" "held m = {}"
  shows "fst (stop_all stop cs m) = map g cs \<and> released m {} (snd (stop_all stop cs m))"
  using assms
proof (induction cs arbitrary: m)
  case Nil
  then show ?case by simp
next
  case (Cons c cs)
  obtain c1 m1 where s: "stop c m = (c1, m1)" by (cases "stop c m")
  obtain cs1 m2 where t: "stop_all stop cs m1 = (cs1, m2)" by (cases "stop_all stop cs m1")
  have 1: "c1 = g c" "released m {} m1" using Cons.prems(1) [OF _ Cons.prems(2,3), of c] s by auto
  have "held m1 = {}" using 1(2) Cons.prems(3) by (simp add: released_def)
  then have "cs1 = map g cs \<and> released m1 {} m2"
    using Cons.IH [OF _ released_ledger_ok [OF Cons.prems(2) 1(2)]] Cons.prems(1) t by fastforce
  with released_trans [OF 1(2), of "{}" m2] 1(1) s t show ?case by simp
qed

text \<open>\<open>all_own owns cs Xs m\<close>: each connection owns its set of resources, pairwise disjoint.\<close>

fun all_own :: "('c \<Rightarrow> nat set \<Rightarrow> 'w mach \<Rightarrow> bool) \<Rightarrow> 'c list \<Rightarrow> nat set list \<Rightarrow> 'w mach \<Rightarrow> bool" where
  "all_own owns (c # cs) (X # Xs) m = (owns c X m \<and> X \<inter> \<Union> (set Xs) = {} \<and> all_own owns cs Xs m)"
| "all_own owns cs Xs m = (cs = [] \<and> Xs = [])"

lemma all_own_Cons:
  "all_own owns (c # cs) Xs m \<longleftrightarrow>
   (\<exists>X Ys. Xs = X # Ys \<and> owns c X m \<and> X \<inter> \<Union> (set Ys) = {} \<and> all_own owns cs Ys m)"
  by (cases Xs) auto

lemma all_own_map:
  "(\<And>c X. owns (g c) X m = owns c X m) \<Longrightarrow> all_own owns (map g cs) Xs m = all_own owns cs Xs m"
proof (induction cs arbitrary: Xs)
  case Nil
  then show ?case by (cases Xs) auto
next
  case (Cons c cs)
  then show ?case by (cases Xs) auto
qed

lemma all_own_mono:
  "all_own owns cs Xs m \<Longrightarrow> (\<And>c X. owns c X m \<Longrightarrow> owns (g c) X m) \<Longrightarrow> all_own owns (map g cs) Xs m"
proof (induction cs arbitrary: Xs)
  case Nil
  then show ?case by (cases Xs) auto
next
  case (Cons c cs)
  then show ?case by (cases Xs) auto
qed

text \<open>Fresh resources split among the connections that took them.\<close>

lemma all_own_lists:
  "\<forall>c \<in> set cs. owns c (set (ids c)) m \<Longrightarrow> distinct (concat (map ids cs)) \<Longrightarrow>
   all_own owns cs (map (\<lambda>c. set (ids c)) cs) m"
  by (induction cs) auto

text \<open>\<open>calm\<close>: a condition on the machine that tearing down needs and keeps.\<close>

locale conn_end =
  fixes tear :: "'c \<Rightarrow> 'w mach \<Rightarrow> 'w mach" and owns :: "'c \<Rightarrow> nat set \<Rightarrow> 'w mach \<Rightarrow> bool"
    and stopped :: "'c \<Rightarrow> bool" and calm :: "'w mach \<Rightarrow> bool"
  assumes tear_law: "ledger_ok m \<Longrightarrow> held m = {} \<Longrightarrow> calm m \<Longrightarrow> stopped c \<Longrightarrow> owns c X m \<Longrightarrow>
      released m X (tear c m) \<and> calm (tear c m)"
    and owns_released: "owns c X m \<Longrightarrow> released m Y m' \<Longrightarrow> X \<inter> Y = {} \<Longrightarrow> owns c X m'"
begin

lemma all_own_released:
  "all_own owns cs Xs m \<Longrightarrow> released m Y m' \<Longrightarrow> Y \<inter> \<Union> (set Xs) = {} \<Longrightarrow> all_own owns cs Xs m'"
proof (induction cs arbitrary: Xs)
  case Nil
  then show ?case by (cases Xs) auto
next
  case (Cons c cs)
  then obtain X Ys where X: "Xs = X # Ys" by (cases Xs) auto
  with Cons.prems have "owns c X m'"
    by (intro owns_released [of c X m Y m']) auto
  with X Cons show ?case by auto
qed

lemma tear_all:
  "ledger_ok m \<Longrightarrow> held m = {} \<Longrightarrow> calm m \<Longrightarrow> \<forall>c \<in> set cs. stopped c \<Longrightarrow> all_own owns cs Xs m \<Longrightarrow>
   released m (\<Union> (set Xs)) (fold tear cs m)"
proof (induction cs arbitrary: Xs m)
  case Nil
  then show ?case by (cases Xs) auto
next
  case (Cons c cs)
  then obtain X Ys where X: "Xs = X # Ys" "owns c X m" "X \<inter> \<Union> (set Ys) = {}" "all_own owns cs Ys m"
    by (auto simp: all_own_Cons)
  have r: "released m X (tear c m)" and calm: "calm (tear c m)"
    using tear_law Cons.prems X(2) by auto
  have "held (tear c m) = {}" using r Cons.prems(2) by (simp add: released_def)
  with Cons.IH [OF released_ledger_ok [OF Cons.prems(1) r]] calm all_own_released [OF X(4) r X(3)] Cons.prems(4)
  have "released (tear c m) (\<Union> (set Ys)) (fold tear cs (tear c m))"
    by simp
  with released_trans [OF r this] show ?case by (simp add: X(1))
qed

end

end
