(* ===== verification/My_Pool.thy ===== *)
theory My_Pool
  imports My_Worker Pool_Life Lease_Contract
begin

text \<open>
  The MySQL pool of mysql_pool.c: creation with its rollback, destruction, acquire and
  release. A connection handle is its index in \<open>conns\<close>. \<open>pthread_join\<close> is the end of the
  worker's thread, \<open>mysql_worker_end\<close> with enough fuel for the request it still serves.
\<close>

record 'r mysql_pool =
  pool_block :: nat
  host :: "string cell option"
  user :: "string cell option"
  password :: "string cell option"
  db :: "string cell option"
  mysql_port :: "16 word"
  max_size :: int
  default_acquire_timeout_ms :: int
  conns_block :: nat
  conns :: "'r mysql_conn list"
  mutex :: nat
  free_cond :: nat
  shutting_down :: bool

definition mysql_deadline_from_ms :: "timespec \<Rightarrow> int \<Rightarrow> timespec" where
  "mysql_deadline_from_ms now delta_ms =
     (let s = tv_sec now + delta_ms sdiv 1000;
          ns = tv_nsec now + (delta_ms smod 1000) * 1000000
      in if ns \<ge> 1000000000 then \<lparr>tv_sec = s + 1, tv_nsec = ns - 1000000000\<rparr>
         else \<lparr>tv_sec = s, tv_nsec = ns\<rparr>)"

lemma mysql_deadline_from_ms_eq: "mysql_deadline_from_ms = deadline_from_ms"
  by (intro ext) (simp add: mysql_deadline_from_ms_def deadline_from_ms_def Let_def)

text \<open>\<open>pthread_once(&g_mysql_lib_once, init_mysql_library)\<close>: the flag and the call.\<close>

definition init_mysql_library :: "('w, 'r) my_env \<Rightarrow> 'w mach \<Rightarrow> 'w mach" where
  "init_mysql_library E m = m\<lparr>ext := mysql_library_init E (ext m)\<rparr>"

definition mysql_lib_once :: "('w, 'r) my_env \<Rightarrow> bool \<Rightarrow> 'w mach \<Rightarrow> 'w mach" where
  "mysql_lib_once E done m = (if done then m else init_mysql_library E m)"

section \<open>Connections come up and go down\<close>

definition mysql_open_conn :: "('w, 'r) my_env \<Rightarrow> my_creds \<Rightarrow> 'w mach \<Rightarrow> nat option \<times> 'w mach" where
  "mysql_open_conn E cr m =
     (case halloc () m of
        (None, m1) \<Rightarrow> (None, m1)
      | (Some k, m1) \<Rightarrow>
          (let h = addr k;
               w1 = (if mariadb_client E then ext m1 else mysql_options E h Ssl_mode_disabled (ext m1));
               w2 = mysql_options E h (Set_charset_name ''utf8mb4'') w1;
               (up, w3) = mysql_real_connect E h cr CLIENT_MULTI_STATEMENTS w2;
               m2 = m1\<lparr>ext := w3\<rparr>
           in if up then (Some h, m2) else (None, my_close E h m2)))"

text \<open>A \<open>calloc\<close>ed \<open>mysql_conn_t\<close>.\<close>

definition zero_mysql_conn :: "'r mysql_conn" where
  "zero_mysql_conn = \<lparr>my = None, thread_id = 0, my_pool = None, index = 0, in_use = False, worker = 0,
     slot_mutex = 0, slot_cond = 0, slot_filled = False, is_batch = False, is_multi_read = False,
     sql = None, port_id = 0, timeout_ms = 0, results = [], last_result = None, last_errno = 0,
     last_error = [], shutdown_requested = False\<rparr>"

text \<open>The new thread starts with \<open>mysql_thread_init\<close>.\<close>

definition mysql_init_conn ::
  "('w, 'r) my_env \<Rightarrow> 'r mysql_conn \<Rightarrow> my_creds \<Rightarrow> int \<Rightarrow> 'w mach \<Rightarrow> int \<times> 'r mysql_conn \<times> 'w mach" where
  "mysql_init_conn E conn cr i m =
     (let c = conn\<lparr>my_pool := Some cr, index := i, in_use := False, slot_filled := False,
                is_batch := False, is_multi_read := False, sql := None, port_id := 0, timeout_ms := 0,
                results := [], last_result := None, shutdown_requested := False\<rparr>
      in case mysql_open_conn E cr m of
           (None, m1) \<Rightarrow> (-1, c\<lparr>my := None\<rparr>, m1)
         | (Some h, m1) \<Rightarrow>
             (let c1 = c\<lparr>my := Some h, thread_id := mysql_thread_id E h (ext m1)\<rparr>
              in case init_sync (my_close E h) m1 of
                   (None, m2) \<Rightarrow> (-1, c1\<lparr>my := None\<rparr>, m2)
                 | (Some (mu, cv, th), m2) \<Rightarrow>
                     (0, c1\<lparr>slot_mutex := mu, slot_cond := cv, worker := th\<rparr>,
                      m2\<lparr>ext := mysql_thread_init E (ext m2)\<rparr>)))"

text \<open>\<open>pthread_join\<close>: the worker's thread runs to its end.\<close>

definition mysql_join ::
  "nat \<Rightarrow> ('w, 'r) my_env \<Rightarrow> 'r mysql_conn \<Rightarrow> 'w mach \<Rightarrow> 'r mysql_conn \<times> 'w mach" where
  "mysql_join fuel E conn m =
     (let (c, m1) = the (mysql_worker_end fuel E conn m) in (c, rfree (worker conn) m1))"

definition mysql_teardown_conn ::
  "nat \<Rightarrow> ('w, 'r) my_env \<Rightarrow> 'r mysql_conn \<Rightarrow> 'w mach \<Rightarrow> 'r mysql_conn \<times> 'w mach" where
  "mysql_teardown_conn fuel E conn m =
     (case my conn of
        None \<Rightarrow> (conn, m)
      | Some h \<Rightarrow>
          (let (c1, m1) = mysql_join fuel E conn m;
               (c2, m2) = mysql_pool_free_slot_payload c1 m1;
               (st, m3) = mysql_free_result_chain (last_result c2) (results c2) m2
           in (c2\<lparr>results := st, last_result := None, my := None\<rparr>,
               my_close E h (rfree (slot_mutex conn) (rfree (slot_cond conn) m3)))))"

text \<open>The store of \<open>shutdown_requested\<close> and the signal under the slot mutex.\<close>

definition mysql_signal_stop :: "'r mysql_conn \<Rightarrow> 'w mach \<Rightarrow> 'w mach" where
  "mysql_signal_stop c m =
     mutex_unlock (slot_mutex c) (cond_signal (slot_cond c) (mutex_lock (slot_mutex c) m))"

definition mysql_undo_conn :: "nat \<Rightarrow> ('w, 'r) my_env \<Rightarrow> 'r mysql_conn \<Rightarrow> 'w mach \<Rightarrow> 'w mach" where
  "mysql_undo_conn fuel E c m =
     (let c1 = c\<lparr>shutdown_requested := True\<rparr>
      in snd (mysql_teardown_conn fuel E c1 (mysql_signal_stop c1 m)))"

text \<open>One turn of the bring-up loop, and the loop with its rollback.\<close>

definition mysql_bring_conn ::
  "('w, 'r) my_env \<Rightarrow> my_creds \<Rightarrow> nat \<Rightarrow> 'w mach \<Rightarrow> 'r mysql_conn option \<times> 'w mach" where
  "mysql_bring_conn E cr i m =
     (case mysql_init_conn E zero_mysql_conn cr (int i) m of
        (rc, c, m1) \<Rightarrow> (if rc \<noteq> 0 then (None, m1) else (Some c, m1)))"

definition mysql_bring_up ::
  "nat \<Rightarrow> ('w, 'r) my_env \<Rightarrow> my_creds \<Rightarrow> nat \<Rightarrow> 'w mach \<Rightarrow> 'r mysql_conn list option \<times> 'w mach" where
  "mysql_bring_up fuel E cr n m = bring_up (mysql_bring_conn E cr) (mysql_undo_conn fuel E) n [] m"

text \<open>\<open>free(pool->host); free(pool->user); free(pool->password); free(pool->db); free(pool)\<close>.\<close>

definition free_pool_strings :: "string cell option list \<Rightarrow> nat \<Rightarrow> 'w mach \<Rightarrow> 'w mach" where
  "free_pool_strings ss blk m = rfree blk (fold cfree ss m)"

text \<open>The tail of \<open>mysql_pool_create\<close> once the four strings are there: mutex,
  condition variable, array and connections.\<close>

definition mysql_create_tail ::
  "nat \<Rightarrow> ('w, 'r) my_env \<Rightarrow> my_creds \<Rightarrow> int \<Rightarrow> string cell option list \<Rightarrow> nat \<Rightarrow> 'w mach \<Rightarrow>
   (nat \<times> nat \<times> nat \<times> 'r mysql_conn list) option \<times> 'w mach" where
  "mysql_create_tail fuel E cr max_n ss blk m5 =
     create_tail rfree (mysql_bring_up fuel E cr (nat max_n)) (free_pool_strings ss blk) m5"

definition mysql_pool_create ::
  "nat \<Rightarrow> ('w, 'r) my_env \<Rightarrow> bool \<Rightarrow> my_creds \<Rightarrow> int \<Rightarrow> int \<Rightarrow> int \<Rightarrow> 'w mach \<Rightarrow>
   'r mysql_pool option \<times> 'w mach" where
  "mysql_pool_create fuel E once cr min_n max_n acquire_timeout m =
     (if max_n < 1 then (None, m)
      else (case halloc () (mysql_lib_once E once m) of
          (None, m1) \<Rightarrow> (None, m1)
        | (Some blk, m1) \<Rightarrow>
            (let (ho, m2) = mysql_dup_string (cr_host cr) m1;
                 (us, m3) = mysql_dup_string (cr_user cr) m2;
                 (pw, m4) = mysql_dup_string (cr_password cr) m3;
                 (dbn, m5) = mysql_dup_string (cr_db cr) m4;
                 ss = [ho, us, pw, dbn]
             in if cr_host cr \<noteq> None \<and> ho = None \<or> cr_user cr \<noteq> None \<and> us = None \<or>
                   cr_password cr \<noteq> None \<and> pw = None \<or> cr_db cr \<noteq> None \<and> dbn = None
                then (None, free_pool_strings ss (addr blk) m5)
                else (case mysql_create_tail fuel E cr max_n ss (addr blk) m5 of
                    (None, m6) \<Rightarrow> (None, m6)
                  | (Some (mu, cv, cb, cs), m6) \<Rightarrow>
                      (Some \<lparr>pool_block = addr blk, host = ho, user = us, password = pw,
                         db = dbn, mysql_port = cr_port cr, max_size = max_n,
                         default_acquire_timeout_ms = acquire_timeout, conns_block = cb, conns = cs,
                         mutex = mu, free_cond = cv, shutting_down = False\<rparr>, m6)))))"

text \<open>The first loop of \<open>mysql_pool_destroy\<close>: stop every worker, and cancel what it runs.\<close>

definition mysql_stop_conn ::
  "('w, 'r) my_env \<Rightarrow> 'r mysql_conn \<Rightarrow> 'w mach \<Rightarrow> 'r mysql_conn \<times> 'w mach" where
  "mysql_stop_conn E c m =
     (let c1 = c\<lparr>shutdown_requested := True\<rparr>
      in (c1, mysql_signal_stop c1 (mysql_pool_cancel E (Some c1) m)))"

definition mysql_pool_destroy :: "nat \<Rightarrow> ('w, 'r) my_env \<Rightarrow> 'r mysql_pool option \<Rightarrow> 'w mach \<Rightarrow> 'w mach" where
  "mysql_pool_destroy fuel E pool m =
     (case pool of
        None \<Rightarrow> m
      | Some p \<Rightarrow>
          (let (cs, m1) = stop_all (mysql_stop_conn E) (conns p) m;
               m2 = fold (\<lambda>c k. snd (mysql_teardown_conn fuel E c k)) cs m1;
               m3 = mutex_unlock (mutex p) (cond_signal (free_cond p) (mutex_lock (mutex p) m2))
           in free_pool_strings [host p, user p, password p, db p] (pool_block p)
                (rfree (mutex p) (rfree (free_cond p) (rfree (conns_block p) m3)))))"

section \<open>Acquire and release\<close>

definition mysql_set_in_use :: "bool \<Rightarrow> nat \<Rightarrow> 'r mysql_pool \<Rightarrow> 'r mysql_pool" where
  "mysql_set_in_use b i p = p\<lparr>conns := (conns p)[i := (conns p ! i)\<lparr>in_use := b\<rparr>]\<rparr>"

definition mysql_try_acquire :: "'r mysql_pool \<Rightarrow> nat option \<times> 'r mysql_pool" where
  "mysql_try_acquire p =
     (case scan_free in_use (take (nat (max_size p)) (conns p)) 0 of
        None \<Rightarrow> (None, p)
      | Some i \<Rightarrow> (Some i, mysql_set_in_use True i p))"

definition mysql_pool_acquire ::
  "timespec \<Rightarrow> 'r mysql_pool wake list \<Rightarrow> 'r mysql_pool option \<Rightarrow> int \<Rightarrow>
   acquire_result \<times> 'r mysql_pool option" where
  "mysql_pool_acquire now ws pool timeout =
     (case pool of
        None \<Rightarrow> (Refused, None)
      | Some p \<Rightarrow>
          (if shutting_down p then (Refused, Some p)
           else (let eff = (if timeout = 0 then default_acquire_timeout_ms p else timeout);
                     (r, q) = acquire_loop shutting_down mysql_try_acquire eff
                                (mysql_deadline_from_ms now eff) ws p
                 in (r, Some q))))"

definition mysql_pool_release ::
  "'r mysql_pool option \<Rightarrow> nat option \<Rightarrow> 'w mach \<Rightarrow> 'r mysql_pool option \<times> 'w mach" where
  "mysql_pool_release pool conn m =
     (case (pool, conn) of
        (Some p, Some i) \<Rightarrow>
          (Some (mysql_set_in_use False i p),
           mutex_unlock (mutex p) (cond_signal (free_cond p) (mutex_lock (mutex p) m)))
      | _ \<Rightarrow> (pool, m))"

end
