(* ===== verification/My_Laws.thy ===== *)
theory My_Laws
  imports My_Pool
begin

text \<open>
  The MySQL connection's invariant and its operations: the joined statement text, the three
  submissions, polling, the worker's three ways to run a request against the sequence of result
  sets the server sends, and the clearing of the slot.
\<close>

section \<open>Results as nodes\<close>

definition my_node_ids :: "nat \<Rightarrow> 'r native_mysql_result \<Rightarrow> nat list" where
  "my_node_ids a nd = opt_ids (mr_res nd) @ [a]"

definition my_node_view :: "'r native_mysql_result \<Rightarrow> 'r option" where
  "my_node_view nd = map_option contents (mr_res nd)"

lemma my_clear_eq: "native_mysql_clear_result a nd m = free_all (my_node_ids a nd) m"
  by (simp add: native_mysql_clear_result_def my_node_ids_def my_free_result_def split: option.split)

interpretation my_nodes: result_nodes mr_next "\<lambda>p nd. nd\<lparr>mr_next := p\<rparr>" my_node_ids
  native_mysql_clear_result my_node_view
  by unfold_locales (simp_all add: my_node_ids_def my_node_view_def my_clear_eq)

abbreviation my_store where "my_store \<equiv> store_ids my_node_ids"

section \<open>The invariant\<close>

text \<open>The handles of a connection, and its slot.\<close>

definition my_handles :: "'r mysql_conn \<Rightarrow> nat list" where
  "my_handles c = [the (my c), worker c, slot_mutex c, slot_cond c]"

definition my_slot_ok :: "'r mysql_conn \<Rightarrow> bool" where
  "my_slot_ok c \<longleftrightarrow> my c \<noteq> None \<and> (slot_filled c \<longleftrightarrow> sql c \<noteq> None) \<and>
     (\<not> slot_filled c \<longrightarrow> \<not> is_batch c \<and> \<not> is_multi_read c) \<and> \<not> (is_batch c \<and> is_multi_read c)"

definition my_own :: "'r mysql_conn \<Rightarrow> 'w mach \<Rightarrow> bool" where
  "my_own c m \<longleftrightarrow> my_slot_ok c \<and> held m = {} \<and>
     store_ok mr_next my_node_ids (my_handles c @ opt_ids (sql c)) (results c) (last_result c) m"

text \<open>Two connections that differ in their results and errors only.\<close>

definition my_core :: "'r mysql_conn \<Rightarrow> 'r mysql_conn" where
  "my_core c = c\<lparr>results := [], last_result := None, last_errno := 0, last_error := []\<rparr>"

definition my_same :: "'r mysql_conn \<Rightarrow> 'r mysql_conn \<Rightarrow> bool" where
  "my_same c c' \<longleftrightarrow> my_core c' = my_core c"

lemma my_same_simps [simp]: "my_same c c" "my_same c (c\<lparr>results := rs\<rparr>)" "my_same c (c\<lparr>last_result := lr\<rparr>)"
  "my_same c (c\<lparr>results := rs, last_result := lr\<rparr>)" "my_same c (c\<lparr>last_errno := e, last_error := s\<rparr>)"
  by (simp_all add: my_same_def my_core_def)

lemma my_same_trans: "my_same c d \<Longrightarrow> my_same d e \<Longrightarrow> my_same c e"
  by (simp add: my_same_def)

lemma my_same_fields:
  assumes "my_same c c'"
  shows "my c' = my c" "my_pool c' = my_pool c" "worker c' = worker c" "slot_mutex c' = slot_mutex c"
    "slot_cond c' = slot_cond c" "slot_filled c' = slot_filled c" "is_batch c' = is_batch c"
    "is_multi_read c' = is_multi_read c" "sql c' = sql c" "port_id c' = port_id c"
    "shutdown_requested c' = shutdown_requested c" "thread_id c' = thread_id c"
    "my_handles c' = my_handles c" "my_slot_ok c' = my_slot_ok c"
  using assms by (cases c, cases c', simp add: my_same_def my_core_def my_handles_def my_slot_ok_def)+

lemma my_own_same:
  assumes "my_same c c'" "my_slot_ok c" "held m = {}"
    "store_ok mr_next my_node_ids (my_handles c @ opt_ids (sql c)) (results c') (last_result c') m"
  shows "my_own c' m"
  using assms(2-4) my_same_fields [OF assms(1)] by (simp add: my_own_def)

lemma my_ownD:
  assumes "my_own c m"
  shows "my_slot_ok c" "ledger_ok m" "held m = {}" "\<not> fault m"
    "store_ok mr_next my_node_ids (my_handles c @ opt_ids (sql c)) (results c) (last_result c) m"
    "distinct (map fst (results c))"
  using assms by (simp_all add: my_own_def store_ok_def owned_def)

section \<open>Joining\<close>

lemma my_join_size_None: "my_join_size qs n = None \<longleftrightarrow> None \<in> set qs"
  by (induction qs n rule: my_join_size.induct) auto

lemma my_join_size_Some:
  "None \<notin> set qs \<Longrightarrow> my_join_size qs n = Some (n + sum_list (map (\<lambda>q. length (the q) + 1) qs))"
  by (induction qs n rule: my_join_size.induct) auto

lemma semis_length: "qs \<noteq> [] \<Longrightarrow> length (semis qs) + 1 = sum_list (map (\<lambda>q. length q + 1) qs)"
  by (induction qs rule: semis.induct) auto

lemma my_join_copy_eq:
  "i + length qs = cnt \<Longrightarrow> p + length (semis qs) \<le> length buf \<Longrightarrow>
   \<exists>buf'. my_join_copy cnt i qs p buf m = (p + length (semis qs), buf', m) \<and>
     length buf' = length buf \<and> take (p + length (semis qs)) buf' = take p buf @ semis qs \<and>
     drop (p + length (semis qs)) buf' = drop (p + length (semis qs)) buf"
proof (induction qs arbitrary: i p buf rule: semis.induct)
  case 1
  then show ?case by simp
next
  case (2 q)
  obtain b m1 where w: "write_bytes p q buf m = (b, m1)" by (cases "write_bytes p q buf m")
  from write_bytes_fits [OF _ w] write_bytes_rest [OF _ w] 2 have "m1 = m" "length b = length buf"
    "take (p + length q) b = take p buf @ q" "drop (p + length q) b = drop (p + length q) buf"
    by simp_all
  with w 2 show ?case by (simp add: Let_def)
next
  case (3 q r rs)
  obtain b m1 where w: "write_bytes p q buf m = (b, m1)" by (cases "write_bytes p q buf m")
  from write_bytes_fits [OF _ w] 3(3) have b: "m1 = m" "length b = length buf" "take (p + length q) b = take p buf @ q"
    by simp_all
  obtain b' m2 where w': "write_bytes (p + length q) '';'' b m = (b', m2)" by (cases "write_bytes (p + length q) '';'' b m")
  from write_bytes_fits [OF _ w'] 3(3) b have b': "m2 = m" "length b' = length buf"
    "take (p + length q + 1) b' = take p buf @ q @ '';''" by simp_all
  let ?k = "p + length q + 1 + length (semis (r # rs))"
  have rest: "drop ?k b' = drop ?k buf"
    using write_bytes_rest [OF _ w, of ?k] write_bytes_rest [OF _ w', of ?k] 3(3) b(2) by simp
  have "Suc i + length (r # rs) = cnt" "p + length q + 1 + length (semis (r # rs)) \<le> length b'"
    using 3(2,3) b'(2) by simp_all
  from "3.IH" [OF this] obtain buf' where
    "my_join_copy cnt (Suc i) (r # rs) (p + length q + 1) b' m =
       (p + length q + 1 + length (semis (r # rs)), buf', m)"
    "length buf' = length b'"
    "take ?k buf' = take (p + length q + 1) b' @ semis (r # rs)" "drop ?k buf' = drop ?k b'"
    by blast
  with w w' b b' rest 3(2) show ?case
    by (simp add: Let_def ac_simps)
qed

text \<open>
  What \<open>join_stmts\<close> returns: the text, a NUL and one byte never written, in a block it never
  leaves; or NULL, when a statement is NULL or memory is short.
\<close>

lemma join_stmts_cases:
  assumes n: "0 < n" "nat n \<le> length qs"
  defines "ss \<equiv> take (nat n) qs"
  shows "case join_stmts qs n m of
      (None, m') \<Rightarrow> acquired m [] m' \<and> (oom m = [] \<longrightarrow> None \<in> set ss)
    | (Some j, m') \<Rightarrow> acquired m [addr j] m' \<and> None \<notin> set ss \<and>
        contents j = semis (map the ss) @ [CHR 0x00, CHR 0xCC]"
proof (cases "None \<in> set ss")
  case True
  then show ?thesis
    by (simp add: join_stmts_def read_array_enough n ss_def my_join_size_None [THEN iffD2])
next
  case False
  let ?ts = "map the ss" and ?size = "1 + sum_list (map (\<lambda>q. length (the q) + 1) ss)"
  have ne: "?ts \<noteq> []" using n by (auto simp: ss_def)
  have size: "?size = length (semis ?ts) + 2"
    using semis_length [OF ne] by (simp add: comp_def)
  obtain k m1 where h: "halloc () m = (k, m1)" by (cases "halloc () m")
  show ?thesis
  proof (cases k)
    case None
    with h have "acquired m [] m1" "oom m \<noteq> []"
      using halloc_None [of "()" m m1] halloc_plenty [of m "()"] by auto
    with h None False show ?thesis
      by (simp add: join_stmts_def read_array_enough n ss_def my_join_size_Some)
  next
    case (Some blk)
    let ?buf = "replicate ?size (CHR 0xCC)"
    have "0 + length ?ts = nat n" "0 + length (semis ?ts) \<le> length ?buf"
      using n size by (simp_all add: ss_def)
    from my_join_copy_eq [OF this, of m1] obtain b where
      b: "my_join_copy (nat n) 0 ?ts 0 ?buf m1 = (length (semis ?ts), b, m1)" "length b = ?size"
        "take (length (semis ?ts)) b = semis ?ts"
        "drop (length (semis ?ts)) b = drop (length (semis ?ts)) ?buf" by auto
    obtain c m2 where w: "write_bytes (length (semis ?ts)) [CHR 0x00] b m1 = (c, m2)"
      by (cases "write_bytes (length (semis ?ts)) [CHR 0x00] b m1")
    have "m2 = m1" "c = semis ?ts @ CHR 0x00 # drop (length (semis ?ts) + 1) b"
      using w b(2,3) size by (auto simp: write_bytes_def)
    moreover have "drop (length (semis ?ts) + 1) b = [CHR 0xCC]"
      using arg_cong [OF b(4), of "drop 1"] size by simp
    ultimately show ?thesis
      using h Some False b(1) w halloc_Some [of "()" m blk m1]
      by (simp add: join_stmts_def read_array_enough n ss_def my_join_size_Some)
  qed
qed

section \<open>Submitting\<close>

datatype my_call =
    My_query "string option"
  | My_batch "string option list" int
  | My_multi_read "string option list" int

definition my_submit ::
  "my_call \<Rightarrow> int \<Rightarrow> int \<Rightarrow> 'r mysql_conn \<Rightarrow> 'w mach \<Rightarrow> int \<times> 'r mysql_conn option \<times> 'w mach" where
  "my_submit call port t c m =
     (case call of
        My_query q \<Rightarrow> mysql_pool_submit_query (Some c) q port t m
      | My_batch qs n \<Rightarrow> mysql_pool_submit_batch (Some c) (Some qs) n port t m
      | My_multi_read qs n \<Rightarrow> mysql_pool_submit_multi_read (Some c) (Some qs) n port t m)"

text \<open>The caller's arrays are as long as it says; strings are bytes before a NUL.\<close>

fun my_call_ok :: "my_call \<Rightarrow> bool" where
  "my_call_ok (My_query q) = (case q of None \<Rightarrow> True | Some s \<Rightarrow> CHR 0x00 \<notin> set s)"
| "my_call_ok (My_batch qs n) = (nat n \<le> length qs \<and> (\<forall>q \<in> set (take (nat n) qs). \<forall>s. q = Some s \<longrightarrow> CHR 0x00 \<notin> set s))"
| "my_call_ok (My_multi_read qs n) = (nat n \<le> length qs \<and> (\<forall>q \<in> set (take (nat n) qs). \<forall>s. q = Some s \<longrightarrow> CHR 0x00 \<notin> set s))"

text \<open>What the worker will run: its kind and the text it passes to the client library.\<close>

datatype my_kind = One_statement | Write_batch | Reads

fun my_call_request :: "my_call \<Rightarrow> my_kind \<times> string" where
  "my_call_request (My_query q) = (One_statement, the q)"
| "my_call_request (My_batch qs n) = (Write_batch, semis (map the (take (nat n) qs)))"
| "my_call_request (My_multi_read qs n) = (Reads, semis (map the (take (nat n) qs)))"

definition my_slot_request :: "'r mysql_conn \<Rightarrow> my_kind \<times> string" where
  "my_slot_request c =
     ((if is_multi_read c then Reads else if is_batch c then Write_batch else One_statement),
      c_string (contents (the (sql c))))"

text \<open>Refused: nothing changed. Accepted: the slot is the request, its text newly allocated.\<close>

definition my_refused :: "'r mysql_conn \<Rightarrow> 'w mach \<Rightarrow> int \<times> 'r mysql_conn option \<times> 'w mach \<Rightarrow> bool" where
  "my_refused c m res \<longleftrightarrow> (\<exists>m'. res = (0, Some c, m') \<and> acquired m [] m')"

definition my_accepted ::
  "'r mysql_conn \<Rightarrow> 'w mach \<Rightarrow> my_kind \<Rightarrow> int \<Rightarrow> int \<Rightarrow> int \<times> 'r mysql_conn option \<times> 'w mach \<Rightarrow> string \<Rightarrow> bool" where
  "my_accepted c m kind port t res text \<longleftrightarrow> (\<exists>s m'. res =
     (1, Some (c\<lparr>slot_filled := True, is_batch := (kind = Write_batch), is_multi_read := (kind = Reads),
                  sql := Some s, port_id := port, timeout_ms := t\<rparr>), m') \<and>
     acquired m [addr s] m' \<and> c_string (contents s) = text \<and> \<not> slot_filled c \<and> \<not> shutdown_requested c)"

lemma my_unraised:
  assumes "my_slot_ok c" "\<not> slot_filled c"
  shows "c\<lparr>slot_filled := True, sql := s, port_id := p, timeout_ms := t\<rparr> =
      c\<lparr>slot_filled := True, is_batch := False, is_multi_read := False, sql := s, port_id := p, timeout_ms := t\<rparr>"
    "c\<lparr>slot_filled := True, sql := s, port_id := p, timeout_ms := t, is_batch := True\<rparr> =
      c\<lparr>slot_filled := True, is_batch := True, is_multi_read := False, sql := s, port_id := p, timeout_ms := t\<rparr>"
    "c\<lparr>slot_filled := True, sql := s, port_id := p, timeout_ms := t, is_multi_read := True\<rparr> =
      c\<lparr>slot_filled := True, is_batch := False, is_multi_read := True, sql := s, port_id := p, timeout_ms := t\<rparr>"
  using assms by (simp_all add: my_slot_ok_def)

lemma submit_query_cases:
  assumes nh: "slot_mutex c \<notin> held m" and sl: "my_slot_ok c" and q: "my_call_ok (My_query q)"
  shows "my_refused c m (mysql_pool_submit_query (Some c) q port t m) \<or>
    my_accepted c m One_statement port t (mysql_pool_submit_query (Some c) q port t m) (the q)"
proof (cases q)
  case None
  then show ?thesis by (simp add: my_refused_def mysql_pool_submit_query_def)
next
  case (Some body)
  let ?m1 = "mutex_lock (slot_mutex c) m"
  obtain d m2 where d: "dup_string (Some body) ?m1 = (d, m2)" by (cases "dup_string (Some body) ?m1")
  show ?thesis
  proof (cases "slot_filled c \<or> shutdown_requested c")
    case True
    then show ?thesis using Some lock_refused [OF nh]
      by (auto simp: my_refused_def mysql_pool_submit_query_def Let_def)
  next
    case False
    show ?thesis
    proof (cases d)
      case None
      from dup_string_None [OF d [unfolded None]] lock_unlock [OF nh] None False Some d show ?thesis
        by (auto simp: my_refused_def mysql_pool_submit_query_def Let_def mysql_dup_string_eq)
    next
      case (Some s)
      from dup_string_Some [OF d [unfolded Some]] have a: "acquired ?m1 [addr s] m2" "contents s = body"
        by simp_all
      then have "acquired m [addr s] (mutex_unlock (slot_mutex c) (cond_signal (slot_cond c) m2))"
        by (intro lock_unlock [OF nh]) simp
      with Some \<open>q = Some body\<close> False d a(2) q my_unraised(1) [OF sl] show ?thesis
        by (auto simp: my_accepted_def mysql_pool_submit_query_def Let_def mysql_dup_string_eq c_string_whole)
    qed
  qed
qed

lemma submit_joined_cases:
  fixes c :: "'r mysql_conn"
  assumes ok: "ledger_ok m" and nh: "slot_mutex c \<notin> held m"
    and call: "my_call_ok (My_batch qs n)"
    and raise: "\<And>s. \<not> slot_filled c \<Longrightarrow>
      raise (c\<lparr>slot_filled := True, sql := s, port_id := port, timeout_ms := t\<rparr>) =
      c\<lparr>slot_filled := True, is_batch := (kind = Write_batch), is_multi_read := (kind = Reads), sql := s,
        port_id := port, timeout_ms := t\<rparr>"
  shows "my_refused c m (submit_joined raise (Some c) (Some qs) n port t m) \<or>
    my_accepted c m kind port t (submit_joined raise (Some c) (Some qs) n port t m) (semis (map the (take (nat n) qs)))"
proof (cases "n \<le> 0")
  case True
  then show ?thesis by (simp add: my_refused_def submit_joined_def)
next
  case False
  obtain j m1 where j: "join_stmts qs n m = (j, m1)" by (cases "join_stmts qs n m")
  have n: "0 < n" "nat n \<le> length qs" using False call by simp_all
  note cs = join_stmts_cases [OF n, of m, unfolded j]
  show ?thesis
  proof (cases j)
    case None
    with cs j False show ?thesis by (auto simp: my_refused_def submit_joined_def)
  next
    case (Some s)
    with cs have a: "acquired m [addr s] m1" and nn: "None \<notin> set (take (nat n) qs)"
      and body: "contents s = semis (map the (take (nat n) qs)) @ [CHR 0x00, CHR 0xCC]" by simp_all
    have nh1: "slot_mutex c \<notin> held m1" using a nh by (simp add: acquired_def)
    show ?thesis
    proof (cases "slot_filled c \<or> shutdown_requested c")
      case True
      have "acquired m [addr s] (mutex_unlock (slot_mutex c) (mutex_lock (slot_mutex c) m1))"
        using acquired_trans [OF a lock_refused [OF nh1]] by simp
      from acquired_rfree_one [OF ok this] True Some j False show ?thesis
        by (auto simp: my_refused_def submit_joined_def Let_def)
    next
      case free: False
      have "acquired m1 [] (mutex_unlock (slot_mutex c) (cond_signal (slot_cond c) (mutex_lock (slot_mutex c) m1)))"
        by (rule lock_unlock [OF nh1]) simp
      from acquired_trans [OF a this] have
        b: "acquired m [addr s] (mutex_unlock (slot_mutex c) (cond_signal (slot_cond c) (mutex_lock (slot_mutex c) m1)))"
        by simp
      have "\<forall>q \<in> set (map the (take (nat n) qs)). CHR 0x00 \<notin> set q"
        using call nn by (auto simp: image_iff) (metis option.exhaust_sel)
      from c_string_semis_tail [OF this, of "[CHR 0xCC]"] raise [of "Some s"] b free False Some j body show ?thesis
        by (auto simp: my_accepted_def submit_joined_def Let_def)
    qed
  qed
qed

lemma my_submit_cases:
  assumes own: "my_own c m" and call: "my_call_ok call"
  shows "my_refused c m (my_submit call port t c m) \<or>
    my_accepted c m (fst (my_call_request call)) port t (my_submit call port t c m) (snd (my_call_request call))"
proof -
  note D = my_ownD [OF own]
  have nh: "slot_mutex c \<notin> held m" using D(3) by simp
  show ?thesis
  proof (cases call)
    case (My_query q)
    with submit_query_cases [OF nh D(1), of q port t] call show ?thesis by (simp add: my_submit_def)
  next
    case (My_batch qs n)
    have "my_call_ok (My_batch qs n)" using call My_batch by simp
    from submit_joined_cases [OF D(2) nh this, where kind = Write_batch and port = port and t = t and raise = "\<lambda>c. c\<lparr>is_batch := True\<rparr>"] my_unraised(2) [OF D(1)]
    show ?thesis by (simp add: my_submit_def My_batch mysql_pool_submit_batch_def)
  next
    case (My_multi_read qs n)
    have "my_call_ok (My_batch qs n)" using call My_multi_read by simp
    from submit_joined_cases [OF D(2) nh this, where kind = Reads and port = port and t = t and raise = "\<lambda>c. c\<lparr>is_multi_read := True\<rparr>"] my_unraised(3) [OF D(1)]
    show ?thesis by (simp add: my_submit_def My_multi_read mysql_pool_submit_multi_read_def)
  qed
qed

lemma my_own_acquired: "my_own c m \<Longrightarrow> acquired m [] m' \<Longrightarrow> my_own c m'"
  using acquired_nil [of m m'] by (auto simp: my_own_def released_def [of m "{}" m'] intro: store_ok_acquired)

lemma my_own_released: "my_own c m \<Longrightarrow> released m {} m' \<Longrightarrow> my_own c m'"
  by (auto simp: my_own_def released_def [of m "{}"] intro: store_ok_quiet)

lemma my_accepted_own:
  assumes own: "my_own c m" and acc: "my_accepted c m kind port t (k, Some c', m') text"
  shows "my_own c' m' \<and> k = 1 \<and> \<not> slot_filled c \<and> \<not> shutdown_requested c \<and> slot_filled c' \<and>
    port_id c' = port \<and> \<not> shutdown_requested c' \<and> my_slot_request c' = (kind, text) \<and> my_same c' c' \<and>
    results c' = results c \<and> last_result c' = last_result c"
proof -
  from acc obtain s where s: "c' = c\<lparr>slot_filled := True, is_batch := (kind = Write_batch),
      is_multi_read := (kind = Reads), sql := Some s, port_id := port, timeout_ms := t\<rparr>"
    "acquired m [addr s] m'" "c_string (contents s) = text" "\<not> slot_filled c" "\<not> shutdown_requested c" "k = 1"
    by (auto simp: my_accepted_def)
  have "sql c = None" using my_ownD(1) [OF own] s(4) by (simp add: my_slot_ok_def)
  then have "store_ok mr_next my_node_ids (my_handles c @ [addr s]) (results c) (last_result c) m'"
    using my_ownD(5) [OF own] by (intro store_ok_acquired [OF _ s(2)]) simp_all
  moreover have "held m' = {}" using my_ownD(3) [OF own] s(2) by (simp add: acquired_def)
  moreover have "my_handles c' = my_handles c" "my_slot_ok c'"
    using my_ownD(1) [OF own] by (simp_all add: s(1) my_handles_def my_slot_ok_def)
  ultimately show ?thesis
    using s by (cases kind) (simp_all add: my_own_def my_slot_request_def)
qed

end
