(* ===== verification/My_Worker_Laws.thy ===== *)
theory My_Worker_Laws
  imports My_Laws
begin

text \<open>
  The MySQL worker against what the server sends. \<open>my_reads\<close> is the specification: the result
  sets of one request in the order the client library delivers them, or an error. The batch
  drains all of them, a multi-read keeps all of them in order, and both end when the server's
  results end.
\<close>

section \<open>What the server sends\<close>

text \<open>\<open>None\<close>: more than \<open>n\<close> results; \<open>Some None\<close>: an error among them.\<close>

fun my_reads :: "nat \<Rightarrow> ('w, 'r) my_env \<Rightarrow> nat \<Rightarrow> 'w \<Rightarrow> 'r option list option option" where
  "my_reads 0 E h w = None"
| "my_reads (Suc n) E h w =
     (case mysql_store_result E h w of (r, w1) \<Rightarrow>
        if r = None \<and> mysql_errno E h w1 \<noteq> 0 then Some None
        else (case mysql_next_result E h w1 of (nx, w2) \<Rightarrow>
          if nx > 0 then Some None
          else if nx < 0 then Some (Some [r])
          else map_option (map_option (Cons r)) (my_reads n E h w2)))"

lemma MY_PORT_simps [simp]: "MY_PORT_OK = 1" "MY_PORT_ABORTED = 2"
  by (simp_all add: MY_PORT_OK_def MY_PORT_ABORTED_def)

lemma free_opt_result_eq: "free_opt_result r m = free_all (opt_ids r) m"
  by (simp add: free_opt_result_def my_free_result_def split: option.split)

lemma free_opt_result_acquired:
  "ledger_ok m \<Longrightarrow> acquired m (opt_ids r) m1 \<Longrightarrow> acquired m [] (free_opt_result r m1)"
  using acquired_free_every [of m "opt_ids r" m1 "opt_ids r"]
  by (cases r) (simp_all add: free_opt_result_eq)

section \<open>The batch\<close>

lemma batch_drain_reads:
  "map_option fst (batch_drain n E h m) = map_option (\<lambda>rs. if rs = None then 2 else 1) (my_reads n E h (ext m))"
proof (induction n arbitrary: m)
  case 0
  show ?case by simp
next
  case (Suc n)
  obtain r m1 where r: "my_store_result E h m = (r, m1)" by (cases "my_store_result E h m")
  note s = my_store_result_ext [OF r]
  obtain nx w where nx: "mysql_next_result E h (ext m1) = (nx, w)" by (cases "mysql_next_result E h (ext m1)")
  have x: "ext (free_opt_result r m1) = ext m1" by (simp add: free_opt_result_eq ledger)
  show ?case
    using Suc.IH [of "(free_opt_result r m1)\<lparr>ext := w\<rparr>"]
    by (simp add: r s nx x Let_def option.map_comp comp_def)
qed

lemma batch_drain_acquired:
  "ledger_ok m \<Longrightarrow> batch_drain n E h m = Some (st, m') \<Longrightarrow> acquired m [] m'"
proof (induction n arbitrary: m)
  case 0
  then show ?case by simp
next
  case (Suc n)
  obtain r m1 where r: "my_store_result E h m = (r, m1)" by (cases "my_store_result E h m")
  note a = my_store_result_acquired [OF r]
  from free_opt_result_acquired [OF Suc.prems(1) a] have f: "acquired m [] (free_opt_result r m1)" .
  obtain nx w where nx: "mysql_next_result E h (ext (free_opt_result r m1)) = (nx, w)"
    by (cases "mysql_next_result E h (ext (free_opt_result r m1))")
  let ?m3 = "(free_opt_result r m1)\<lparr>ext := w\<rparr>"
  have f3: "acquired m [] ?m3" using f by simp
  have "acquired ?m3 [] m' \<Longrightarrow> acquired m [] m'"
    using acquired_trans [OF f3, of "[]" m'] by simp
  with Suc.IH [of ?m3] acquired_ledger_ok [OF Suc.prems(1) f3] Suc.prems(2) a f3 show ?case
    by (auto simp: r nx Let_def split: if_splits)
qed

lemma batch_drain_oom: "batch_drain n E h m = Some (st, m') \<Longrightarrow> oom m' = oom m"
proof (induction n arbitrary: m)
  case 0
  then show ?case by simp
next
  case (Suc n)
  obtain r m1 where r: "my_store_result E h m = (r, m1)" by (cases "my_store_result E h m")
  have o: "oom (free_opt_result r m1) = oom m" "oom m1 = oom m"
    using r by (auto simp: free_opt_result_eq ledger my_store_result_def rnew_def split: prod.splits option.splits)
  obtain nx w where nx: "mysql_next_result E h (ext (free_opt_result r m1)) = (nx, w)"
    by (cases "mysql_next_result E h (ext (free_opt_result r m1))")
  from Suc.IH [of "(free_opt_result r m1)\<lparr>ext := w\<rparr>"] Suc.prems o show ?case
    by (auto simp: r nx Let_def split: if_splits)
qed

section \<open>The multi-read\<close>

lemma my_abort:
  assumes "my_nodes.building st0 st head tail news" "owned (pre @ my_store st0) m0"
    "acquired m0 (my_store news @ zs) m" "mysql_free_result_chain head st (free_all zs m) = (st', m')"
  shows "st' = st0 \<and> acquired m0 [] m'"
  using my_nodes.built_abort [OF assms(1-3)] assms(4) by (simp add: mysql_free_result_chain_def)

lemma my_link:
  assumes b: "my_nodes.building st0 st head tail news" and own: "owned (pre @ my_store st0) m0"
    and acq: "acquired m0 (my_store news @ opt_ids res @ [addr blk]) m"
  shows "\<exists>head' st' news'.
    link_node (\<lambda>p nd. nd\<lparr>mr_next := p\<rparr>) head tail (addr blk) (my_wrap E res) st m = (head', Some (addr blk), st', m) \<and>
    my_nodes.building st0 st' head' (Some (addr blk)) news' \<and>
    map (my_node_view \<circ> snd) news' = map (my_node_view \<circ> snd) news @ [map_option contents res] \<and>
    acquired m0 (my_store news') m"
proof -
  have "my_node_view (my_wrap E res) = map_option contents res" "mr_next (my_wrap E res) = None"
    "my_node_ids (addr blk) (my_wrap E res) = opt_ids res @ [addr blk]"
    by (simp_all add: my_node_view_def my_node_ids_def my_wrap_def zero_result_def)
  with my_nodes.built_link [OF b own, of "addr blk" "my_wrap E res" m] acq show ?thesis by simp
qed

text \<open>One turn of the loop, once it has a result and a wrapper for it.\<close>

lemma my_drain_turn:
  assumes r: "my_store_result E h m = (res, m1)" and h: "halloc () m1 = (Some blk, m2)"
    and nx: "mysql_next_result E h (ext m1) = (nx, w)"
    and ok: "\<not> (res = None \<and> mysql_errno E h (ext m1) \<noteq> 0)"
    and l: "link_node (\<lambda>p nd. nd\<lparr>mr_next := p\<rparr>) head tail (addr blk) (my_wrap E res) st m2 = (head1, tail1, st1, m2)"
  shows "my_multi_drain (Suc n) E h st head tail m =
      (if nx > 0 then (let (st2, m5) = mysql_free_result_chain head1 st1 (m2\<lparr>ext := w\<rparr>) in Some (2, st2, None, m5))
       else if nx < 0 then Some (1, st1, head1, m2\<lparr>ext := w\<rparr>)
       else my_multi_drain n E h st1 head1 tail1 (m2\<lparr>ext := w\<rparr>))"
    "my_reads (Suc n) E h (ext m) = (if nx > 0 then Some None else if nx < 0 then Some (Some [map_option contents res])
      else map_option (map_option (Cons (map_option contents res))) (my_reads n E h w))"
proof -
  have ok': "(res = None \<and> mysql_errno E h (ext m1) \<noteq> 0) = False"
    "(map_option contents res = None \<and> mysql_errno E h (ext m1) \<noteq> 0) = False"
    using ok by simp_all
  have x2: "ext m2 = ext m1" using halloc_frame [OF h] by simp
  show "my_multi_drain (Suc n) E h st head tail m =
      (if nx > 0 then (let (st2, m5) = mysql_free_result_chain head1 st1 (m2\<lparr>ext := w\<rparr>) in Some (2, st2, None, m5))
       else if nx < 0 then Some (1, st1, head1, m2\<lparr>ext := w\<rparr>)
       else my_multi_drain n E h st1 head1 tail1 (m2\<lparr>ext := w\<rparr>))"
    unfolding my_multi_drain.simps r Let_def prod.case ok'(1) if_False h option.case l
    by (simp add: x2 nx)
  show "my_reads (Suc n) E h (ext m) = (if nx > 0 then Some None else if nx < 0 then Some (Some [map_option contents res])
      else map_option (map_option (Cons (map_option contents res))) (my_reads n E h w))"
    unfolding my_reads.simps my_store_result_ext [OF r] prod.case ok'(2) if_False nx by simp
qed

text \<open>A turn that ends in an abort has given everything back.\<close>

lemma my_drain_stops:
  assumes b: "my_nodes.building st0 st head tail news" and own: "owned (pre @ my_store st0) m0"
    and acq: "acquired m0 (my_store news) m"
    and r: "my_store_result E h m = (res, m1)" and h: "halloc () m1 = (k, m2)"
    and stop: "(res = None \<and> mysql_errno E h (ext m1) \<noteq> 0) \<or> k = None"
    and run: "my_multi_drain (Suc n) E h st head tail m = Some (rc, st', head', m')"
  shows "rc = 2 \<and> st' = st0 \<and> acquired m0 [] m' \<and> (oom m = [] \<longrightarrow> my_reads (Suc n) E h (ext m) = Some None)"
proof (cases "res = None \<and> mysql_errno E h (ext m1) \<noteq> 0")
  case True
  obtain st1 m3 where f: "mysql_free_result_chain head st m1 = (st1, m3)" by (cases "mysql_free_result_chain head st m1")
  have "acquired m0 (my_store news @ []) m1"
    using acquired_trans [OF acq my_store_result_acquired [OF r]] True by simp
  from my_abort [OF b own this, of st1 m3] f have "st1 = st0 \<and> acquired m0 [] m3" by simp
  with run True r f my_store_result_ext [OF r] show ?thesis by auto
next
  case False
  with stop have k: "k = None" by simp
  obtain st1 m3 where f: "mysql_free_result_chain head st (free_opt_result res m2) = (st1, m3)"
    by (cases "mysql_free_result_chain head st (free_opt_result res m2)")
  have "acquired m0 (my_store news @ opt_ids res) m2"
    using acquired_trans [OF acquired_trans [OF acq my_store_result_acquired [OF r]] halloc_None] h k by simp
  from my_abort [OF b own this, of st1 m3] f have "st1 = st0 \<and> acquired m0 [] m3"
    by (simp add: free_opt_result_eq)
  moreover have "oom m1 = oom m"
    using r by (auto simp: my_store_result_def rnew_def split: prod.splits option.splits)
  then have "oom m \<noteq> []" using h k halloc_plenty [of m1 "()"] by auto
  ultimately show ?thesis using run False r h k f by (auto simp: Let_def split: if_splits)
qed

text \<open>
  The loop either builds the results of \<open>my_reads\<close> behind the ones it has, or frees all of them
  and leaves the store it started with.
\<close>

definition my_multi_end where
  "my_multi_end b st0 news m0 out rc st' head' m' \<longleftrightarrow>
     (rc = (2::int) \<and> st' = st0 \<and> acquired m0 [] m' \<and> (b \<longrightarrow> out = Some None)) \<or>
     (rc = 1 \<and> (\<exists>tail' news' rs. my_nodes.building st0 st' head' tail' news' \<and>
        acquired m0 (my_store news') m' \<and> out = Some (Some rs) \<and>
        map (my_node_view \<circ> snd) news' = map (my_node_view \<circ> snd) news @ rs))"

lemma my_multi_cons:
  assumes e: "my_multi_end b st0 news1 m0 out rc st' head' m'" and b: "b' \<longrightarrow> b"
    and news: "map (my_node_view \<circ> snd) news1 = map (my_node_view \<circ> snd) news @ [v]"
  shows "my_multi_end b' st0 news m0 (map_option (map_option (Cons v)) out) rc st' head' m'"
  using e unfolding my_multi_end_def
proof (elim disjE conjE exE)
  fix tail' news' rs
  assume a: "rc = 1" "my_nodes.building st0 st' head' tail' news'" "acquired m0 (my_store news') m'" "out = Some (Some rs)"
    and "map (my_node_view \<circ> snd) news' = map (my_node_view \<circ> snd) news1 @ rs"
  then have "map (my_node_view \<circ> snd) news' = map (my_node_view \<circ> snd) news @ v # rs" by (simp only: news append_assoc append.simps)
  with a show "rc = 2 \<and> st' = st0 \<and> acquired m0 [] m' \<and> (b' \<longrightarrow> map_option (map_option (Cons v)) out = Some None) \<or>
     rc = 1 \<and> (\<exists>tail' news' rs. my_nodes.building st0 st' head' tail' news' \<and> acquired m0 (my_store news') m' \<and>
        map_option (map_option (Cons v)) out = Some (Some rs) \<and>
        map (my_node_view \<circ> snd) news' = map (my_node_view \<circ> snd) news @ rs)" by auto
qed (use b in simp)

lemma my_multi_drain_cases:
  assumes own: "owned (pre @ my_store st0) m0"
  shows "my_nodes.building st0 st head tail news \<Longrightarrow> acquired m0 (my_store news) m \<Longrightarrow>
   my_multi_drain n E h st head tail m = Some (rc, st', head', m') \<Longrightarrow>
   my_multi_end (oom m = []) st0 news m0 (my_reads n E h (ext m)) rc st' head' m'"
proof (induction n arbitrary: st head tail news m)
  case 0
  then show ?case by simp
next
  case (Suc n)
  note b = Suc.prems(1) and acq = Suc.prems(2) and run = Suc.prems(3)
  obtain res m1 where r: "my_store_result E h m = (res, m1)" by (cases "my_store_result E h m")
  obtain k m2 where h: "halloc () m1 = (k, m2)" by (cases "halloc () m1")
  show ?case
  proof (cases "(res = None \<and> mysql_errno E h (ext m1) \<noteq> 0) \<or> k = None")
    case True
    from my_drain_stops [OF b own acq r h this run] show ?thesis unfolding my_multi_end_def by blast
  next
    case False
    then obtain blk where k: "k = Some blk" and ok: "\<not> (res = None \<and> mysql_errno E h (ext m1) \<noteq> 0)" by auto
    have "acquired m0 (my_store news @ opt_ids res @ [addr blk]) m2"
      using acquired_trans [OF acq acquired_trans [OF my_store_result_acquired [OF r]]] halloc_Some [OF h [unfolded k]]
      by blast
    from my_link [OF b own this, of E] obtain head1 st1 news1 where l:
      "link_node (\<lambda>p nd. nd\<lparr>mr_next := p\<rparr>) head tail (addr blk) (my_wrap E res) st m2 = (head1, Some (addr blk), st1, m2)"
      "my_nodes.building st0 st1 head1 (Some (addr blk)) news1"
      "map (my_node_view \<circ> snd) news1 = map (my_node_view \<circ> snd) news @ [map_option contents res]"
      "acquired m0 (my_store news1) m2"
      by blast
    obtain nx w where nx: "mysql_next_result E h (ext m1) = (nx, w)" by (cases "mysql_next_result E h (ext m1)")
    note body = my_drain_turn(1) [OF r h [unfolded k] nx ok l(1)] and spec = my_drain_turn(2) [OF r h [unfolded k] nx ok l(1)]
    have acq4: "acquired m0 (my_store news1) (m2\<lparr>ext := w\<rparr>)" using l(4) by simp
    have "oom m1 = oom m"
      using r by (auto simp: my_store_result_def rnew_def split: prod.splits option.splits)
    then have oom2: "oom m = [] \<Longrightarrow> oom m2 = []" using h halloc_plenty [of m1 "()"] by auto
    consider "nx > 0" | "nx < 0" | "nx = 0" by linarith
    then show ?thesis
    proof cases
      case 1
      obtain st2 m5 where f: "mysql_free_result_chain head1 st1 (m2\<lparr>ext := w\<rparr>) = (st2, m5)"
        by (cases "mysql_free_result_chain head1 st1 (m2\<lparr>ext := w\<rparr>)")
      from my_abort [OF l(2) own, of "[]" "m2\<lparr>ext := w\<rparr>" st2 m5] acq4 f
      have "st2 = st0 \<and> acquired m0 [] m5" by simp
      with run [unfolded body] 1 f spec show ?thesis unfolding my_multi_end_def by auto
    next
      case 2
      with run [unfolded body] have e: "rc = 1" "st' = st1" "head' = head1" "m' = m2\<lparr>ext := w\<rparr>" by auto
      from spec 2 have "my_reads (Suc n) E h (ext m) = Some (Some [map_option contents res])"
        by (simp del: my_reads.simps)
      with l(2,3) acq4 e show ?thesis unfolding my_multi_end_def by blast
    next
      case 3
      with run [unfolded body] have go: "my_multi_drain n E h st1 head1 (Some (addr blk)) (m2\<lparr>ext := w\<rparr>) = Some (rc, st', head', m')"
        by simp
      have s': "my_reads (Suc n) E h (ext m) = map_option (map_option (Cons (map_option contents res))) (my_reads n E h w)"
        using spec 3 by (simp del: my_reads.simps)
      from oom2 have "oom m = [] \<longrightarrow> oom (m2\<lparr>ext := w\<rparr>) = []" by simp
      from my_multi_cons [OF Suc.IH [OF l(2) acq4 go] this l(3)] show ?thesis unfolding s' by simp
    qed
  qed
qed

lemma my_multi_drain_returns:
  "my_reads n E h (ext m) \<noteq> None \<Longrightarrow> my_multi_drain n E h st head tail m \<noteq> None"
proof (induction n arbitrary: st head tail m)
  case 0
  then show ?case by simp
next
  case (Suc n)
  obtain res m1 where r: "my_store_result E h m = (res, m1)" by (cases "my_store_result E h m")
  note s = my_store_result_ext [OF r]
  obtain k m2 where h: "halloc () m1 = (k, m2)" by (cases "halloc () m1")
  obtain nx w where nx: "mysql_next_result E h (ext m1) = (nx, w)" by (cases "mysql_next_result E h (ext m1)")
  have x: "ext m3 = ext m1" if "link_node f head tail a nd st m2 = (hd', tl', st', m3)" for f a nd hd' tl' st' m3
    using that halloc_frame [OF h] by (auto simp: link_node_def Let_def split: option.splits)
  have more: "my_reads n E h w \<noteq> None"
    if "\<not> (res = None \<and> mysql_errno E h (ext m1) \<noteq> 0)" "\<not> 0 < nx" "\<not> nx < 0"
    using Suc.prems that by (auto simp: s nx split: if_splits)
  show ?case
    using Suc.IH [of "_\<lparr>ext := w\<rparr>"] more
    by (auto simp: r h nx Let_def split: prod.split option.split dest!: x)
qed

section \<open>One request\<close>

text \<open>What a request asks of the server, and the results its client is to get.\<close>

definition my_outcome ::
  "nat \<Rightarrow> ('w, 'r) my_env \<Rightarrow> nat \<Rightarrow> my_kind \<times> string \<Rightarrow> 'w \<Rightarrow> 'r option list option option" where
  "my_outcome n E h req w =
     (case mysql_real_query E h (snd req) w of (rc, w1) \<Rightarrow>
        if rc \<noteq> 0 then Some None
        else (case fst req of
            One_statement \<Rightarrow>
              (case mysql_store_result E h w1 of (r, w2) \<Rightarrow>
                 Some (if r = None \<and> mysql_errno E h w2 \<noteq> 0 then None else Some [r]))
          | Write_batch \<Rightarrow> map_option (map_option (\<lambda>_. [None])) (my_reads n E h w1)
          | Reads \<Rightarrow> my_reads n E h w1))"

definition my_chain_views :: "'r mysql_conn \<Rightarrow> 'r option list \<Rightarrow> bool" where
  "my_chain_views c rs \<longleftrightarrow> (\<exists>as. chain_at mr_next (map_of (results c)) (last_result c) as \<and> distinct as \<and>
     map (my_node_view \<circ> snd) (chain_nodes (results c) as) = rs)"

text \<open>
  A run took exactly what its new results own, and its result is as the server's answer \<open>out\<close>
  says: all the results and code 1, or none and code 2.
\<close>

definition my_ran ::
  "'r mysql_conn \<Rightarrow> 'w mach \<Rightarrow> int \<times> 'r mysql_conn \<times> 'w mach \<Rightarrow> 'r option list option option \<Rightarrow> bool" where
  "my_ran c m res out \<longleftrightarrow> (case res of (rc, c', m') \<Rightarrow>
     grown mr_next my_node_ids (results c) m (results c') (last_result c') m' \<and>
     c' = c\<lparr>results := results c', last_result := last_result c'\<rparr> \<and>
     ((rc = 1 \<and> (\<exists>rs. out = Some (Some rs) \<and> my_chain_views c' rs)) \<or>
      (rc = 2 \<and> c' = c \<and> acquired m [] m' \<and> (oom m = [] \<longrightarrow> out = Some None))))"

lemma my_ran_abort:
  assumes "store_ok mr_next my_node_ids pre (results c) (last_result c) m" "acquired m [] m'"
    "oom m \<noteq> [] \<or> out = Some None"
  shows "my_ran c m (2, c, m') out"
  using grown_same [OF assms(1,2)] assms(2,3) by (auto simp: my_ran_def)

lemma my_ran_put:
  assumes ok: "store_ok mr_next my_node_ids pre (results c) (last_result c) m"
    and acq: "acquired m (my_node_ids w nd) m'" and nd: "mr_next nd = None"
    and out: "out = Some (Some [my_node_view nd])"
  shows "my_ran c m (1, c\<lparr>results := AList.update w nd (results c), last_result := Some w\<rparr>, m') out"
proof -
  have "map_of (AList.update w nd (results c)) w = Some nd" by (simp add: update_conv')
  then have "my_chain_views (c\<lparr>results := AList.update w nd (results c), last_result := Some w\<rparr>) [my_node_view nd]"
    unfolding my_chain_views_def using nd by (intro exI [of _ "[w]"]) simp
  with my_nodes.grown_put [OF ok acq nd] out show ?thesis by (simp add: my_ran_def)
qed

lemma my_single_ran:
  assumes ok: "store_ok mr_next my_node_ids pre (results c) (last_result c) m"
  shows "my_ran c m (my_execute_single E h c q m) (my_outcome n E h (One_statement, q) (ext m))"
proof -
  obtain rc w where q: "mysql_real_query E h q (ext m) = (rc, w)" by (cases "mysql_real_query E h q (ext m)")
  let ?m1 = "m\<lparr>ext := w\<rparr>"
  obtain r m2 where r: "my_store_result E h ?m1 = (r, m2)" by (cases "my_store_result E h ?m1")
  note s = my_store_result_ext [OF r, simplified] and a = my_store_result_acquired [OF r, simplified]
  have oom2: "oom m2 = oom m"
    using r by (auto simp: my_store_result_def rnew_def split: prod.splits option.splits)
  obtain k m3 where h: "halloc () m2 = (k, m3)" by (cases "halloc () m2")
  have led: "ledger_ok m" using ok by (simp add: store_ok_def owned_def)
  consider (fail) "rc \<noteq> 0 \<or> (r = None \<and> mysql_errno E h (ext m2) \<noteq> 0)"
    | (full) "rc = 0" "(r = None \<and> mysql_errno E h (ext m2) \<noteq> 0) = False" "k = None"
    | (stored) blk where "rc = 0" "(r = None \<and> mysql_errno E h (ext m2) \<noteq> 0) = False" "k = Some blk"
    by (cases k; cases "rc = 0"; cases "r = None \<and> mysql_errno E h (ext m2) \<noteq> 0") blast+
  then show ?thesis
  proof cases
    case fail
    then have o: "my_outcome n E h (One_statement, q) (ext m) = Some None"
      by (auto simp: my_outcome_def q s)
    show ?thesis
    proof (cases "rc = 0")
      case False
      with o show ?thesis by (simp add: my_execute_single_def q my_ran_abort [OF ok])
    next
      case True
      with fail have "r = None" by simp
      with a have "acquired m [] m2" by simp
      with True fail o r q \<open>r = None\<close> show ?thesis by (simp add: my_execute_single_def my_ran_abort [OF ok])
    qed
  next
    case full
    have "acquired m [] (free_opt_result r m3)"
      using acquired_trans [OF a halloc_None] h full(3) by (intro free_opt_result_acquired [OF led]) simp
    moreover have "oom m \<noteq> []" using h full(3) oom2 halloc_plenty [of m2 "()"] by auto
    ultimately show ?thesis
      unfolding my_execute_single_def q r Let_def prod.case h full(2,3) if_False option.case
      using full(1) by (simp add: r full(2) h full(3) my_ran_abort [OF ok])
  next
    case (stored blk)
    let ?nd = "zero_result\<lparr>mr_res := r, affected_rows := (if r = None then sint (mysql_affected_rows E h (ext m3)) else 0),
      col_count := num_fields E r, cached_row := -1, mr_row := None, mr_lengths := []\<rparr>"
    have "my_node_ids (addr blk) ?nd = opt_ids r @ [addr blk]" by (simp add: my_node_ids_def)
    then have "acquired m (my_node_ids (addr blk) ?nd) m3"
      using acquired_trans [OF a] halloc_Some [OF h [unfolded stored(3)]] by fastforce
    moreover have "my_outcome n E h (One_statement, q) (ext m) = Some (Some [my_node_view ?nd])"
      using stored(1,2) by (auto simp: my_outcome_def q s my_node_view_def)
    ultimately have ran: "my_ran c m (1, c\<lparr>results := AList.update (addr blk) ?nd (results c),
        last_result := Some (addr blk)\<rparr>, m3) (my_outcome n E h (One_statement, q) (ext m))"
      by (intro my_ran_put [OF ok]) (simp_all add: zero_result_def)
    have "my_execute_single E h c q m = (1, c\<lparr>results := AList.update (addr blk) ?nd (results c),
        last_result := Some (addr blk)\<rparr>, m3)"
      unfolding my_execute_single_def q Let_def prod.case
      using stored(1) by (simp only: r prod.case stored(2) h stored(3) if_False option.case) simp
    with ran show ?thesis by simp
  qed
qed

text \<open>A successful single statement puts one new node in front of nothing: the chain it found is off.\<close>

lemma my_single_head:
  assumes run: "my_execute_single E h c q m = (1, c', m')"
  shows "\<exists>w nd. last_result c' = Some w \<and> results c' = AList.update w nd (results c) \<and> mr_next nd = None \<and>
    acquired m (my_node_ids w nd) m'"
proof -
  obtain rc w where q: "mysql_real_query E h q (ext m) = (rc, w)" by (cases "mysql_real_query E h q (ext m)")
  let ?m1 = "m\<lparr>ext := w\<rparr>"
  obtain r m2 where r: "my_store_result E h ?m1 = (r, m2)" by (cases "my_store_result E h ?m1")
  obtain k m3 where h: "halloc () m2 = (k, m3)" by (cases "halloc () m2")
  from run obtain blk where k: "k = Some blk"
    by (cases k) (auto simp: my_execute_single_def q r h Let_def split: if_splits)
  have "acquired m (opt_ids r @ [addr blk]) m3"
    using acquired_trans [OF my_store_result_acquired [OF r, simplified]] halloc_Some [OF h [unfolded k]] by blast
  with run k show ?thesis
    by (auto simp: my_execute_single_def q r h Let_def my_node_ids_def zero_result_def split: if_splits
        intro!: exI [of _ "addr blk"])
qed

lemma my_batch_ran:
  assumes ok: "store_ok mr_next my_node_ids pre (results c) (last_result c) m"
    and run: "my_execute_batch n E h c q m = Some res"
  shows "my_ran c m res (my_outcome n E h (Write_batch, q) (ext m))"
proof -
  obtain rc w where q: "mysql_real_query E h q (ext m) = (rc, w)" by (cases "mysql_real_query E h q (ext m)")
  let ?m1 = "m\<lparr>ext := w\<rparr>"
  have led: "ledger_ok ?m1" using ok by (simp add: store_ok_def owned_def)
  show ?thesis
  proof (cases "rc = 0")
    case False
    with run ok show ?thesis by (auto simp: my_execute_batch_def q my_outcome_def intro!: my_ran_abort [OF ok])
  next
    case True
    with run obtain st m2 where d: "batch_drain n E h ?m1 = Some (st, m2)"
      by (auto simp: my_execute_batch_def q split: option.splits)
    from batch_drain_acquired [OF led d] have a: "acquired m [] m2" by simp
    have r: "my_reads n E h w \<noteq> None \<and> st = (if my_reads n E h w = Some None then 2 else 1)"
      using batch_drain_reads [of n E h ?m1] d by (cases "my_reads n E h w") simp_all
    obtain k m3 where h: "halloc () m2 = (k, m3)" by (cases "halloc () m2")
    have oom2: "oom m2 = oom m" using batch_drain_oom [OF d] by simp
    show ?thesis
    proof (cases "my_reads n E h w = Some None")
      case bad: True
      then have "res = (2, c, m2)" using run True d r by (simp add: my_execute_batch_def q)
      with bad True show ?thesis
        by (simp add: my_ran_abort [OF ok a] my_outcome_def q)
    next
      case good: False
      with r obtain rs where rs: "my_reads n E h w = Some (Some rs)" by auto
      show ?thesis
      proof (cases k)
        case None
        then have "res = (2, c, m3)" using run True d r good h by (simp add: my_execute_batch_def q)
        moreover have "acquired m [] m3" using acquired_trans [OF a halloc_None] h None by simp
        moreover have "oom m \<noteq> []" using h None oom2 halloc_plenty [of m2 "()"] by auto
        ultimately show ?thesis by (simp add: my_ran_abort [OF ok])
      next
        case (Some blk)
        let ?nd = "zero_result\<lparr>cached_row := -1\<rparr>"
        have "res = (1, c\<lparr>results := AList.update (addr blk) ?nd (results c), last_result := Some (addr blk)\<rparr>, m3)"
          using run True d r good h Some by (simp add: my_execute_batch_def q)
        moreover have "acquired m (my_node_ids (addr blk) ?nd) m3"
          using acquired_trans [OF a] halloc_Some [OF h [unfolded Some]]
          by (fastforce simp: my_node_ids_def zero_result_def)
        moreover have "my_outcome n E h (Write_batch, q) (ext m) = Some (Some [my_node_view ?nd])"
          using True rs by (simp add: my_outcome_def q my_node_view_def zero_result_def)
        ultimately show ?thesis
          using my_ran_put [OF ok, of "addr blk" ?nd m3 "my_outcome n E h (Write_batch, q) (ext m)"]
          by (simp add: zero_result_def)
      qed
    qed
  qed
qed

lemma my_multi_ran:
  assumes ok: "store_ok mr_next my_node_ids pre (results c) (last_result c) m"
    and run: "my_execute_multi_read n E h c q m = Some res"
  shows "my_ran c m res (my_outcome n E h (Reads, q) (ext m))"
proof -
  obtain rc w where q: "mysql_real_query E h q (ext m) = (rc, w)" by (cases "mysql_real_query E h q (ext m)")
  let ?m1 = "m\<lparr>ext := w\<rparr>"
  show ?thesis
  proof (cases "rc = 0")
    case False
    with run ok show ?thesis by (auto simp: my_execute_multi_read_def q my_outcome_def intro!: my_ran_abort [OF ok])
  next
    case True
    with run obtain st rs head m2 where d: "my_multi_drain n E h (results c) None None ?m1 = Some (st, rs, head, m2)"
      and res: "res = (if st = 2 then (2, c\<lparr>results := rs\<rparr>, m2) else (1, c\<lparr>results := rs, last_result := head\<rparr>, m2))"
      by (auto simp: my_execute_multi_read_def q split: option.splits if_splits)
    have b: "my_nodes.building (results c) (results c) None None []"
      using ok by (intro my_nodes.building_start) (simp add: store_ok_def)
    have own: "owned (pre @ my_store (results c)) ?m1" using store_ok_owned [OF ok] by simp
    have "acquired ?m1 (my_store []) ?m1" by simp
    from my_multi_drain_cases [OF own b this d, unfolded my_multi_end_def] show ?thesis
    proof (elim disjE conjE exE)
      assume "st = 2" "rs = results c" and "acquired ?m1 [] m2" "oom ?m1 = [] \<longrightarrow> my_reads n E h (ext ?m1) = Some None"
      with res have "res = (2, c, m2)" and a: "acquired m [] m2" "oom m \<noteq> [] \<or> my_reads n E h w = Some None" by auto
      moreover have "oom m \<noteq> [] \<or> my_outcome n E h (Reads, q) (ext m) = Some None"
        using a(2) True by (auto simp: my_outcome_def q)
      ultimately show ?thesis using my_ran_abort [OF ok a(1)] by simp
    next
      fix tail' news' ls
      assume "st = 1" and b': "my_nodes.building (results c) rs head tail' news'" and "acquired ?m1 (my_store news') m2"
        "my_reads n E h (ext ?m1) = Some (Some ls)" "map (my_node_view \<circ> snd) news' = map (my_node_view \<circ> snd) [] @ ls"
      then have a: "st = 1" "my_nodes.building (results c) rs head tail' news'" "acquired m (my_store news') m2"
        "my_reads n E h w = Some (Some ls)" "map (my_node_view \<circ> snd) news' = ls" by simp_all
      have ch: "chain_at mr_next (map_of rs) head (map fst news')"
        using a(2) unfolding my_nodes.building_def by blast
      have "my_chain_views (c\<lparr>results := rs, last_result := head\<rparr>) ls"
        using my_nodes.building_distinct [OF a(2)] my_nodes.building_nodes [OF a(2)] a(5) ch
        by (auto simp: my_chain_views_def intro!: exI [of _ "map fst news'"])
      with my_nodes.grown_built [OF a(2,3)] a(1,4) True res show ?thesis
        by (simp add: my_ran_def my_outcome_def q)
    qed
  qed
qed

end
