(* ===== verification/My_Machine.thy ===== *)
theory My_Machine
  imports My_Worker_Laws
begin

text \<open>
  The MySQL driver against the shared contracts: its operations as an instance of
  \<open>driver_laws\<close>, its connections as instances of \<open>conn_life\<close> and \<open>conn_end\<close>, its pool as a
  \<open>conn_array\<close>.
\<close>

section \<open>The worker's round\<close>

definition my_req_of :: "'r mysql_conn \<Rightarrow> my_kind \<times> string" where
  "my_req_of = my_slot_request"

text \<open>An abort leaves the library's error on the connection, never more than its buffer holds.\<close>

lemma capture_error:
  "c' = mysql_capture_conn_error E h w c \<Longrightarrow>
   last_errno c' = mysql_errno E h w \<and> length (last_error c') \<le> 511 \<and>
   (last_errno c' = 0 \<longrightarrow> last_error c' \<noteq> []) \<and> results c' = results c \<and> last_result c' = last_result c \<and>
   my_same c c'"
  by (cases "mysql_error E h w") (auto simp: mysql_capture_conn_error_def snprintf_def Let_def my_same_def my_core_def)

lemma my_execute_cases:
  assumes own: "my_own c m" and full: "slot_filled c"
    and run: "mysql_worker_execute n E c m = Some (rc, c', m')"
  shows "my_same c c' \<and> grown mr_next my_node_ids (results c) m (results c') (last_result c') m' \<and>
    ((rc = 1 \<and> last_errno c' = 0 \<and> last_error c' = [] \<and>
       (\<exists>rs. my_outcome n E (the (my c)) (my_slot_request c) (ext m) = Some (Some rs) \<and> my_chain_views c' rs)) \<or>
     (rc = 2 \<and> results c' = results c \<and> last_result c' = last_result c \<and> acquired m [] m' \<and>
       last_errno c' = mysql_errno E (the (my c)) (ext m') \<and> (last_errno c' = 0 \<longrightarrow> last_error c' \<noteq> []) \<and>
       (oom m = [] \<longrightarrow> my_outcome n E (the (my c)) (my_slot_request c) (ext m) = Some None)))"
proof -
  let ?h = "the (my c)" and ?c = "mysql_clear_conn_error c"
  note D = my_ownD [OF own]
  from full D(1) obtain s where s: "sql c = Some s" by (auto simp: my_slot_ok_def)
  let ?q = "c_string (contents s)"
  have same: "my_same c ?c" "results ?c = results c" "last_result ?c = last_result c" "last_errno ?c = 0" "last_error ?c = []"
    by (simp_all add: mysql_clear_conn_error_def)
  have ok: "store_ok mr_next my_node_ids (my_handles c @ opt_ids (sql c)) (results ?c) (last_result ?c) m"
    using D(5) same by simp
  let ?res = "if is_multi_read c then my_execute_multi_read n E ?h ?c ?q m
     else if is_batch c then my_execute_batch n E ?h ?c ?q m else Some (my_execute_single E ?h ?c ?q m)"
  from run obtain c2 where r: "?res = Some (rc, c2, m')"
    and c': "c' = (if rc = 2 then mysql_capture_conn_error E ?h (ext m') c2 else c2)"
    by (auto simp: mysql_worker_execute_def s Let_def split: option.splits)
  have "my_ran ?c m (rc, c2, m') (my_outcome n E ?h (my_slot_request c) (ext m))"
    using my_multi_ran [OF ok] my_batch_ran [OF ok] my_single_ran [OF ok, of E ?h ?q n] r
    by (auto simp: my_slot_request_def s split: if_splits)
  then have ran: "grown mr_next my_node_ids (results c) m (results c2) (last_result c2) m'"
    "c2 = ?c\<lparr>results := results c2, last_result := last_result c2\<rparr>"
    "(rc = 1 \<and> (\<exists>rs. my_outcome n E ?h (my_slot_request c) (ext m) = Some (Some rs) \<and> my_chain_views c2 rs)) \<or>
      (rc = 2 \<and> c2 = ?c \<and> acquired m [] m' \<and> (oom m = [] \<longrightarrow> my_outcome n E ?h (my_slot_request c) (ext m) = Some None))"
    unfolding my_ran_def prod.case same by blast+
  have core: "my_core c2 = my_core c" "last_errno c2 = 0" "last_error c2 = []"
    by (subst ran(2), simp add: my_core_def mysql_clear_conn_error_def)+
  show ?thesis
    using ran(3)
  proof (elim disjE conjE exE)
    fix rs
    assume "rc = 1" "my_outcome n E ?h (my_slot_request c) (ext m) = Some (Some rs)" "my_chain_views c2 rs"
    with ran(1) core c' show ?thesis by (simp add: my_same_def)
  next
    assume a: "rc = 2" "c2 = ?c" "acquired m [] m'" "oom m = [] \<longrightarrow> my_outcome n E ?h (my_slot_request c) (ext m) = Some None"
    with c' have "c' = mysql_capture_conn_error E ?h (ext m') c2" by simp
    from capture_error [OF this] a ran(1) core same show ?thesis by (auto simp: my_same_def)
  qed
qed

lemma my_execute_own:
  assumes own: "my_own c m" and full: "slot_filled c"
    and run: "mysql_worker_execute n E c m = Some (rc, c', m')"
  shows "my_own c' m'"
proof -
  from my_execute_cases [OF assms] have same: "my_same c c'"
    and g: "grown mr_next my_node_ids (results c) m (results c') (last_result c') m'" by blast+
  note D = my_ownD [OF own]
  have h: "held m' = {}" using g D(3) by (auto simp: grown_def acquired_def)
  show ?thesis by (rule my_own_same [OF same D(1) h grown_store_ok [OF D(5) g]])
qed

text \<open>The request in the slot ends when the server's results do.\<close>

lemma my_batch_returns:
  assumes "my_outcome n E h (Write_batch, q) (ext m) \<noteq> None"
  shows "my_execute_batch n E h c q m \<noteq> None"
proof -
  obtain rc w where q: "mysql_real_query E h q (ext m) = (rc, w)" by (cases "mysql_real_query E h q (ext m)")
  show ?thesis
  proof (cases "rc = 0")
    case True
    with assms have "my_reads n E h w \<noteq> None" by (auto simp: my_outcome_def q)
    with batch_drain_reads [of n E h "m\<lparr>ext := w\<rparr>"] have "batch_drain n E h (m\<lparr>ext := w\<rparr>) \<noteq> None" by auto
    with True show ?thesis by (auto simp: my_execute_batch_def q split: prod.split option.split)
  qed (simp add: my_execute_batch_def q)
qed

lemma my_multi_returns:
  assumes "my_outcome n E h (Reads, q) (ext m) \<noteq> None"
  shows "my_execute_multi_read n E h c q m \<noteq> None"
proof -
  obtain rc w where q: "mysql_real_query E h q (ext m) = (rc, w)" by (cases "mysql_real_query E h q (ext m)")
  show ?thesis
  proof (cases "rc = 0")
    case True
    with assms have "my_reads n E h w \<noteq> None" by (auto simp: my_outcome_def q)
    with my_multi_drain_returns [of n E h "m\<lparr>ext := w\<rparr>"]
    have "my_multi_drain n E h (results c) None None (m\<lparr>ext := w\<rparr>) \<noteq> None" by simp
    with True show ?thesis by (auto simp: my_execute_multi_read_def q split: prod.split)
  qed (simp add: my_execute_multi_read_def q)
qed

lemma my_execute_returns:
  assumes "slot_filled c" "my_slot_ok c" "my_outcome n E (the (my c)) (my_slot_request c) (ext m) \<noteq> None"
  shows "mysql_worker_execute n E c m \<noteq> None"
proof -
  from assms(1,2) obtain s where s: "sql c = Some s" by (auto simp: my_slot_ok_def)
  let ?h = "the (my c)" and ?q = "c_string (contents s)" and ?c = "mysql_clear_conn_error c"
  have "(if is_multi_read c then my_execute_multi_read n E ?h ?c ?q m
     else if is_batch c then my_execute_batch n E ?h ?c ?q m else Some (my_execute_single E ?h ?c ?q m)) \<noteq> None"
    using assms(3) my_multi_returns [of n E ?h ?q m ?c] my_batch_returns [of n E ?h ?q m ?c]
    by (simp add: my_slot_request_def s del: not_None_eq split: if_splits)
  then obtain rc c2 m2 where "(if is_multi_read c then my_execute_multi_read n E ?h ?c ?q m
     else if is_batch c then my_execute_batch n E ?h ?c ?q m else Some (my_execute_single E ?h ?c ?q m)) = Some (rc, c2, m2)"
    by (metis option.exhaust prod_cases3)
  then show ?thesis
    unfolding mysql_worker_execute_def Let_def s option.case prod.case by (simp only: option.case prod.case) simp
qed

lemma my_clear_law:
  assumes own: "my_own c m" and run: "mysql_worker_clear c m = (c', m')"
  shows "my_own c' m' \<and> \<not> slot_filled c' \<and> shutdown_requested c' = shutdown_requested c \<and>
    released m (set (opt_ids (sql c))) m' \<and> results c' = results c \<and> last_result c' = last_result c \<and>
    my_handles c' = my_handles c"
proof -
  note D = my_ownD [OF own]
  let ?l = "mutex_lock (slot_mutex c) m" and ?ids = "opt_ids (sql c)"
  have c': "c' = c\<lparr>sql := None, is_batch := False, is_multi_read := False, port_id := 0, timeout_ms := 0, slot_filled := False\<rparr>"
    and m': "m' = mutex_unlock (slot_mutex c) (cond_signal (slot_cond c) (free_all ?ids ?l))"
    using run by (auto simp: mysql_worker_clear_def mysql_pool_free_slot_payload_def cfree_free_all Let_def)
  have ids: "distinct ?ids" "set ?ids \<subseteq> live m"
    using store_ok_owned [OF D(5)] by (auto simp: owned_def)
  have f: "free_all ?ids ?l = ?l\<lparr>live := live m - set ?ids\<rparr>"
    using free_all_live [of ?ids ?l] ids by (simp add: ledger)
  have rel: "released m (set ?ids) m'"
    unfolding m' f using D(3) by (simp add: released_def mutex_unlock_def mutex_lock_def cond_signal_def)
  have "store_ok mr_next my_node_ids (?ids @ my_handles c) (results c) (last_result c) m"
    by (rule store_ok_mset [OF D(5)]) simp
  from store_ok_released [OF this rel] D(1,3) rel have "my_own c' m'"
    by (simp add: my_own_def c' my_handles_def my_slot_ok_def released_def)
  with rel show ?thesis by (simp add: c' my_handles_def)
qed

section \<open>Stops, cancels and polls\<close>

lemma kill_released: "ledger_ok m \<Longrightarrow> released m {} (mysql_pool_kill_query E cr tid m)"
proof -
  assume ok: "ledger_ok m"
  obtain k m1 where h: "halloc () m = (k, m1)" by (cases "halloc () m")
  show ?thesis
  proof (cases k)
    case None
    with halloc_None [of "()" m m1] h show ?thesis
      by (simp add: mysql_pool_kill_query_def acquired_nil)
  next
    case (Some b)
    have "acquired m [] (rfree (addr b) (m1\<lparr>ext := w\<rparr>))" for w
      using halloc_Some [OF h [unfolded Some]] by (intro acquired_rfree_one [OF ok]) simp
    then show ?thesis
      using h Some by (auto simp: mysql_pool_kill_query_def my_close_def Let_def acquired_nil split: prod.split)
  qed
qed

lemma cancel_released: "ledger_ok m \<Longrightarrow> released m {} (mysql_pool_cancel E (Some c) m)"
  by (simp add: mysql_pool_cancel_def kill_released split: option.split)

text \<open>The statement sent is exact: the thread number never outgrows the 64-byte buffer.\<close>

lemma kill_text: "snprintf 64 (''KILL QUERY '' @ decimal (unat (tid :: 64 word))) = ''KILL QUERY '' @ decimal (unat tid)"
proof -
  have "unat tid < 2 ^ 64" using unsigned_less [of tid] by simp
  then have "unat tid < 10 ^ 20" by simp
  then have "length (decimal (unat tid)) \<le> 20" by (intro length_decimal) simp_all
  then show ?thesis by (simp add: snprintf_def)
qed

lemma stop_released: "held m = {} \<Longrightarrow> released m {} (mysql_signal_stop c m)"
  by (simp add: mysql_signal_stop_def lock_signal_unlock)

text \<open>A stop is the store of \<open>shutdown_requested\<close> and the signal.\<close>

definition my_stop :: "'r mysql_conn \<Rightarrow> 'w mach \<Rightarrow> 'r mysql_conn \<times> 'w mach" where
  "my_stop c m = (let c' = c\<lparr>shutdown_requested := True\<rparr> in (c', mysql_signal_stop c' m))"

text \<open>What a client does between two requests: poll, and clear what it got.\<close>

definition my_client :: "'r mysql_conn \<Rightarrow> 'w mach \<Rightarrow> ('r mysql_conn \<times> 'w mach) list" where
  "my_client c m =
     (case native_mysql_poll_result (Some c) m of
        (Some (a, nd), Some c', m') \<Rightarrow> [(c', m'), (c', native_mysql_clear_result a nd m')]
      | (None, Some c', m') \<Rightarrow> [(c', m')]
      | (_, None, m') \<Rightarrow> [])"

lemma my_poll_own:
  assumes own: "my_own c m" and poll: "native_mysql_poll_result (Some c) m = (r, Some c', m')"
  shows "my_same c c' \<and> my_own c' m' \<and> m' = m \<and> (case r of None \<Rightarrow> True
    | Some (a, nd) \<Rightarrow> my_own c' (native_mysql_clear_result a nd m'))"
proof -
  note D = my_ownD [OF own]
  let ?pre = "my_handles c @ opt_ids (sql c)"
  obtain hd st m1 where p: "poll_head mr_next (last_result c) (results c) m = (r, hd, st, m1)" and
    c': "c' = c\<lparr>results := st, last_result := hd\<rparr>" "m' = m1"
    using poll by (auto simp: native_mysql_poll_result_def split: prod.splits)
  from my_nodes.store_poll [OF D(5) p] have q: "m1 = m" "store_ok mr_next my_node_ids ?pre st hd m"
    "case r of None \<Rightarrow> st = results c | Some (a, nd) \<Rightarrow> owned (my_node_ids a nd @ ?pre @ my_store st) m"
    by blast+
  have same: "my_same c c'" by (simp add: c')
  have "my_own c' m" using q(2) c' by (intro my_own_same [OF same D(1,3)]) simp
  moreover have "my_own c' (native_mysql_clear_result a nd m)" if "r = Some (a, nd)" for a nd
  proof -
    have "owned (?pre @ my_store st) (free_all (my_node_ids a nd) m)"
      using q(3) that owned_free by fastforce
    with q(2) have "store_ok mr_next my_node_ids ?pre st hd (free_all (my_node_ids a nd) m)"
      by (simp add: store_ok_def)
    then show ?thesis using c' D(3) by (intro my_own_same [OF same D(1)]) (simp_all add: my_clear_eq ledger)
  qed
  ultimately show ?thesis using same q(1) c'(2) by (auto split: option.split)
qed

section \<open>The driver\<close>

definition my_driver :: "('w, 'r) my_env \<Rightarrow> (my_call, 'r mysql_conn, 'w) driver" where
  "my_driver E =
     \<lparr>d_filled = slot_filled, d_port = port_id, d_stopping = shutdown_requested,
      d_submit = my_submit, d_stop = my_stop, d_cancel = (\<lambda>c. mysql_pool_cancel E (Some c)),
      d_client = my_client, d_execute = (\<lambda>n. mysql_worker_execute n E), d_clear = mysql_worker_clear\<rparr>"

lemma my_driver_simps [simp]:
  "d_filled (my_driver E) = slot_filled" "d_port (my_driver E) = port_id"
  "d_stopping (my_driver E) = shutdown_requested" "d_submit (my_driver E) = my_submit"
  "d_stop (my_driver E) = my_stop" "d_cancel (my_driver E) c = mysql_pool_cancel E (Some c)"
  "d_client (my_driver E) = my_client" "d_execute (my_driver E) n = mysql_worker_execute n E"
  "d_clear (my_driver E) = mysql_worker_clear"
  by (simp_all add: my_driver_def)

lemma my_submit_law:
  assumes own: "my_own c m" and call: "my_call_ok call" and run: "my_submit call port t c m = (k, Some c', m')"
  shows "my_own c' m' \<and> ((k = 0 \<and> c' = c) \<or> (k = 1 \<and> \<not> slot_filled c \<and> \<not> shutdown_requested c \<and>
    slot_filled c' \<and> port_id c' = port \<and> \<not> shutdown_requested c'))"
proof -
  from my_submit_cases [OF own call, of port t] run consider
    "my_refused c m (k, Some c', m')"
    | "my_accepted c m (fst (my_call_request call)) port t (k, Some c', m') (snd (my_call_request call))"
    by auto
  then show ?thesis
  proof cases
    case 1
    with my_own_acquired [OF own] show ?thesis by (auto simp: my_refused_def)
  next
    case 2
    from my_accepted_own [OF own 2] show ?thesis by simp
  qed
qed

lemma my_stop_law:
  assumes own: "my_own c m" and run: "my_stop c m = (c', m')"
  shows "my_own c' m' \<and> slot_filled c' = slot_filled c \<and> port_id c' = port_id c \<and> shutdown_requested c'"
proof -
  have c': "c' = c\<lparr>shutdown_requested := True\<rparr>" "m' = mysql_signal_stop c' m"
    using run by (auto simp: my_stop_def Let_def)
  have "my_own c' m" using own by (simp add: c' my_own_def my_slot_ok_def my_handles_def)
  from my_own_released [OF this stop_released] my_ownD(3) [OF own] c' show ?thesis by simp
qed

lemma my_client_law:
  assumes own: "my_own c m" and step: "(c', m') \<in> set (my_client c m)"
  shows "my_own c' m' \<and> my_same c c'"
proof -
  obtain r d m1 where p: "native_mysql_poll_result (Some c) m = (r, d, m1)" by (cases "native_mysql_poll_result (Some c) m")
  then obtain d' where d: "d = Some d'" by (auto simp: native_mysql_poll_result_def split: prod.splits)
  from my_poll_own [OF own p [unfolded d]] step p d show ?thesis
    by (auto simp: my_client_def split: option.splits)
qed

interpretation my_drv: driver_laws "my_driver E" my_call_ok my_own
  for E :: "('w, 'r) my_env"
proof unfold_locales
  fix c c' :: "'r mysql_conn" and m m' :: "'w mach" and call port t k n st
  assume own: "my_own c m"
  note view = my_same_fields(6,10,11)
  show "my_own c' m' \<and> (k = 0 \<and> same_view (my_driver E) c c' \<or>
      k = 1 \<and> \<not> d_filled (my_driver E) c \<and> \<not> d_stopping (my_driver E) c \<and> d_filled (my_driver E) c' \<and>
      d_port (my_driver E) c' = port \<and> \<not> d_stopping (my_driver E) c')"
    if "my_call_ok call" "d_submit (my_driver E) call port t c m = (k, Some c', m')"
    using my_submit_law [OF own that(1), of port t k c' m'] that(2) by auto
  show "my_own c' m' \<and> d_filled (my_driver E) c' = d_filled (my_driver E) c \<and>
      d_port (my_driver E) c' = d_port (my_driver E) c \<and> d_stopping (my_driver E) c'"
    if "d_stop (my_driver E) c m = (c', m')"
    using my_stop_law [OF own, of c' m'] that by simp
  show "my_own c (d_cancel (my_driver E) c m)"
    using my_own_released [OF own cancel_released] my_ownD(2) [OF own] by simp
  show "my_own c' m' \<and> same_view (my_driver E) c c'"
    if "(c', m') \<in> set (d_client (my_driver E) c m)"
    using my_client_law [OF own, of c' m'] that view [of c c'] by (simp add: same_view_def)
  show "my_own c' m' \<and> same_view (my_driver E) c c' \<and> (st = 1 \<or> st = 2)"
    if "d_filled (my_driver E) c" "d_execute (my_driver E) n c m = Some (st, c', m')"
    using my_execute_own [OF own, of n E st c' m'] my_execute_cases [OF own, of n E st c' m'] view [of c c'] that
    by (auto simp: same_view_def)
  show "my_own c' m' \<and> \<not> d_filled (my_driver E) c' \<and> d_stopping (my_driver E) c' = d_stopping (my_driver E) c"
    if "d_clear (my_driver E) c m = (c', m')"
    using my_clear_law [OF own, of c' m'] that by simp
qed

section \<open>Polling drains the chain in order\<close>

fun my_polls :: "nat \<Rightarrow> 'r mysql_conn \<Rightarrow> 'w mach \<Rightarrow> 'r option option list" where
  "my_polls 0 c m = []"
| "my_polls (Suc k) c m =
     (case native_mysql_poll_result (Some c) m of
        (r, Some c', m') \<Rightarrow> map_option (\<lambda>(a, nd). my_node_view nd) r # my_polls k c' m'
      | (r, None, m') \<Rightarrow> [])"

lemma my_polls_all:
  "my_polls k c m = map (map_option (\<lambda>(a, nd). my_node_view nd)) (my_nodes.poll_all k (last_result c) (results c) m)"
proof (induction k arbitrary: c m)
  case 0
  then show ?case by simp
next
  case (Suc k)
  obtain r hd st m1 where p: "poll_head mr_next (last_result c) (results c) m = (r, hd, st, m1)"
    by (cases "poll_head mr_next (last_result c) (results c) m") auto
  with Suc.IH [of "c\<lparr>results := st, last_result := hd\<rparr>" m1] show ?case
    by (simp add: native_mysql_poll_result_def)
qed

lemma my_polls_views:
  assumes "my_own c m" "my_chain_views c rs"
  shows "my_polls (length rs) c m = map Some rs"
proof -
  from assms(2) obtain as where as: "chain_at mr_next (map_of (results c)) (last_result c) as" "distinct as"
    "rs = map (my_node_view \<circ> snd) (chain_nodes (results c) as)"
    by (auto simp: my_chain_views_def)
  have "length rs = length as" by (simp add: as(3) chain_nodes_def)
  with my_nodes.poll_all_chain [OF as(1,2) my_ownD(6) [OF assms(1)], of m] show ?thesis
    by (simp add: my_polls_all as(3) case_prod_beta' comp_def)
qed

end
