(* ===== verification/My_Pool_Laws.thy ===== *)
theory My_Pool_Laws
  imports My_Machine
begin

text \<open>
  The MySQL pool: connections come up and go down with nothing lost (\<open>conn_life\<close>,
  \<open>conn_end\<close>), creation is all or nothing, destruction gives everything back, and the array
  of connections is a \<open>conn_array\<close>.
\<close>

section \<open>A connection comes up\<close>

definition my_fresh_conn :: "'r mysql_conn \<Rightarrow> bool" where
  "my_fresh_conn c \<longleftrightarrow> my_slot_ok c \<and> \<not> slot_filled c \<and> results c = [] \<and> last_result c = None \<and> \<not> in_use c"

lemma open_conn_cases:
  assumes ok: "ledger_ok m" and run: "mysql_open_conn E cr m = (r, m')"
  shows "acquired m (case r of None \<Rightarrow> [] | Some h \<Rightarrow> [h]) m'"
proof -
  obtain k m1 where h: "halloc () m = (k, m1)" by (cases "halloc () m")
  show ?thesis
  proof (cases k)
    case None
    with run h halloc_None [OF h [unfolded None]] show ?thesis by (auto simp: mysql_open_conn_def)
  next
    case (Some b)
    have a: "acquired m [addr b] m1" using halloc_Some [OF h [unfolded Some]] by simp
    then have "acquired m [] (rfree (addr b) (m1\<lparr>ext := w\<rparr>))" for w
      by (intro acquired_rfree_one [OF ok]) simp
    with a run h Some show ?thesis
      by (auto simp: mysql_open_conn_def my_close_def Let_def split: prod.splits if_splits)
  qed
qed

lemma my_close_free: "my_close E h m = free_all [h] (m\<lparr>ext := mysql_close E h (ext m)\<rparr>)"
  by (simp add: my_close_def)

lemma bring_conn_law:
  assumes ok: "ledger_ok m" and run: "mysql_bring_conn E cr i m = (r, m')"
  shows "case r of None \<Rightarrow> acquired m [] m' | Some c \<Rightarrow> acquired m (my_handles c) m' \<and> my_fresh_conn c"
proof -
  obtain k m1 where o: "mysql_open_conn E cr m = (k, m1)" by (cases "mysql_open_conn E cr m")
  note a0 = open_conn_cases [OF ok o]
  note defs = mysql_bring_conn_def mysql_init_conn_def Let_def o
  show ?thesis
  proof (cases k)
    case None
    with a0 run show ?thesis by (auto simp: defs)
  next
    case (Some h)
    with a0 have a1: "acquired m [h] m1" by simp
    have closes: "acquired m [] (my_close E h m')" if "acquired m [h] m'" for m'
      using that acquired_rfree_one [OF ok, of h "m'\<lparr>ext := mysql_close E h (ext m')\<rparr>"] by (simp add: my_close_def)
    obtain s m2 where i: "init_sync (my_close E h) m1 = (s, m2)" by (cases "init_sync (my_close E h) m1")
    from init_sync_law [OF ok a1 closes i] run i Some show ?thesis
      by (cases s) (auto simp: defs my_handles_def my_fresh_conn_def my_slot_ok_def zero_mysql_conn_def)
  qed
qed

section \<open>A connection goes down\<close>

definition my_covers :: "'r mysql_conn \<Rightarrow> bool" where
  "my_covers c \<longleftrightarrow> (\<exists>as. chain_at mr_next (map_of (results c)) (last_result c) as \<and> distinct as \<and>
     fst ` set (results c) = set as)"

text \<open>
  The clients drain a connection's results before its next request; otherwise the request
  drops the chain it finds.
\<close>

definition my_tidy :: "'r mysql_conn \<Rightarrow> bool" where
  "my_tidy c \<longleftrightarrow> my_covers c \<and> (slot_filled c \<longrightarrow> results c = [])"

lemma my_covers_none: "results c = [] \<Longrightarrow> last_result c = None \<Longrightarrow> my_covers c"
  by (auto simp: my_covers_def intro!: exI [of _ "[]"])

text \<open>The worker's thread after a stop: it serves what is in the slot, then ends.\<close>

lemma my_worker_ends:
  assumes own: "my_own c m" and tidy: "my_tidy c" and stop: "shutdown_requested c"
    and run: "mysql_worker_end n E c m = Some (c1, m1)"
  shows "\<exists>xs m2. acquired m xs m2 \<and> released m2 (set (opt_ids (sql c))) m1 \<and>
    mset (my_store (results c1)) = mset (my_store (results c)) + mset xs \<and> my_own c1 m1 \<and>
    \<not> slot_filled c1 \<and> my_handles c1 = my_handles c \<and> my_covers c1"
proof (cases "slot_filled c")
  case False
  then have sql: "sql c = None" using my_ownD(1) [OF own] by (simp add: my_slot_ok_def)
  from run False stop have "c1 = c" "m1 = m\<lparr>ext := mysql_thread_end E (ext m)\<rparr>"
    by (auto simp: mysql_worker_end_def worker_choose_def)
  with own tidy False sql my_own_acquired [OF own, of m1] show ?thesis
    by (auto simp: my_tidy_def intro!: exI [of _ "[]"] exI [of _ m])
next
  case True
  let ?m0 = "mutex_unlock (slot_mutex c) (mutex_lock (slot_mutex c) m)"
  note D = my_ownD [OF own]
  have a0: "acquired m [] ?m0" using D(3) by (intro lock_refused) simp
  note own0 = my_own_acquired [OF own a0]
  have emp: "results c = []" using tidy True by (simp add: my_tidy_def)
  from run True obtain rc c2 m2 m3 where ex: "mysql_worker_execute n E c ?m0 = Some (rc, c2, m2)"
    and cl: "mysql_worker_clear c2 m2 = (c1, m3)" and m1: "m1 = m3\<lparr>ext := mysql_thread_end E (ext m3)\<rparr>"
    by (auto simp: mysql_worker_end_def worker_choose_def mysql_worker_round_def split: option.splits prod.splits)
  note K = my_execute_cases [OF own0 True ex]
  have own2: "my_own c2 m2" by (rule my_execute_own [OF own0 True ex])
  from K have same: "my_same c c2" and g: "grown mr_next my_node_ids (results c) ?m0 (results c2) (last_result c2) m2"
    by blast+
  from g obtain xs as where xs: "acquired ?m0 xs m2" "mset (my_store (results c2)) = mset (my_store (results c)) + mset xs"
    and as: "chain_at mr_next (map_of (results c2)) (last_result c2) as" "distinct as" "fst ` set (results c2) = set as"
    using emp by (auto simp: grown_def)
  note CL = my_clear_law [OF own2 cl] and F = my_same_fields [OF same]
  have "acquired m xs m2" using acquired_trans [OF a0 xs(1)] by simp
  moreover have "my_own c1 m1" using CL my_own_acquired [of c1 m3 m1] by (simp add: m1)
  moreover have "my_covers c1" using as CL by (auto simp: my_covers_def)
  moreover have "released m2 (set (opt_ids (sql c))) m1" using CL F(9) by (simp add: m1)
  ultimately show ?thesis using CL F xs(2) by fastforce
qed

text \<open>What is left then is dismantled completely.\<close>

lemma my_dismantle:
  assumes own: "my_own c m" and emp: "\<not> slot_filled c" and cov: "my_covers c"
  shows "\<exists>st m3. mysql_free_result_chain (last_result c) (results c) (rfree (worker c) m) = (st, m3) \<and>
    released m (set (my_handles c @ my_store (results c)))
      (my_close E (the (my c)) (rfree (slot_mutex c) (rfree (slot_cond c) m3)))"
proof -
  note D = my_ownD [OF own]
  let ?rest = "[slot_cond c, slot_mutex c, the (my c)]"
  have sql: "sql c = None" using D(1) emp by (simp add: my_slot_ok_def)
  have ok: "store_ok mr_next my_node_ids (worker c # ?rest) (results c) (last_result c) m"
    by (rule store_ok_mset [OF D(5)]) (simp add: sql my_handles_def)
  from cov obtain as where as: "chain_at mr_next (map_of (results c)) (last_result c) as" "distinct as"
    "fst ` set (results c) = set as" by (auto simp: my_covers_def)
  from my_nodes.store_dismantle [OF ok as] obtain m3 where
    m3: "mysql_free_result_chain (last_result c) (results c) (rfree (worker c) m) = ([], m3)"
    and rel: "\<forall>x. released m (set (worker c # ?rest @ my_store (results c))) (free_all ?rest (m3\<lparr>ext := x\<rparr>))"
    by (auto simp: mysql_free_result_chain_def)
  have "my_close E (the (my c)) (rfree (slot_mutex c) (rfree (slot_cond c) m3)) =
      free_all ?rest (m3\<lparr>ext := mysql_close E (the (my c)) (ext m3)\<rparr>)"
    by (simp add: my_close_def rfree_frame rfree_ext_update)
  with rel m3 show ?thesis by (simp add: my_handles_def insert_commute)
qed

lemma my_teardown_law:
  assumes own: "my_own c m" and tidy: "my_tidy c" and stop: "shutdown_requested c"
    and ends: "mysql_worker_end n E c m \<noteq> None"
  shows "released m (set (my_handles c @ opt_ids (sql c) @ my_store (results c))) (snd (mysql_teardown_conn n E c m))"
proof -
  note D = my_ownD [OF own]
  from ends obtain c1 m1 where e: "mysql_worker_end n E c m = Some (c1, m1)" by auto
  from my_worker_ends [OF own tidy stop e] obtain xs m2 where w: "acquired m xs m2"
    "released m2 (set (opt_ids (sql c))) m1" "mset (my_store (results c1)) = mset (my_store (results c)) + mset xs"
    and own1: "my_own c1 m1" and emp: "\<not> slot_filled c1" and hs: "my_handles c1 = my_handles c" and cov: "my_covers c1"
    by blast
  have sql1: "sql c1 = None" using my_ownD(1) [OF own1] emp by (simp add: my_slot_ok_def)
  from hs have ids: "worker c1 = worker c" "slot_mutex c1 = slot_mutex c" "slot_cond c1 = slot_cond c"
    "the (my c1) = the (my c)" by (simp_all add: my_handles_def)
  from my_dismantle [OF own1 emp cov, of E] obtain st m3 where
    d: "mysql_free_result_chain (last_result c1) (results c1) (rfree (worker c) m1) = (st, m3)"
    "released m1 (set (my_handles c @ my_store (results c1)))
      (my_close E (the (my c)) (rfree (slot_mutex c) (rfree (slot_cond c) m3)))"
    by (auto simp: hs ids)
  from D(1) obtain h where h: "my c = Some h" by (auto simp: my_slot_ok_def)
  have t: "snd (mysql_teardown_conn n E c m) = my_close E h (rfree (slot_mutex c) (rfree (slot_cond c) m3))"
    using d(1) by (simp add: mysql_teardown_conn_def mysql_join_def h e mysql_pool_free_slot_payload_def sql1 cfree_def)
  have "set (opt_ids (sql c)) \<union> set (my_handles c @ my_store (results c1)) =
      set xs \<union> set (my_handles c @ opt_ids (sql c) @ my_store (results c))"
    using mset_eq_setD [of "my_store (results c1)" "my_store (results c) @ xs"] w(3) by auto
  with released_trans [OF w(2) d(2)] acquired_then_released [OF D(2) w(1)] show ?thesis
    by (simp add: t h)
qed

section \<open>The contracts\<close>

text \<open>Undoing a connection that has just come up.\<close>

lemma undo_conn_law:
  assumes ok: "ledger_ok m" "held m = {}" "\<not> fault m" and fr: "my_fresh_conn c"
    and ids: "distinct (my_handles c)" "set (my_handles c) \<subseteq> live m"
  shows "released m (set (my_handles c)) (mysql_undo_conn n E c m)"
proof -
  let ?c = "c\<lparr>shutdown_requested := True\<rparr>" and ?m = "mysql_signal_stop (c\<lparr>shutdown_requested := True\<rparr>) m"
  have rel: "released m {} ?m" by (rule stop_released [OF ok(2)])
  have sql: "sql c = None" "results c = []" "last_result c = None" "\<not> slot_filled c"
    using fr by (auto simp: my_fresh_conn_def my_slot_ok_def)
  have "my_own ?c m"
    using fr ok ids sql by (auto simp: my_own_def my_slot_ok_def my_fresh_conn_def store_ok_def owned_def my_handles_def
        intro!: exI [of _ "[]"])
  then have own: "my_own ?c ?m" by (rule my_own_released [OF _ rel])
  have "mysql_worker_end n E ?c ?m \<noteq> None"
    using sql by (simp add: mysql_worker_end_def worker_choose_def)
  from my_teardown_law [OF own _ _ this] sql my_covers_none [of ?c]
  have "released ?m (set (my_handles c)) (snd (mysql_teardown_conn n E ?c ?m))"
    by (simp add: my_tidy_def my_handles_def)
  from released_trans [OF rel this] show ?thesis by (simp add: mysql_undo_conn_def Let_def)
qed

interpretation my_life: conn_life "mysql_bring_conn E cr" "mysql_undo_conn n E" my_handles my_fresh_conn
  for E :: "('w, 'r) my_env" and cr n
proof unfold_locales
  fix m m' :: "'w mach" and i and r :: "'r mysql_conn option" and c :: "'r mysql_conn"
  show "case r of None \<Rightarrow> acquired m [] m' | Some c \<Rightarrow> acquired m (my_handles c) m' \<and> my_fresh_conn c"
    if "ledger_ok m" "mysql_bring_conn E cr i m = (r, m')"
    by (rule bring_conn_law [OF that])
  show "released m (set (my_handles c)) (mysql_undo_conn n E c m)"
    if "ledger_ok m" "held m = {}" "\<not> fault m" "my_fresh_conn c" "distinct (my_handles c)" "set (my_handles c) \<subseteq> live m"
    by (rule undo_conn_law [OF that])
qed

text \<open>A worker that was told to stop, and whose last request ends.\<close>

definition my_stopped :: "nat \<Rightarrow> ('w, 'r) my_env \<Rightarrow> 'r mysql_conn \<Rightarrow> bool" where
  "my_stopped n E c \<longleftrightarrow> shutdown_requested c \<and>
     (slot_filled c \<longrightarrow> (\<forall>w. my_outcome n E (the (my c)) (my_slot_request c) w \<noteq> None))"

definition my_owns :: "'r mysql_conn \<Rightarrow> nat set \<Rightarrow> 'w mach \<Rightarrow> bool" where
  "my_owns c X m \<longleftrightarrow> my_own c m \<and> my_tidy c \<and> X = set (my_handles c @ opt_ids (sql c) @ my_store (results c))"

lemma my_worker_end_returns:
  assumes "my_stopped n E c" "my_own c m"
  shows "mysql_worker_end n E c m \<noteq> None"
proof (cases "slot_filled c")
  case False
  with assms(1) show ?thesis by (simp add: my_stopped_def mysql_worker_end_def worker_choose_def)
next
  case True
  let ?m0 = "mutex_unlock (slot_mutex c) (mutex_lock (slot_mutex c) m)"
  have "mysql_worker_execute n E c ?m0 \<noteq> None"
    using assms True by (intro my_execute_returns) (simp_all add: my_stopped_def my_ownD)
  with True show ?thesis
    by (auto simp: mysql_worker_end_def worker_choose_def mysql_worker_round_def split: prod.splits)
qed

interpretation my_end: conn_end "\<lambda>c m. snd (mysql_teardown_conn n E c m)" my_owns "my_stopped n E" "\<lambda>_. True"
  for E :: "('w, 'r) my_env" and n
proof unfold_locales
  fix m m' :: "'w mach" and c :: "'r mysql_conn" and X Y
  show "released m X (snd (mysql_teardown_conn n E c m)) \<and> True" if "my_stopped n E c" "my_owns c X m"
    using that my_worker_end_returns [OF that(1), of m] my_teardown_law [of c m n E]
    by (auto simp: my_owns_def my_stopped_def)
  show "my_owns c X m'" if "my_owns c X m" "released m Y m'" "X \<inter> Y = {}"
  proof -
    let ?ids = "my_handles c @ opt_ids (sql c) @ my_store (results c)"
    from that(1) have own: "my_own c m" and X: "X = set ?ids" by (simp_all add: my_owns_def)
    have "owned ?ids m" using store_ok_owned [OF my_ownD(5) [OF own]] by simp
    from owned_released [OF this that(2)] that(3) X have "owned ?ids m'" by simp
    with own that(2) have "my_own c m'" by (simp add: my_own_def store_ok_def released_def)
    with that(1) show ?thesis by (simp add: my_owns_def)
  qed
qed

interpretation my_array: conn_array max_size conns in_use mysql_set_in_use mysql_try_acquire
  by unfold_locales (auto simp: mysql_set_in_use_def mysql_try_acquire_def nth_list_update)

section \<open>Creation\<close>

definition my_pool_ids :: "'r mysql_pool \<Rightarrow> nat list" where
  "my_pool_ids p = pool_block p # concat (map opt_ids [host p, user p, password p, db p]) @
     [mutex p, free_cond p, conns_block p]"

lemma free_pool_strings_eq: "free_pool_strings ss blk m = free_all (concat (map opt_ids ss) @ [blk]) m"
  by (simp add: free_pool_strings_def fold_cfree free_all_append)

lemma mysql_dup_acquired: "acquired m0 xs m \<Longrightarrow> mysql_dup_string s m = (r, m') \<Longrightarrow> acquired m0 (xs @ opt_ids r) m'"
  using acquired_trans [of m0 xs m "opt_ids r" m'] dup_string_Some [of s m _ m'] dup_string_None [of s m m']
  by (cases r) (simp_all add: mysql_dup_string_eq)

lemma mysql_dup_kept: "mysql_dup_string s m = (r, m') \<Longrightarrow> r = None \<or> map_option contents r = s"
  using dup_string_Some [of s m _ m'] by (cases r) (auto simp: mysql_dup_string_eq)

text \<open>Every failing branch frees the strings, the block and what it took after them.\<close>

lemma strings_undone:
  assumes ok: "ledger_ok m0" and acq: "acquired m0 ((blk # concat (map opt_ids ss)) @ ys) m"
    and zs: "distinct zs" "set zs = set ys"
  shows "acquired m0 [] (free_pool_strings ss blk (free_all zs m))"
proof -
  let ?a = "zs @ concat (map opt_ids ss) @ [blk]"
  have "set ?a = set ((blk # concat (map opt_ids ss)) @ ys)" using zs by auto
  moreover have "distinct ?a" using acq zs by (auto simp: acquired_def)
  ultimately have "acquired m0 [] (free_all ?a m)" by (intro acquired_free_every [OF ok acq])
  then show ?thesis by (simp add: free_pool_strings_eq free_all_append)
qed

lemma lib_once_acquired [simp]: "acquired m xs (mysql_lib_once E b m') = acquired m xs m'"
  "ledger_ok (mysql_lib_once E b m) = ledger_ok m" "acquired (mysql_lib_once E b m) xs m' = acquired m xs m'"
  by (simp_all add: mysql_lib_once_def init_mysql_library_def)

lemma mysql_create_tail_cases:
  assumes ok: "ledger_ok m0" and h0: "held m0 = {}" and f0: "\<not> fault m0"
    and acq: "acquired m0 (blk # concat (map opt_ids ss)) m5"
    and run: "mysql_create_tail fuel E cr max_n ss blk m5 = (r, m')"
  shows "case r of None \<Rightarrow> acquired m0 [] m'
    | Some (mu, cv, cb, cs) \<Rightarrow>
        acquired m0 ((blk # concat (map opt_ids ss)) @ [mu, cv, cb] @ concat (map my_handles cs)) m' \<and>
        (\<forall>c \<in> set cs. my_fresh_conn c) \<and> length cs = nat max_n"
proof -
  let ?S = "blk # concat (map opt_ids ss)"
  have undo: "acquired m0 [] (free_pool_strings ss blk k)" if "acquired m0 ?S k" for k
    using strings_undone [OF ok, of blk ss "[]" k "[]"] that by simp
  show ?thesis
    using create_tail_cases [OF ok acq undo _ _ my_life.bring_up_fresh [OF ok h0 f0, folded mysql_bring_up_def] run [unfolded mysql_create_tail_def],
        where Q = "acquired m0 []"] undo acquired_drop [OF ok, of ?S "[mu]" for mu]
    by fastforce
qed

lemma mysql_pool_create_cases:
  assumes ok: "ledger_ok m" and h0: "held m = {}" and f0: "\<not> fault m"
    and run: "mysql_pool_create fuel E once cr min_n max_n t m = (r, m')"
  shows "case r of None \<Rightarrow> acquired m [] m'
    | Some p \<Rightarrow> acquired m (my_pool_ids p @ concat (map my_handles (conns p))) m' \<and>
        (\<forall>c \<in> set (conns p). my_fresh_conn c) \<and> max_size p = max_n \<and> length (conns p) = nat max_n \<and> 1 \<le> max_n \<and>
        map (map_option contents) [host p, user p, password p, db p] = [cr_host cr, cr_user cr, cr_password cr, cr_db cr] \<and>
        mysql_port p = cr_port cr \<and> default_acquire_timeout_ms p = t \<and> \<not> shutting_down p"
proof (cases "max_n < 1")
  case True
  with run show ?thesis by (auto simp: mysql_pool_create_def)
next
  case False
  let ?m = "mysql_lib_once E once m"
  obtain k m1 where h: "halloc () ?m = (k, m1)" by (cases "halloc () ?m")
  show ?thesis
  proof (cases k)
    case None
    with run False h acquired_failed [of m "[]" ?m "()" m1] show ?thesis by (auto simp: mysql_pool_create_def)
  next
    case (Some blk)
    obtain ho m2 where d2: "mysql_dup_string (cr_host cr) m1 = (ho, m2)" by (cases "mysql_dup_string (cr_host cr) m1")
    obtain us m3 where d3: "mysql_dup_string (cr_user cr) m2 = (us, m3)" by (cases "mysql_dup_string (cr_user cr) m2")
    obtain pw m4 where d4: "mysql_dup_string (cr_password cr) m3 = (pw, m4)" by (cases "mysql_dup_string (cr_password cr) m3")
    obtain dbn m5 where d5: "mysql_dup_string (cr_db cr) m4 = (dbn, m5)" by (cases "mysql_dup_string (cr_db cr) m4")
    let ?ss = "[ho, us, pw, dbn]"
    have "acquired m [addr blk] m1" using acquired_snoc [of m "[]" ?m "()" blk m1] h Some by simp
    from mysql_dup_acquired [OF mysql_dup_acquired [OF mysql_dup_acquired [OF mysql_dup_acquired [OF this d2] d3] d4] d5]
    have a5: "acquired m (addr blk # concat (map opt_ids ?ss)) m5" by simp
    note kept = mysql_dup_kept [OF d2] mysql_dup_kept [OF d3] mysql_dup_kept [OF d4] mysql_dup_kept [OF d5]
    let ?bad = "cr_host cr \<noteq> None \<and> ho = None \<or> cr_user cr \<noteq> None \<and> us = None \<or>
      cr_password cr \<noteq> None \<and> pw = None \<or> cr_db cr \<noteq> None \<and> dbn = None"
    show ?thesis
    proof (cases ?bad)
      case True
      have "acquired m [] (free_pool_strings ?ss (addr blk) m5)"
        using strings_undone [OF ok, of "addr blk" ?ss "[]" m5 "[]"] a5 by simp
      moreover have "mysql_pool_create fuel E once cr min_n max_n t m = (None, free_pool_strings ?ss (addr blk) m5)"
        using False True by (simp only: mysql_pool_create_def h Some d2 d3 d4 d5 Let_def prod.case option.case if_True if_False)
      ultimately show ?thesis using run by simp
    next
      case good: False
      obtain s m9 where c: "mysql_create_tail fuel E cr max_n ?ss (addr blk) m5 = (s, m9)"
        by (cases "mysql_create_tail fuel E cr max_n ?ss (addr blk) m5")
      have body: "mysql_pool_create fuel E once cr min_n max_n t m =
          (case s of None \<Rightarrow> (None, m9)
           | Some (mu, cv, cb, cs) \<Rightarrow> (Some \<lparr>pool_block = addr blk, host = ho, user = us, password = pw,
               db = dbn, mysql_port = cr_port cr, max_size = max_n, default_acquire_timeout_ms = t,
               conns_block = cb, conns = cs, mutex = mu, free_cond = cv, shutting_down = False\<rparr>, m9))"
        using False good by (simp only: mysql_pool_create_def h Some d2 d3 d4 d5 Let_def prod.case option.case if_False c)
      have strs: "map (map_option contents) ?ss = [cr_host cr, cr_user cr, cr_password cr, cr_db cr]"
        using good kept by auto
      show ?thesis
        using mysql_create_tail_cases [OF ok h0 f0 a5 c] run [unfolded body] strs False
        by (cases s) (auto simp: my_pool_ids_def)
    qed
  qed
qed

section \<open>Destruction\<close>

lemma my_stop_owns:
  assumes "my_owns c X m"
  shows "my_owns (c\<lparr>shutdown_requested := True\<rparr>) X m"
  using assms by (simp add: my_owns_def my_own_def my_slot_ok_def my_handles_def my_tidy_def my_covers_def)

lemma my_stop_request: "my_slot_request (c\<lparr>shutdown_requested := True\<rparr>) = my_slot_request c"
  by (simp add: my_slot_request_def)

lemma stop_conn_law:
  "ledger_ok m \<Longrightarrow> held m = {} \<Longrightarrow>
   fst (mysql_stop_conn E c m) = c\<lparr>shutdown_requested := True\<rparr> \<and> released m {} (snd (mysql_stop_conn E c m))"
proof -
  assume ok: "ledger_ok m" "held m = {}"
  let ?c = "c\<lparr>shutdown_requested := True\<rparr>" and ?m = "mysql_pool_cancel E (Some (c\<lparr>shutdown_requested := True\<rparr>)) m"
  have r: "released m {} ?m" by (rule cancel_released [OF ok(1)])
  have "held ?m = {}" using r ok(2) by (simp add: released_def)
  from released_trans [OF r stop_released [OF this, of ?c]] show ?thesis by (simp add: mysql_stop_conn_def Let_def)
qed

text \<open>Every connection, the strings and the pool itself are given back, exactly once.\<close>

lemma mysql_pool_destroy_released:
  assumes ok: "ledger_ok m" and h0: "held m = {}" and f0: "\<not> fault m"
    and own: "all_own my_owns (conns p) Xs m"
    and ids: "distinct (my_pool_ids p)" "set (my_pool_ids p) \<subseteq> live m" "set (my_pool_ids p) \<inter> \<Union> (set Xs) = {}"
    and ends: "\<And>c w. c \<in> set (conns p) \<Longrightarrow> slot_filled c \<Longrightarrow> my_outcome n E (the (my c)) (my_slot_request c) w \<noteq> None"
  shows "released m (\<Union> (set Xs) \<union> set (my_pool_ids p)) (mysql_pool_destroy n E (Some p) m)"
proof -
  let ?stop = "\<lambda>c. c\<lparr>shutdown_requested := True\<rparr>"
  obtain cs m1 where s: "stop_all (mysql_stop_conn E) (conns p) m = (cs, m1)" by (cases "stop_all (mysql_stop_conn E) (conns p) m")
  have cs: "cs = map ?stop (conns p)" and r1: "released m {} m1"
    using stop_all_map [of "conns p" "mysql_stop_conn E" ?stop m] stop_conn_law ok h0 s by auto
  have m1: "ledger_ok m1" "held m1 = {}" using released_ledger_ok [OF ok r1] r1 h0 by (simp_all add: released_def)
  have "all_own my_owns (map ?stop (conns p)) Xs m"
    using own all_own_mono [of my_owns "conns p" Xs m ?stop] my_stop_owns by blast
  then have own1: "all_own my_owns cs Xs m1"
    using my_end.all_own_released [of cs Xs m "{}" m1] r1 cs by simp
  have "\<forall>c \<in> set cs. my_stopped n E c"
    using ends by (simp add: cs my_stopped_def my_stop_request del: not_None_eq)
  from my_end.tear_all [OF m1 TrueI this own1]
  have r2: "released m1 (\<Union> (set Xs)) (fold (\<lambda>c k. snd (mysql_teardown_conn n E c k)) cs m1)" (is "released m1 _ ?m2") .
  have "held ?m2 = {}" using r2 m1 by (simp add: released_def)
  then have r3: "released ?m2 {} (mutex_unlock (mutex p) (cond_signal (free_cond p) (mutex_lock (mutex p) ?m2)))" (is "released _ _ ?m3")
    by (simp add: lock_signal_unlock)
  have r: "released m (\<Union> (set Xs)) ?m3" using released_trans [OF released_trans [OF r1 r2] r3] by simp
  let ?ids = "[conns_block p, free_cond p, mutex p] @ concat (map opt_ids [host p, user p, password p, db p]) @ [pool_block p]"
  have eq: "set ?ids = set (my_pool_ids p)" "distinct ?ids" using ids(1) by (auto simp: my_pool_ids_def)
  have "set ?ids \<subseteq> live ?m3" using ids(2,3) r unfolding eq(1) by (auto simp: released_def)
  from released_trans [OF r free_all_released [OF eq(2) this]]
  show ?thesis unfolding eq(1) by (simp add: mysql_pool_destroy_def s free_pool_strings_eq free_all_append)
qed

end
