(* ===== verification/Native_Mysql.thy ===== *)
theory Native_Mysql
  imports My_Conn Abi_Word
begin

text \<open>
  native_mysql.c: the ABI version word, the captured error and the result inspection calls.
  A stored \<open>MYSQL_RES\<close> is a cursor: \<open>mysql_data_seek\<close> and \<open>mysql_fetch_row\<close> move it, and a row
  is good until the next fetch. \<open>ensure_row\<close> caches one row in the wrapper. What libmysqlclient
  does is the argument \<open>A\<close>; reading past an array is a fault. \<open>(int)\<close> of a wide value keeps
  its low 32 bits.
\<close>

unbundle bit_operations_syntax

definition NATIVE_MYSQL_ABI_VERSION_MAJOR :: "64 word" where "NATIVE_MYSQL_ABI_VERSION_MAJOR = 1"
definition NATIVE_MYSQL_ABI_VERSION_MINOR :: "64 word" where "NATIVE_MYSQL_ABI_VERSION_MINOR = 3"

definition native_mysql_abi_version :: "64 word" where
  "native_mysql_abi_version = push_bit 32 NATIVE_MYSQL_ABI_VERSION_MAJOR OR NATIVE_MYSQL_ABI_VERSION_MINOR"

definition native_mysql_init_dart_api :: "(string \<Rightarrow> nat) \<Rightarrow> dart_api \<Rightarrow> dl_vars \<Rightarrow> unit + (int \<times> dl_vars)" where
  "native_mysql_init_dart_api dep data V = Dart_InitializeApiDL dep data V"

definition native_mysql_last_errno :: "'r mysql_conn option \<Rightarrow> int" where
  "native_mysql_last_errno conn = (case conn of None \<Rightarrow> 0 | Some c \<Rightarrow> last_errno c)"

definition native_mysql_last_error :: "'r mysql_conn option \<Rightarrow> string" where
  "native_mysql_last_error conn = (case conn of None \<Rightarrow> [] | Some c \<Rightarrow> last_error c)"

section \<open>Result inspection\<close>

record ('w, 'r) my_res_api =
  mysql_num_rows :: "'r \<Rightarrow> 64 word"
  mysql_data_seek :: "'r \<Rightarrow> 64 word \<Rightarrow> 'w \<Rightarrow> 'w"
  mysql_fetch_row :: "'r \<Rightarrow> 'w \<Rightarrow> string option list option \<times> 'w"
  mysql_fetch_lengths :: "'r \<Rightarrow> 'w \<Rightarrow> 64 word list"
  mysql_fetch_field_direct :: "'r \<Rightarrow> 32 word \<Rightarrow> (string \<times> int) option"

definition native_mysql_row_count :: "('w, 'r) my_res_api \<Rightarrow> 'r native_mysql_result option \<Rightarrow> int" where
  "native_mysql_row_count A result =
     (case Option.bind result mr_res of None \<Rightarrow> 0 | Some c \<Rightarrow> int32 (mysql_num_rows A (contents c)))"

definition native_mysql_col_count :: "'r native_mysql_result option \<Rightarrow> int" where
  "native_mysql_col_count result =
     (case result of None \<Rightarrow> 0 | Some r \<Rightarrow> (if mr_res r = None then 0 else col_count r))"

definition native_mysql_affected_rows :: "'r native_mysql_result option \<Rightarrow> int" where
  "native_mysql_affected_rows result = (case result of None \<Rightarrow> 0 | Some r \<Rightarrow> affected_rows r)"

definition native_mysql_field_name ::
  "('w, 'r) my_res_api \<Rightarrow> 'r native_mysql_result option \<Rightarrow> int \<Rightarrow> string option" where
  "native_mysql_field_name A result col =
     (case result of None \<Rightarrow> None
      | Some r \<Rightarrow> (case mr_res r of None \<Rightarrow> None
         | Some c \<Rightarrow>
             (if col < 0 \<or> col \<ge> col_count r then None
              else map_option fst (mysql_fetch_field_direct A (contents c) (word_of_int col)))))"

definition ensure_row ::
  "('w, 'r) my_res_api \<Rightarrow> 'r native_mysql_result option \<Rightarrow> int \<Rightarrow> 'w mach \<Rightarrow>
   int \<times> 'r native_mysql_result option \<times> 'w mach" where
  "ensure_row A result row m =
     (case result of None \<Rightarrow> (-1, result, m)
      | Some r \<Rightarrow> (case mr_res r of None \<Rightarrow> (-1, result, m)
         | Some c \<Rightarrow>
             (if row < 0 \<or> row \<ge> sint (mysql_num_rows A (contents c)) then (-1, result, m)
              else if cached_row r = row \<and> mr_row r \<noteq> None then (0, result, m)
              else let w1 = mysql_data_seek A (contents c) (word_of_int row) (ext m);
                       (rw, w2) = mysql_fetch_row A (contents c) w1;
                       r1 = r\<lparr>mr_row := rw, mr_lengths := map uint (mysql_fetch_lengths A (contents c) w2),
                              cached_row := (if rw \<noteq> None then row else -1)\<rparr>
                   in (if rw \<noteq> None then 0 else -1, Some r1, m\<lparr>ext := w2\<rparr>))))"

definition native_mysql_raw_value ::
  "('w, 'r) my_res_api \<Rightarrow> 'r native_mysql_result option \<Rightarrow> int \<Rightarrow> int \<Rightarrow> 'w mach \<Rightarrow>
   string option \<times> 'r native_mysql_result option \<times> 'w mach" where
  "native_mysql_raw_value A result row col m =
     (case ensure_row A result row m of (rc, res, m1) \<Rightarrow>
        (case res of
           Some r \<Rightarrow>
             (if rc \<noteq> 0 \<or> col < 0 \<or> col \<ge> col_count r then (None, res, m1)
              else (case read_at (the (mr_row r)) col m1 of (v, m2) \<Rightarrow> (Option.bind v id, res, m2)))
         | None \<Rightarrow> (None, res, m1)))"

definition native_mysql_raw_length ::
  "('w, 'r) my_res_api \<Rightarrow> 'r native_mysql_result option \<Rightarrow> int \<Rightarrow> int \<Rightarrow> 'w mach \<Rightarrow>
   int \<times> 'r native_mysql_result option \<times> 'w mach" where
  "native_mysql_raw_length A result row col m =
     (case ensure_row A result row m of (rc, res, m1) \<Rightarrow>
        (case res of
           Some r \<Rightarrow>
             (if rc \<noteq> 0 \<or> col < 0 \<or> col \<ge> col_count r then (0, res, m1)
              else (case read_at (the (mr_row r)) col m1 of (v, m2) \<Rightarrow>
                (case Option.bind v id of None \<Rightarrow> (0, res, m2)
                 | Some _ \<Rightarrow> (case read_at (mr_lengths r) col m2 of (n, m3) \<Rightarrow>
                     ((case n of None \<Rightarrow> 0 | Some k \<Rightarrow> int32 (word_of_int k)), res, m3)))))
         | None \<Rightarrow> (0, res, m1)))"

definition native_mysql_field_type ::
  "('w, 'r) my_res_api \<Rightarrow> 'r native_mysql_result option \<Rightarrow> int \<Rightarrow> int" where
  "native_mysql_field_type A result col =
     (case result of None \<Rightarrow> 0
      | Some r \<Rightarrow> (case mr_res r of None \<Rightarrow> 0
         | Some c \<Rightarrow>
             (if col < 0 \<or> col \<ge> col_count r then 0
              else (case mysql_fetch_field_direct A (contents c) (word_of_int col) of None \<Rightarrow> 0 | Some f \<Rightarrow> snd f))))"

section \<open>Random access through the one-row cache\<close>

text \<open>
  What the client library documents of a stored result holding \<open>rows\<close>: after a seek to row
  \<open>i\<close> the next fetch yields that row, and the lengths are those of the row fetched last.
\<close>

definition stored_rows :: "('w, 'r) my_res_api \<Rightarrow> 'r \<Rightarrow> string option list list \<Rightarrow> bool" where
  "stored_rows A r rows \<longleftrightarrow>
     mysql_num_rows A r = of_nat (length rows) \<and> length rows < 2 ^ 63 \<and>
     (\<forall>i < length rows. \<forall>w. (case mysql_fetch_row A r (mysql_data_seek A r (of_nat i) w) of (rw, w2) \<Rightarrow>
        rw = Some (rows ! i) \<and>
        mysql_fetch_lengths A r w2 = map (\<lambda>v. of_nat (length (case v of None \<Rightarrow> [] | Some s \<Rightarrow> s))) (rows ! i)))"

definition cell_lengths :: "string option list \<Rightarrow> int list" where
  "cell_lengths rw = map (\<lambda>v. uint (of_nat (length (case v of None \<Rightarrow> [] | Some s \<Rightarrow> s)) :: 64 word)) rw"

text \<open>The wrapper's cache holds the row it names.\<close>

definition cache_ok :: "string option list list \<Rightarrow> 'r native_mysql_result \<Rightarrow> bool" where
  "cache_ok rows r \<longleftrightarrow> (\<forall>rw. mr_row r = Some rw \<longrightarrow> 0 \<le> cached_row r \<longrightarrow>
     nat (cached_row r) < length rows \<and> rw = rows ! nat (cached_row r) \<and> mr_lengths r = cell_lengths rw)"

lemma ensure_row_in:
  assumes st: "stored_rows A (contents c) rows" and r: "mr_res r = Some c" and ok: "cache_ok rows r"
    and row: "0 \<le> row" "nat row < length rows"
  shows "\<exists>r' w. ensure_row A (Some r) row m = (0, Some r', m\<lparr>ext := w\<rparr>) \<and> mr_res r' = Some c \<and>
    col_count r' = col_count r \<and> cache_ok rows r' \<and> mr_row r' = Some (rows ! nat row) \<and>
    mr_lengths r' = cell_lengths (rows ! nat row)"
proof -
  have n: "sint (mysql_num_rows A (contents c)) = int (length rows)"
    using st by (simp add: stored_rows_def sint_of_nat)
  then have inr: "\<not> (row < 0 \<or> row \<ge> sint (mysql_num_rows A (contents c)))" using row by auto
  show ?thesis
  proof (cases "cached_row r = row \<and> mr_row r \<noteq> None")
    case True
    with ok row have "mr_row r = Some (rows ! nat row)" "mr_lengths r = cell_lengths (rows ! nat row)"
      by (auto simp: cache_ok_def)
    moreover have "ensure_row A (Some r) row m = (0, Some r, m\<lparr>ext := ext m\<rparr>)"
      using r inr True by (simp add: ensure_row_def)
    ultimately show ?thesis using r ok by blast
  next
    case False
    have w: "(word_of_int row :: 64 word) = of_nat (nat row)" using row(1) by simp
    obtain rw w2 where f: "mysql_fetch_row A (contents c) (mysql_data_seek A (contents c) (of_nat (nat row)) (ext m)) = (rw, w2)"
      by (cases "mysql_fetch_row A (contents c) (mysql_data_seek A (contents c) (of_nat (nat row)) (ext m))")
    from st have "\<forall>i < length rows. \<forall>w. (case mysql_fetch_row A (contents c) (mysql_data_seek A (contents c) (of_nat i) w) of (rw, w2) \<Rightarrow>
        rw = Some (rows ! i) \<and> mysql_fetch_lengths A (contents c) w2 =
          map (\<lambda>v. of_nat (length (case v of None \<Rightarrow> [] | Some s \<Rightarrow> s))) (rows ! i))"
      by (simp add: stored_rows_def)
    note this [rule_format, OF row(2), of "ext m", unfolded f prod.case]
    then have rw: "rw = Some (rows ! nat row)"
      "map uint (mysql_fetch_lengths A (contents c) w2) = cell_lengths (rows ! nat row)"
      by (simp_all add: cell_lengths_def comp_def)
    let ?r = "r\<lparr>mr_row := rw, mr_lengths := map uint (mysql_fetch_lengths A (contents c) w2), cached_row := row\<rparr>"
    have "ensure_row A (Some r) row m = (0, Some ?r, m\<lparr>ext := w2\<rparr>)"
      unfolding ensure_row_def option.case r Let_def w f prod.case using inr False rw(1) by (simp only: if_False) simp
    moreover have "cache_ok rows ?r" using rw row by (simp add: cache_ok_def)
    ultimately show ?thesis using r rw by (intro exI [of _ ?r] exI [of _ w2]) simp
  qed
qed

lemma ensure_row_out:
  assumes "stored_rows A (contents c) rows" "mr_res r = Some c" "\<not> (0 \<le> row \<and> nat row < length rows)"
  shows "ensure_row A (Some r) row m = (-1, Some r, m)"
proof -
  have n: "sint (mysql_num_rows A (contents c)) = int (length rows)"
    using assms(1) by (simp add: stored_rows_def sint_of_nat)
  show ?thesis using assms(2,3) by (auto simp: ensure_row_def n)
qed

text \<open>The cell of the table that an access names; SQL NULL and every access outside are \<open>None\<close>.\<close>

definition table_cell :: "string option list list \<Rightarrow> int \<Rightarrow> int \<Rightarrow> int \<Rightarrow> string option" where
  "table_cell rows n i j =
     (if 0 \<le> i \<and> nat i < length rows \<and> 0 \<le> j \<and> j < n then rows ! nat i ! nat j else None)"

text \<open>A wrapper over a stored result of \<open>n\<close> columns.\<close>

definition wraps ::
  "('w, 'r) my_res_api \<Rightarrow> string option list list \<Rightarrow> int \<Rightarrow> 'r native_mysql_result \<Rightarrow> bool" where
  "wraps A rows n r \<longleftrightarrow> (\<exists>c. mr_res r = Some c \<and> stored_rows A (contents c) rows) \<and> cache_ok rows r \<and>
     col_count r = n \<and> (\<forall>rw \<in> set rows. length rw = nat n)"

lemma raw_value_cell:
  assumes w: "wraps A rows n r"
  shows "\<exists>r' x. native_mysql_raw_value A (Some r) i j m = (table_cell rows n i j, Some r', m\<lparr>ext := x\<rparr>) \<and> wraps A rows n r'"
proof -
  from w obtain c where c: "mr_res r = Some c" "stored_rows A (contents c) rows" "cache_ok rows r" "col_count r = n"
    and cols: "\<forall>rw \<in> set rows. length rw = nat n" by (auto simp: wraps_def)
  show ?thesis
  proof (cases "0 \<le> i \<and> nat i < length rows")
    case True
    with ensure_row_in [OF c(2,1,3), of i m] obtain r' x where
      e: "ensure_row A (Some r) i m = (0, Some r', m\<lparr>ext := x\<rparr>)" "mr_res r' = Some c" "col_count r' = n"
        "cache_ok rows r'" "mr_row r' = Some (rows ! nat i)" using c(4) by blast
    have len: "length (rows ! nat i) = nat n" using cols True by simp
    have "native_mysql_raw_value A (Some r) i j m = (table_cell rows n i j, Some r', m\<lparr>ext := x\<rparr>)"
      using True len by (auto simp: native_mysql_raw_value_def e read_at_def table_cell_def)
    moreover have "wraps A rows n r'" using e c(2) cols by (auto simp: wraps_def)
    ultimately show ?thesis by blast
  next
    case False
    from ensure_row_out [OF c(2,1) False] have "native_mysql_raw_value A (Some r) i j m = (table_cell rows n i j, Some r, m\<lparr>ext := ext m\<rparr>)"
      using False by (auto simp: native_mysql_raw_value_def table_cell_def)
    with w show ?thesis by blast
  qed
qed

lemma raw_length_cell:
  assumes w: "wraps A rows n r" and small: "\<forall>rw \<in> set rows. \<forall>v \<in> set rw. length (case v of None \<Rightarrow> [] | Some s \<Rightarrow> s) < 2 ^ 31"
  shows "\<exists>r' x. native_mysql_raw_length A (Some r) i j m =
      ((case table_cell rows n i j of None \<Rightarrow> 0 | Some s \<Rightarrow> int (length s)), Some r', m\<lparr>ext := x\<rparr>) \<and> wraps A rows n r'"
proof -
  from w obtain c where c: "mr_res r = Some c" "stored_rows A (contents c) rows" "cache_ok rows r" "col_count r = n"
    and cols: "\<forall>rw \<in> set rows. length rw = nat n" by (auto simp: wraps_def)
  show ?thesis
  proof (cases "0 \<le> i \<and> nat i < length rows")
    case True
    with ensure_row_in [OF c(2,1,3), of i m] obtain r' x where
      e: "ensure_row A (Some r) i m = (0, Some r', m\<lparr>ext := x\<rparr>)" "mr_res r' = Some c" "col_count r' = n"
        "cache_ok rows r'" "mr_row r' = Some (rows ! nat i)" "mr_lengths r' = cell_lengths (rows ! nat i)"
      using c(4) by blast
    let ?rw = "rows ! nat i"
    have len: "length ?rw = nat n" and mem: "?rw \<in> set rows" using cols True by simp_all
    have "int32 (word_of_int (cell_lengths ?rw ! nat j)) = int (length s)"
      if "nat j < length ?rw" "?rw ! nat j = Some s" for s
    proof -
      have "length s < 2 ^ 31" using small mem that nth_mem [OF that(1)] by fastforce
      with that int32_small [of "length s"] show ?thesis by (simp add: cell_lengths_def uint_of_nat64)
    qed
    then have "native_mysql_raw_length A (Some r) i j m =
        ((case table_cell rows n i j of None \<Rightarrow> 0 | Some s \<Rightarrow> int (length s)), Some r', m\<lparr>ext := x\<rparr>)"
      using True len by (auto simp: native_mysql_raw_length_def e read_at_def table_cell_def cell_lengths_def split: option.split)
    moreover have "wraps A rows n r'" using e c(2) cols by (auto simp: wraps_def)
    ultimately show ?thesis by blast
  next
    case False
    from ensure_row_out [OF c(2,1) False] have "native_mysql_raw_length A (Some r) i j m = (0, Some r, m\<lparr>ext := ext m\<rparr>)"
      "table_cell rows n i j = None"
      using False by (auto simp: native_mysql_raw_length_def table_cell_def)
    with w show ?thesis by (intro exI [of _ r] exI [of _ "ext m"]) simp
  qed
qed

text \<open>Any sequence of accesses.\<close>

fun read_cells ::
  "('w, 'r) my_res_api \<Rightarrow> 'r native_mysql_result option \<Rightarrow> (int \<times> int) list \<Rightarrow> 'w mach \<Rightarrow>
   (string option \<times> int) list \<times> 'w mach" where
  "read_cells A result [] m = ([], m)"
| "read_cells A result ((i, j) # ps) m =
     (let (v, res1, m1) = native_mysql_raw_value A result i j m;
          (n, res2, m2) = native_mysql_raw_length A res1 i j m1;
          (vs, m3) = read_cells A res2 ps m2
      in ((v, n) # vs, m3))"

lemma read_cells_table:
  assumes small: "\<forall>rw \<in> set rows. \<forall>v \<in> set rw. length (case v of None \<Rightarrow> [] | Some s \<Rightarrow> s) < 2 ^ 31"
  shows "wraps A rows n r \<Longrightarrow>
    \<exists>x. read_cells A (Some r) ps m =
      (map (\<lambda>(i, j). (table_cell rows n i j, case table_cell rows n i j of None \<Rightarrow> 0 | Some s \<Rightarrow> int (length s))) ps,
       m\<lparr>ext := x\<rparr>)"
proof (induction ps arbitrary: r m)
  case Nil
  have "m\<lparr>ext := ext m\<rparr> = m" by simp
  then show ?case by (metis list.simps(8) read_cells.simps(1))
next
  case (Cons p ps)
  obtain i j where p: "p = (i, j)" by (cases p)
  from raw_value_cell [OF Cons.prems, of i j m] obtain r1 x1 where
    v: "native_mysql_raw_value A (Some r) i j m = (table_cell rows n i j, Some r1, m\<lparr>ext := x1\<rparr>)" "wraps A rows n r1" by blast
  from raw_length_cell [OF v(2) small, of i j "m\<lparr>ext := x1\<rparr>"] obtain r2 x2 where
    l: "native_mysql_raw_length A (Some r1) i j (m\<lparr>ext := x1\<rparr>) =
      ((case table_cell rows n i j of None \<Rightarrow> 0 | Some s \<Rightarrow> int (length s)), Some r2, m\<lparr>ext := x2\<rparr>)" "wraps A rows n r2"
    by auto
  from Cons.IH [OF l(2), of "m\<lparr>ext := x2\<rparr>"] v l p show ?case by auto
qed

end
