(* ===== verification/My_Properties.thy ===== *)
theory My_Properties
  imports My_Pool_Laws Native_Mysql
begin

text \<open>
  The properties of the MySQL driver. The witnesses run them on \<open>demo_my\<close>, a server that
  answers a request with its text and then with \<open>bye\<close>.
\<close>

section \<open>A concrete server\<close>

definition demo_my :: "(string list, string) my_env" where
  "demo_my = \<lparr>mariadb_client = False, mysql_library_init = \<lambda>w. w, mysql_thread_init = \<lambda>w. w,
     mysql_thread_end = \<lambda>w. w, mysql_options = \<lambda>h opt w. w, mysql_real_connect = \<lambda>h cr fl w. (True, w),
     mysql_close = \<lambda>h w. w, mysql_thread_id = \<lambda>h w. 77, mysql_real_query = \<lambda>h q w. (0, [q, ''bye'']),
     mysql_query = \<lambda>h q w. w,
     mysql_store_result = \<lambda>h w. (case w of [] \<Rightarrow> (None, []) | r # rs \<Rightarrow> (Some r, rs)),
     mysql_errno = \<lambda>h w. 0, mysql_error = \<lambda>h w. None, mysql_affected_rows = \<lambda>h w. 0,
     mysql_num_fields = \<lambda>r. 1, mysql_next_result = \<lambda>h w. (if w = [] then -1 else 0, w)\<rparr>"

definition my_mach :: "string list mach" where
  "my_mach = \<lparr>oom = [], fresh = 5, live = {0, 1, 2, 3, 4}, held = {}, signals = [], fault = False, ext = []\<rparr>"

definition my_conn :: "string mysql_conn" where
  "my_conn = zero_mysql_conn\<lparr>my := Some 0, my_pool := Some \<lparr>cr_host = None, cr_user = None, cr_password = None,
     cr_db = None, cr_port = 3306\<rparr>, thread_id := 77, worker := 3, slot_mutex := 1, slot_cond := 2\<rparr>"

lemmas my_demo = my_mach_def my_conn_def zero_mysql_conn_def

lemma my_conn_own: "my_own my_conn my_mach"
  by (auto simp: my_own_def my_slot_ok_def my_handles_def store_ok_def owned_def ledger_ok_def my_demo
      intro!: exI [of _ "[]"])

definition my_state :: "(string mysql_conn, string list) drv_state" where
  "my_state = \<lparr>st_conn = my_conn, st_mach = my_mach, st_pc = At_top, st_accepted = [], st_posted = []\<rparr>"

lemma my_start: "drv_start (my_driver demo_my) my_own my_state"
  using my_conn_own by (simp add: drv_start_def my_state_def) (simp add: my_demo)

text \<open>The connection with a multi-read of two statements in its slot.\<close>

definition my_busy :: "string mysql_conn" where
  "my_busy = my_conn\<lparr>slot_filled := True, is_multi_read := True, sql := Some (Cell 4 (''A;B'' @ [CHR 0x00])),
     port_id := 7\<rparr>"

lemma my_busy_own: "my_own my_busy my_mach"
  by (auto simp: my_own_def my_slot_ok_def my_handles_def store_ok_def owned_def ledger_ok_def my_busy_def my_demo
      intro!: exI [of _ "[]"])

lemma my_busy_ends: "my_outcome 3 demo_my h (my_slot_request my_busy) w \<noteq> None"
  by (simp add: my_outcome_def my_slot_request_def my_busy_def my_demo demo_my_def eval_nat_numeral)

lemma my_run:
  "\<exists>s. (drv_step (my_driver demo_my) my_call_ok)\<^sup>*\<^sup>* my_state s \<and> st_posted s = [(7, 1)] \<and> st_pc s = Returned"
proof (rule my_drv.serves_and_returns [OF my_start])
  show "my_call_ok (My_query (Some ''A''))" by simp
  show "map_option fst (serve_once (my_driver demo_my) 9 (My_query (Some ''A'')) 7 0 (st_conn my_state) (st_mach my_state)) = Some 1"
    by code_simp
qed

section \<open>The connection\<close>

text \<open>C23. Whatever the clients and the worker of a connection do, in whatever order: every
  accepted request is answered exactly once and in order with code 1 or 2, a worker that has
  returned has answered all of them, nothing undefined has happened (no double free, no stray
  lock), and everything the connection holds is live, distinct and reachable.\<close>

theorem mysql_driver_sound:
  assumes "drv_start (my_driver E) my_own s0" "(drv_step (my_driver E) my_call_ok)\<^sup>*\<^sup>* s0 s"
  shows "map fst (st_posted s) @ in_flight (drv_abs (my_driver E) s) = st_accepted s \<and>
    (\<forall>c \<in> set (st_posted s). snd c = 1 \<or> snd c = 2) \<and>
    (st_pc s = Returned \<longrightarrow> map fst (st_posted s) = st_accepted s \<and> \<not> slot_filled (st_conn s)) \<and>
    \<not> fault (st_mach s) \<and> held (st_mach s) = {} \<and> my_own (st_conn s) (st_mach s)"
  using my_drv.exactly_once [OF assms] my_drv.drops_nothing [OF assms] my_drv.always_owned [OF assms]
    my_ownD [OF my_drv.always_owned [OF assms]] by simp

theorem mysql_driver_sound_witness:
  "\<exists>s. (drv_step (my_driver demo_my) my_call_ok)\<^sup>*\<^sup>* my_state s \<and> st_pc s = Returned \<and> st_accepted s = [7] \<and>
     my_own (st_conn s) (st_mach s) \<and> \<not> fault (st_mach s)"
proof -
  obtain s where s: "(drv_step (my_driver demo_my) my_call_ok)\<^sup>*\<^sup>* my_state s" "st_posted s = [(7, 1)]" "st_pc s = Returned"
    using my_run by blast
  from mysql_driver_sound [OF my_start s(1)] s(2,3) have "st_accepted s = [7]" "my_own (st_conn s) (st_mach s)" "\<not> fault (st_mach s)"
    by simp_all
  with s show ?thesis by blast
qed

text \<open>C36. A submission is all or nothing, with each of its allocations failing or not: refused,
  it changes neither connection nor ledger; accepted, the slot was free, and the worker will
  run exactly the statement, or the statements joined by semicolons, with the kind asked for;
  the copy is the only memory it took.\<close>

theorem mysql_submission_exact:
  assumes "my_own c m" "my_call_ok call"
  shows "my_refused c m (my_submit call port t c m) \<or>
    (\<exists>c' m'. my_submit call port t c m = (1, Some c', m') \<and> \<not> slot_filled c \<and> \<not> shutdown_requested c \<and>
       my_slot_request c' = my_call_request call \<and> port_id c' = port \<and> my_own c' m' \<and>
       acquired m (opt_ids (sql c')) m')"
proof (cases "my_refused c m (my_submit call port t c m)")
  case False
  with my_submit_cases [OF assms, of port t] have
    acc: "my_accepted c m (fst (my_call_request call)) port t (my_submit call port t c m) (snd (my_call_request call))" by blast
  then obtain c' m' where r: "my_submit call port t c m = (1, Some c', m')" "acquired m (opt_ids (sql c')) m'"
    by (auto simp: my_accepted_def)
  from my_accepted_own [OF assms(1) acc [unfolded r(1)]] r show ?thesis by simp
qed simp

theorem mysql_submission_exact_witness:
  "\<exists>c' m'. my_submit (My_batch [Some ''A'', Some ''B''] 2) 7 0 my_conn my_mach = (1, Some c', m') \<and>
     my_slot_request c' = (Write_batch, ''A;B'')"
proof -
  have "my_call_ok (My_batch [Some ''A'', Some ''B''] 2)" by (simp add: numeral_2_eq_2)
  note p = mysql_submission_exact [OF my_conn_own this, of 7 0]
  have "fst (my_submit (My_batch [Some ''A'', Some ''B''] 2) 7 0 my_conn my_mach) = 1" by code_simp
  with p show ?thesis by (auto simp: my_refused_def numeral_2_eq_2)
qed

text \<open>C5. The worker's answer to a request is the server's: code 1 with every result set the
  server sent, in order (one for a single statement, an empty one for a batch, all of them for
  a multi-read), which polling then returns one by one; or code 2, with the results as they
  were, everything taken given back, and the library's error or a message of its own on the
  connection. With memory to spare the request succeeds whenever the server does.\<close>

theorem mysql_request_correct:
  assumes "my_own c m" "slot_filled c" "mysql_worker_execute n E c m = Some (rc, c', m')"
  shows "my_own c' m' \<and>
    ((rc = 1 \<and> last_errno c' = 0 \<and> last_error c' = [] \<and>
      (\<exists>rs. my_outcome n E (the (my c)) (my_slot_request c) (ext m) = Some (Some rs) \<and>
         my_polls (length rs) c' m' = map Some rs)) \<or>
     (rc = 2 \<and> results c' = results c \<and> last_result c' = last_result c \<and> acquired m [] m' \<and>
      (last_errno c' = 0 \<longrightarrow> last_error c' \<noteq> []) \<and>
      (oom m = [] \<longrightarrow> my_outcome n E (the (my c)) (my_slot_request c) (ext m) = Some None)))"
  using my_execute_cases [OF assms] my_execute_own [OF assms] my_polls_views [of c' m'] by blast

theorem mysql_request_correct_witness:
  "\<exists>c' m'. mysql_worker_execute 3 demo_my my_busy my_mach = Some (1, c', m') \<and>
     my_polls 2 c' m' = [Some (Some ''A;B''), Some (Some ''bye'')]"
proof -
  have full: "slot_filled my_busy" by (simp add: my_busy_def)
  obtain rc c' m' where r: "mysql_worker_execute 3 demo_my my_busy my_mach = Some (rc, c', m')"
    using my_execute_returns [OF full _ my_busy_ends] my_ownD(1) [OF my_busy_own] by (metis not_None_eq prod_cases3)
  have o: "my_outcome 3 demo_my (the (my my_busy)) (my_slot_request my_busy) (ext my_mach) = Some (Some [Some ''A;B'', Some ''bye''])"
    by code_simp
  have "oom my_mach = []" by (simp add: my_mach_def)
  with mysql_request_correct [OF my_busy_own full r] o
  have "rc = 1 \<and> (\<exists>rs. rs = [Some ''A;B'', Some ''bye''] \<and> my_polls (length rs) c' m' = map Some rs)" by auto
  with r show ?thesis by (auto simp: numeral_2_eq_2)
qed

text \<open>C37. A request ends when the server's results do: as many iterations as result sets are
  enough, whatever allocations fail; and the worker of a connection that has been told to stop
  then ends too.\<close>

theorem mysql_request_ends:
  assumes "my_own c m" "slot_filled c" "\<forall>w. my_outcome n E (the (my c)) (my_slot_request c) w \<noteq> None"
  shows "(\<exists>rc c' m'. mysql_worker_execute n E c m = Some (rc, c', m') \<and> (rc = 1 \<or> rc = 2)) \<and>
    (shutdown_requested c \<longrightarrow> mysql_worker_end n E c m \<noteq> None)"
proof -
  have "mysql_worker_execute n E c m \<noteq> None"
    using assms by (intro my_execute_returns) (simp_all add: my_ownD)
  then obtain rc c' m' where r: "mysql_worker_execute n E c m = Some (rc, c', m')" by auto
  moreover have "rc = 1 \<or> rc = 2" using my_execute_cases [OF assms(1,2) r] by blast
  moreover have "shutdown_requested c \<longrightarrow> mysql_worker_end n E c m \<noteq> None"
    using my_worker_end_returns [of n E c m] assms by (simp add: my_stopped_def)
  ultimately show ?thesis by blast
qed

theorem mysql_request_ends_witness:
  "\<exists>rc c' m'. mysql_worker_execute 3 demo_my my_busy my_mach = Some (rc, c', m') \<and> (rc = 1 \<or> rc = 2)"
  using mysql_request_ends [OF my_busy_own, of 3 demo_my] my_busy_ends by (simp add: my_busy_def)



section \<open>The pool\<close>









text \<open>C39. A result that was not drained is lost: \<open>mysql_pool_release\<close> leaves it on the connection,
  and the next statement overwrites the only pointer to it, so that draining the connection and
  tearing it down never frees it.\<close>

theorem mysql_undrained_lost:
  assumes "my_own c m" "slot_filled c" "\<not> is_batch c" "\<not> is_multi_read c"
    and "last_result c = Some a" "map_of (results c) a = Some nd"
    and "mysql_worker_execute n E c m = Some (1, c', m')"
  shows "a \<in> live m' \<and> (\<forall>as. chain_at mr_next (map_of (results c')) (last_result c') as \<longrightarrow> a \<notin> set as)"
proof -
  note D = my_ownD [OF assms(1)]
  from D(1) assms(2) obtain s where s: "sql c = Some s" by (auto simp: my_slot_ok_def)
  obtain rc c2 m2 where e: "my_execute_single E (the (my c)) (mysql_clear_conn_error c) (c_string (contents s)) m = (rc, c2, m2)"
    by (cases "my_execute_single E (the (my c)) (mysql_clear_conn_error c) (c_string (contents s)) m")
  with assms(3,4,7) s have r: "rc = 1" "c' = c2" "m' = m2"
    by (auto simp: mysql_worker_execute_def)
  from my_single_head [OF e [unfolded r(1)]] obtain w new where
    w: "last_result c' = Some w" "results c' = AList.update w new (results c)" "mr_next new = None"
    and acq: "acquired m (my_node_ids w new) m'"
    by (auto simp: r mysql_clear_conn_error_def)
  have "a \<in> set (my_store (results c))"
    using map_of_SomeD [OF assms(6)] by (force simp: store_ids_def my_node_ids_def)
  then have a: "a \<in> live m" using store_ok_owned [OF D(5)] by (auto simp: owned_def)
  have "w \<notin> live m" using acq D(2) by (force simp: my_node_ids_def acquired_def ledger_ok_def)
  then have "w \<noteq> a" using a by blast
  have "map_of (results c') w = Some new" by (simp add: w(2) update_conv')
  with w(1,3) have ch: "chain_at mr_next (map_of (results c')) (last_result c') [w]" by simp
  have "a \<notin> set as" if "chain_at mr_next (map_of (results c')) (last_result c') as" for as
    using chain_at_unique [OF ch that] \<open>w \<noteq> a\<close> by auto
  moreover have "a \<in> live m'" using a acq by (simp add: acquired_def)
  ultimately show ?thesis by blast
qed

definition my_stale :: "string mysql_conn" where
  "my_stale = my_conn\<lparr>slot_filled := True, sql := Some (Cell 4 (''A'' @ [CHR 0x00])), port_id := 7,
     results := [(5, zero_result)], last_result := Some 5\<rparr>"

theorem mysql_undrained_lost_witness:
  "let m = my_mach\<lparr>fresh := 6, live := {0, 1, 2, 3, 4, 5}\<rparr> in
   \<exists>c' m'. mysql_worker_execute 1 demo_my my_stale m = Some (1, c', m') \<and> 5 \<in> live m' \<and>
     (\<forall>as. chain_at mr_next (map_of (results c')) (last_result c') as \<longrightarrow> 5 \<notin> set as)"
proof -
  let ?m = "my_mach\<lparr>fresh := 6, live := {0, 1, 2, 3, 4, 5}\<rparr>"
  have own: "my_own my_stale ?m"
    by (auto simp: my_own_def my_slot_ok_def my_handles_def store_ok_def owned_def ledger_ok_def my_stale_def my_demo
        zero_result_def my_node_ids_def intro!: exI [of _ "[5]"])
  have "mysql_worker_execute 1 demo_my my_stale ?m \<noteq> None \<and>
    fst (the (mysql_worker_execute 1 demo_my my_stale ?m)) = 1" by code_simp
  then obtain c' m' where r: "mysql_worker_execute 1 demo_my my_stale ?m = Some (1, c', m')"
    by (metis option.exhaust_sel prod.collapse)
  have "slot_filled my_stale" "\<not> is_batch my_stale" "\<not> is_multi_read my_stale" "last_result my_stale = Some 5"
    "map_of (results my_stale) 5 = Some zero_result"
    by (simp_all add: my_stale_def my_demo)
  from mysql_undrained_lost [OF own this r] r show ?thesis by (auto simp: Let_def)
qed

section \<open>Reading a result\<close>

text \<open>C17. The one-row cache is invisible: whatever cells are read in whatever order, each read
  returns the cell of the stored table it names (NULL for SQL NULL and outside the table) and
  its length, and no access leaves the row it reads.\<close>

theorem mysql_random_access:
  assumes "wraps A rows n r"
    and "\<forall>rw \<in> set rows. \<forall>v \<in> set rw. length (case v of None \<Rightarrow> [] | Some s \<Rightarrow> s) < 2 ^ 31"
  shows "\<exists>x. read_cells A (Some r) ps m =
      (map (\<lambda>(i, j). (table_cell rows n i j, case table_cell rows n i j of None \<Rightarrow> 0 | Some s \<Rightarrow> int (length s))) ps,
       m\<lparr>ext := x\<rparr>)"
  by (rule read_cells_table [OF assms(2,1)])

text \<open>A table of two rows whose cursor is the outside world.\<close>

definition demo_rows :: "string option list list" where
  "demo_rows = [[Some ''a'', None], [Some ''bc'', Some ''d'']]"

definition demo_res :: "(nat, unit) my_res_api" where
  "demo_res = \<lparr>mysql_num_rows = \<lambda>r. 2, mysql_data_seek = \<lambda>r i w. unat i,
     mysql_fetch_row = \<lambda>r w. (if w < 2 then Some (demo_rows ! w) else None, Suc w),
     mysql_fetch_lengths = \<lambda>r w. map (\<lambda>v. of_nat (length (case v of None \<Rightarrow> [] | Some s \<Rightarrow> s))) (demo_rows ! (w - 1)),
     mysql_fetch_field_direct = \<lambda>r i. None\<rparr>"

definition demo_wrapper :: "unit native_mysql_result" where
  "demo_wrapper = zero_result\<lparr>mr_res := Some (Cell 9 ()), col_count := 2, cached_row := -1\<rparr>"

theorem mysql_random_access_witness:
  "\<forall>m. \<exists>x. read_cells demo_res (Some demo_wrapper) [(1, 0), (0, 1), (1, 1), (5, 0)] m =
     ([(Some ''bc'', 2), (None, 0), (Some ''d'', 1), (None, 0)], m\<lparr>ext := x\<rparr>)"
proof -
  have "i = 0 \<or> i = 1" if "i < length demo_rows" for i using that by (simp add: demo_rows_def) linarith
  then have "stored_rows demo_res () demo_rows"
    unfolding stored_rows_def by (fastforce simp: demo_res_def demo_rows_def)
  then have w: "wraps demo_res demo_rows 2 demo_wrapper"
    by (auto simp: wraps_def demo_wrapper_def zero_result_def demo_rows_def cache_ok_def)
  have "\<forall>rw \<in> set demo_rows. \<forall>v \<in> set rw. length (case v of None \<Rightarrow> [] | Some s \<Rightarrow> s) < 2 ^ 31"
    by (simp add: demo_rows_def)
  note at = mysql_random_access [OF w this, of "[(1, 0), (0, 1), (1, 1), (5, 0)]"]
  show ?thesis
    using at by (simp add: table_cell_def demo_rows_def)
qed

end
