(* ===== verification/Sq_Env.thy ===== *)
theory Sq_Env
  imports C_Time C_Strings "HOL-Library.Word"
begin

text \<open>
  What the SQLite driver calls outside its sources: libsqlite3. Each call is a field of
  \<open>sq_env\<close> over an abstract outside world \<open>'w\<close>. A prepared statement is known to the library by a
  token \<open>'s\<close>; \<open>None\<close> is the NULL statement, which it accepts. As documented: \<open>sqlite3_open_v2\<close> gives a handle
  with every success and with most errors, \<open>sqlite3_exec\<close> gives a message only with an error, \<open>sqlite3_column_bytes\<close> is the length of what \<open>sqlite3_column_blob\<close> points at,
  \<open>sqlite3_prepare_v2\<close> gives no statement with an error and reports the rest of the text as the
  number of bytes it used. A \<open>double\<close> is its 64 bits.
\<close>

record ('w, 's) sq_env =
  sqlite3_open_v2 :: "string \<Rightarrow> 'w \<Rightarrow> int \<times> bool \<times> 'w"
  sqlite3_exec :: "nat \<Rightarrow> string \<Rightarrow> 'w \<Rightarrow> (int \<times> string option) option \<times> 'w"
  sqlite3_busy_timeout :: "nat \<Rightarrow> int \<Rightarrow> 'w \<Rightarrow> 'w"
  sqlite3_close_v2 :: "nat \<Rightarrow> 'w \<Rightarrow> 'w"
  sqlite3_errmsg :: "nat \<Rightarrow> 'w \<Rightarrow> string"
  sqlite3_extended_errcode :: "nat \<Rightarrow> 'w \<Rightarrow> int"
  sqlite3_prepare_v2 :: "nat \<Rightarrow> string \<Rightarrow> 'w \<Rightarrow> int \<times> 's option \<times> nat \<times> 'w"
  sqlite3_column_count :: "'s option \<Rightarrow> 'w \<Rightarrow> nat"
  sqlite3_step :: "'s option \<Rightarrow> 'w \<Rightarrow> int \<times> 'w"
  sqlite3_column_type :: "'s option \<Rightarrow> nat \<Rightarrow> 'w \<Rightarrow> int"
  sqlite3_column_int64 :: "'s option \<Rightarrow> nat \<Rightarrow> 'w \<Rightarrow> 64 word"
  sqlite3_column_double :: "'s option \<Rightarrow> nat \<Rightarrow> 'w \<Rightarrow> 64 word"
  sqlite3_column_blob :: "'s option \<Rightarrow> nat \<Rightarrow> 'w \<Rightarrow> string"
  sqlite3_column_name :: "'s option \<Rightarrow> nat \<Rightarrow> 'w \<Rightarrow> string option"
  sqlite3_changes :: "nat \<Rightarrow> 'w \<Rightarrow> int"
  sqlite3_finalize :: "'s option \<Rightarrow> 'w \<Rightarrow> 'w"

text \<open>Result codes and column types of the library's header.\<close>

definition SQLITE_OK :: int where "SQLITE_OK = 0"
definition SQLITE_NOMEM :: int where "SQLITE_NOMEM = 7"
definition SQLITE_ROW :: int where "SQLITE_ROW = 100"
definition SQLITE_DONE :: int where "SQLITE_DONE = 101"
definition SQLITE_INTEGER :: int where "SQLITE_INTEGER = 1"
definition SQLITE_FLOAT :: int where "SQLITE_FLOAT = 2"
definition SQLITE_NULL :: int where "SQLITE_NULL = 5"

lemmas sqlite_codes = SQLITE_OK_def SQLITE_NOMEM_def SQLITE_ROW_def SQLITE_DONE_def SQLITE_INTEGER_def
  SQLITE_FLOAT_def SQLITE_NULL_def

text \<open>The handles the library opens and closes are entered in the ledger.\<close>

definition sq_open :: "('w, 's) sq_env \<Rightarrow> string \<Rightarrow> 'w mach \<Rightarrow> int \<times> nat option \<times> 'w mach" where
  "sq_open E path m =
     (case sqlite3_open_v2 E path (ext m) of (rc, got, w) \<Rightarrow>
        if got \<or> rc = SQLITE_OK then (case rnew () (m\<lparr>ext := w\<rparr>) of (c, m1) \<Rightarrow> (rc, Some (addr c), m1))
        else (rc, None, m\<lparr>ext := w\<rparr>))"

definition sq_close :: "('w, 's) sq_env \<Rightarrow> nat \<Rightarrow> 'w mach \<Rightarrow> 'w mach" where
  "sq_close E h m = rfree h (m\<lparr>ext := sqlite3_close_v2 E h (ext m)\<rparr>)"

definition sq_exec :: "('w, 's) sq_env \<Rightarrow> nat \<Rightarrow> string \<Rightarrow> 'w mach \<Rightarrow> (int \<times> string cell option) option \<times> 'w mach" where
  "sq_exec E h q m =
     (case sqlite3_exec E h q (ext m) of
        (None, w) \<Rightarrow> (None, m\<lparr>ext := w\<rparr>)
      | (Some (rc, None), w) \<Rightarrow> (Some (rc, None), m\<lparr>ext := w\<rparr>)
      | (Some (rc, Some msg), w) \<Rightarrow> (case rnew msg (m\<lparr>ext := w\<rparr>) of (c, m1) \<Rightarrow> (Some (rc, Some c), m1)))"

definition sq_prepare ::
  "('w, 's) sq_env \<Rightarrow> nat \<Rightarrow> string \<Rightarrow> 'w mach \<Rightarrow> int \<times> 's cell option \<times> nat \<times> 'w mach" where
  "sq_prepare E h q m =
     (case sqlite3_prepare_v2 E h q (ext m) of (rc, tok, used, w) \<Rightarrow>
        (case (if rc = SQLITE_OK then tok else None) of
           None \<Rightarrow> (rc, None, used, m\<lparr>ext := w\<rparr>)
         | Some s \<Rightarrow> (case rnew s (m\<lparr>ext := w\<rparr>) of (c, m1) \<Rightarrow> (rc, Some c, used, m1))))"

definition sq_finalize :: "('w, 's) sq_env \<Rightarrow> 's cell option \<Rightarrow> 'w mach \<Rightarrow> 'w mach" where
  "sq_finalize E stmt m = cfree stmt (m\<lparr>ext := sqlite3_finalize E (map_option contents stmt) (ext m)\<rparr>)"

definition nat_ids :: "nat option \<Rightarrow> nat list" where
  "nat_ids p = (case p of None \<Rightarrow> [] | Some a \<Rightarrow> [a])"

lemma nat_ids_simps [simp]: "nat_ids None = []" "nat_ids (Some a) = [a]"
  by (simp_all add: nat_ids_def)

lemma sq_open_acquired: "sq_open E path m = (rc, r, m') \<Longrightarrow> acquired m (nat_ids r) m'"
  by (auto simp: sq_open_def rnew_def acquired_def split: prod.splits if_splits)

lemma sq_exec_acquired:
  "sq_exec E h q m = (r, m') \<Longrightarrow> acquired m (case r of None \<Rightarrow> [] | Some (rc, e) \<Rightarrow> opt_ids e) m'"
  by (auto simp: sq_exec_def rnew_def acquired_def split: prod.splits option.splits)

lemma sq_prepare_acquired: "sq_prepare E h q m = (rc, s, used, m') \<Longrightarrow> acquired m (opt_ids s) m'"
  by (auto simp: sq_prepare_def rnew_def acquired_def split: prod.splits option.splits)

lemma sq_prepare_spec:
  "sq_prepare E h q m = (rc, s, used, m') \<Longrightarrow> oom m' = oom m \<and>
   (\<exists>tok. sqlite3_prepare_v2 E h q (ext m) = (rc, tok, used, ext m') \<and>
      map_option contents s = (if rc = SQLITE_OK then tok else None))"
  by (auto simp: sq_prepare_def rnew_def split: prod.splits option.splits)

lemma sq_finalize_free:
  "sq_finalize E s m = free_all (opt_ids s) (m\<lparr>ext := sqlite3_finalize E (map_option contents s) (ext m)\<rparr>)"
  by (simp add: sq_finalize_def cfree_free_all)

end
