(* ===== verification/Sq_Conn.thy ===== *)
theory Sq_Conn
  imports Sq_Env Result_Chain
begin

text \<open>
  One SQLite connection: \<open>struct sqlite_conn\<close> and the materialised
  \<open>struct native_sqlite_result\<close> of sqlite_pool_internal.h, and the operations of
  sqlite_pool.c and native_sqlite.c on them. A result's cells lie row by row in three parallel
  arrays; each array is a block and each cell's bytes are one. Result nodes are kept in
  \<open>results\<close>.
\<close>

record native_sqlite_result =
  sr_col_count :: nat
  sr_row_count :: nat
  sr_affected_rows :: int
  col_names :: "string cell option list cell option"
  cell_types :: "int list cell option"
  cell_lens :: "int list cell option"
  cell_data :: "string cell option list cell option"
  sr_next :: "nat option"

record sqlite_conn =
  sq_db :: "nat option"
  sq_index :: int
  in_use :: bool
  worker :: nat
  slot_mutex :: nat
  slot_cond :: nat
  slot_filled :: bool
  is_batch :: bool
  is_multi_read :: bool
  sql :: "string cell option"
  port_id :: int
  timeout_ms :: int
  results :: "(nat \<times> native_sqlite_result) list"
  last_result :: "nat option"
  last_error :: string
  last_error_code :: int
  shutdown_requested :: bool

text \<open>The array elements a pointer gives access to; NULL gives none.\<close>

definition block :: "'a list cell option \<Rightarrow> 'a list" where
  "block p = (case p of None \<Rightarrow> [] | Some c \<Rightarrow> contents c)"

lemma block_simps [simp]: "block None = []" "block (Some c) = contents c"
  by (simp_all add: block_def)

section \<open>Freeing a result\<close>

text \<open>\<open>for (i = 0; i < n; i++) free(p[i]);\<close>, reading past the array being a fault.\<close>

definition free_elems :: "nat \<Rightarrow> 'a cell option list \<Rightarrow> 'w mach \<Rightarrow> 'w mach" where
  "free_elems n xs m = (case read_array n xs m of (ys, m1) \<Rightarrow> fold cfree ys m1)"

definition native_sqlite_clear_result :: "nat \<Rightarrow> native_sqlite_result \<Rightarrow> 'w mach \<Rightarrow> 'w mach" where
  "native_sqlite_clear_result a r m =
     (let tot = sr_row_count r * sr_col_count r;
          m1 = (if cell_data r \<noteq> None then free_elems tot (block (cell_data r)) m else m);
          m2 = cfree (cell_lens r) (cfree (cell_types r) (cfree (cell_data r) m1));
          m3 = (if col_names r \<noteq> None then cfree (col_names r) (free_elems (sr_col_count r) (block (col_names r)) m2)
                else m2)
      in rfree a m3)"

definition sqlite_free_result_chain ::
  "nat option \<Rightarrow> (nat \<times> native_sqlite_result) list \<Rightarrow> 'w mach \<Rightarrow> (nat \<times> native_sqlite_result) list \<times> 'w mach" where
  "sqlite_free_result_chain = free_chain sr_next native_sqlite_clear_result"

section \<open>The slot\<close>

definition sqlite_pool_free_slot_payload :: "sqlite_conn \<Rightarrow> 'w mach \<Rightarrow> sqlite_conn \<times> 'w mach" where
  "sqlite_pool_free_slot_payload conn m =
     (conn\<lparr>sql := None, is_batch := False, is_multi_read := False, port_id := 0, timeout_ms := 0\<rparr>,
      cfree (sql conn) m)"

definition sqlite_dup_string :: "string option \<Rightarrow> 'w mach \<Rightarrow> string cell option \<times> 'w mach" where
  "sqlite_dup_string s m = (case s of None \<Rightarrow> (None, m) | Some b \<Rightarrow> halloc b m)"

lemma sqlite_dup_string_eq: "sqlite_dup_string = dup_string"
  by (intro ext) (simp add: sqlite_dup_string_def dup_string_def)

text \<open>The statement is copied before the slot is looked at.\<close>

definition sqlite_pool_submit_query ::
  "sqlite_conn option \<Rightarrow> string option \<Rightarrow> int \<Rightarrow> int \<Rightarrow> 'w mach \<Rightarrow> int \<times> sqlite_conn option \<times> 'w mach" where
  "sqlite_pool_submit_query conn q port t m =
     (case (conn, q) of
        (Some c, Some body) \<Rightarrow>
          (case sqlite_dup_string (Some body) m of
             (None, m1) \<Rightarrow> (0, conn, m1)
           | (Some s, m1) \<Rightarrow>
               (let m2 = mutex_lock (slot_mutex c) m1 in
                if slot_filled c \<or> shutdown_requested c then
                  (0, conn, rfree (addr s) (mutex_unlock (slot_mutex c) m2))
                else
                  (1, Some (c\<lparr>slot_filled := True, sql := Some s, port_id := port, timeout_ms := t\<rparr>),
                   mutex_unlock (slot_mutex c) (cond_signal (slot_cond c) m2))))
      | _ \<Rightarrow> (0, conn, m))"

text \<open>\<open>join_stmts\<close>: every statement is followed by a semicolon, the last one too.\<close>

fun sq_join_size :: "string option list \<Rightarrow> nat \<Rightarrow> nat option" where
  "sq_join_size [] n = Some n"
| "sq_join_size (None # qs) n = None"
| "sq_join_size (Some q # qs) n = sq_join_size qs (n + (length q + 1))"

fun sq_join_copy :: "string list \<Rightarrow> nat \<Rightarrow> string \<Rightarrow> 'w mach \<Rightarrow> nat \<times> string \<times> 'w mach" where
  "sq_join_copy [] p buf m = (p, buf, m)"
| "sq_join_copy (q # qs) p buf m =
     (let (buf1, m1) = write_bytes p q buf m;
          p1 = p + length q;
          (buf2, m2) = write_bytes p1 '';'' buf1 m1
      in sq_join_copy qs (p1 + 1) buf2 m2)"

definition sqlite_join_stmts :: "string option list \<Rightarrow> int \<Rightarrow> 'w mach \<Rightarrow> string cell option \<times> 'w mach" where
  "sqlite_join_stmts stmts cnt m =
     (let (qs, m0) = read_array (nat cnt) stmts m in
      case sq_join_size qs 1 of
        None \<Rightarrow> (None, m0)
      | Some sz \<Rightarrow>
          (case halloc () m0 of
             (None, m1) \<Rightarrow> (None, m1)
           | (Some blk, m1) \<Rightarrow>
               (let (p, buf, m2) = sq_join_copy (map the qs) 0 (replicate sz (CHR 0xCC)) m1;
                    (buf1, m3) = write_bytes p [CHR 0x00] buf m2
                in (Some (Cell (addr blk) buf1), m3))))"

definition sqlite_submit_joined ::
  "sqlite_conn option \<Rightarrow> string option list option \<Rightarrow> int \<Rightarrow> bool \<Rightarrow> bool \<Rightarrow> int \<Rightarrow> int \<Rightarrow> 'w mach \<Rightarrow>
   int \<times> sqlite_conn option \<times> 'w mach" where
  "sqlite_submit_joined conn stmts cnt batch multi port t m =
     (case (conn, stmts) of
        (Some c, Some qs) \<Rightarrow>
          (if cnt \<le> 0 then (0, conn, m)
           else (case sqlite_join_stmts qs cnt m of
               (None, m1) \<Rightarrow> (0, conn, m1)
             | (Some joined, m1) \<Rightarrow>
                 (let m2 = mutex_lock (slot_mutex c) m1 in
                  if slot_filled c \<or> shutdown_requested c then
                    (0, conn, rfree (addr joined) (mutex_unlock (slot_mutex c) m2))
                  else
                    (1, Some (c\<lparr>slot_filled := True, is_batch := batch, is_multi_read := multi,
                                sql := Some joined, port_id := port, timeout_ms := t\<rparr>),
                     mutex_unlock (slot_mutex c) (cond_signal (slot_cond c) m2)))))
      | _ \<Rightarrow> (0, conn, m))"

definition sqlite_pool_submit_batch ::
  "sqlite_conn option \<Rightarrow> string option list option \<Rightarrow> int \<Rightarrow> int \<Rightarrow> int \<Rightarrow> 'w mach \<Rightarrow>
   int \<times> sqlite_conn option \<times> 'w mach" where
  "sqlite_pool_submit_batch conn stmts cnt port t m = sqlite_submit_joined conn stmts cnt True False port t m"

definition sqlite_pool_submit_multi_read ::
  "sqlite_conn option \<Rightarrow> string option list option \<Rightarrow> int \<Rightarrow> int \<Rightarrow> int \<Rightarrow> 'w mach \<Rightarrow>
   int \<times> sqlite_conn option \<times> 'w mach" where
  "sqlite_pool_submit_multi_read conn stmts cnt port t m = sqlite_submit_joined conn stmts cnt False True port t m"

section \<open>Poll and errors\<close>

definition native_sqlite_poll_result ::
  "sqlite_conn option \<Rightarrow> 'w mach \<Rightarrow> (nat \<times> native_sqlite_result) option \<times> sqlite_conn option \<times> 'w mach" where
  "native_sqlite_poll_result conn m =
     (case conn of
        None \<Rightarrow> (None, conn, m)
      | Some c \<Rightarrow>
          (let (r, head, st, m1) = poll_head sr_next (last_result c) (results c) m
           in (r, Some (c\<lparr>results := st, last_result := head\<rparr>), m1)))"

definition native_sqlite_last_error :: "sqlite_conn option \<Rightarrow> string" where
  "native_sqlite_last_error conn = (case conn of None \<Rightarrow> [] | Some c \<Rightarrow> last_error c)"

definition native_sqlite_last_error_code :: "sqlite_conn option \<Rightarrow> int" where
  "native_sqlite_last_error_code conn = (case conn of None \<Rightarrow> 0 | Some c \<Rightarrow> last_error_code c)"

end
