(* ===== verification/Sq_Worker.thy ===== *)
theory Sq_Worker
  imports Sq_Conn Driver_Machine
begin

unbundle bit_operations_syntax

text \<open>
  The SQLite worker, sqlite_pool_worker.c: the materialisation of a statement's rows, the
  three ways to run a request, one round of \<open>sqlite_pool_worker_main\<close>, and the synchronous
  path \<open>sqlite_conn_exec_sync\<close>, which runs the same code on the caller's thread. The loops over
  \<open>sqlite3_step\<close> and over the statements of a multi-read take fuel. \<open>None\<close> is a thread that
  never gets to the end: it is still looping, or the process has died on a NULL pointer.
\<close>

definition SQ_PORT_OK :: int where "SQ_PORT_OK = 1"
definition SQ_PORT_ABORTED :: int where "SQ_PORT_ABORTED = 2"

definition SQLITE_ERR_BUF :: nat where "SQLITE_ERR_BUF = 512"

definition sqlite_set_error :: "('w, 's) sq_env \<Rightarrow> nat \<Rightarrow> 'w \<Rightarrow> sqlite_conn \<Rightarrow> sqlite_conn" where
  "sqlite_set_error E h w conn =
     conn\<lparr>last_error := snprintf SQLITE_ERR_BUF (sqlite3_errmsg E h w),
          last_error_code := sqlite3_extended_errcode E h w\<rparr>"

definition out_of_memory :: "sqlite_conn \<Rightarrow> sqlite_conn" where
  "out_of_memory conn =
     conn\<lparr>last_error := snprintf SQLITE_ERR_BUF ''out of memory'', last_error_code := SQLITE_NOMEM\<rparr>"

section \<open>Cells\<close>

text \<open>The eight bytes of a 64-bit value in memory, least significant first.\<close>

definition le_bytes :: "64 word \<Rightarrow> string" where
  "le_bytes v = map (\<lambda>i. char_of (unat (take_bit 8 (drop_bit (8 * i) v)))) [0..<8]"

definition dup_cell :: "string \<Rightarrow> 'w mach \<Rightarrow> string cell option \<times> 'w mach" where
  "dup_cell src m = halloc src m"

text \<open>One column of the current row: its type, its length and its copied bytes.\<close>

definition read_cell ::
  "('w, 's) sq_env \<Rightarrow> 's option \<Rightarrow> nat \<Rightarrow> 'w mach \<Rightarrow> int \<times> int \<times> string cell option \<times> 'w mach" where
  "read_cell E s c m =
     (let w = ext m; ty = sqlite3_column_type E s c w in
      if ty = SQLITE_NULL then (ty, 0, None, m)
      else if ty = SQLITE_INTEGER then
        (case dup_cell (le_bytes (sqlite3_column_int64 E s c w)) m of (d, m1) \<Rightarrow> (ty, 8, d, m1))
      else if ty = SQLITE_FLOAT then
        (case dup_cell (le_bytes (sqlite3_column_double E s c w)) m of (d, m1) \<Rightarrow> (ty, 8, d, m1))
      else let b = sqlite3_column_blob E s c w; n = length b in
        (case (if n > 0 then dup_cell b m else dup_cell [] m) of (d, m1) \<Rightarrow> (ty, int n, d, m1)))"

text \<open>The three parallel arrays.\<close>

record sq_arrays =
  ar_types :: "int list cell option"
  ar_lens :: "int list cell option"
  ar_data :: "string cell option list cell option"

text \<open>A store \<open>p[i] = v\<close>; through NULL or past the array it is a fault.\<close>

definition put_at :: "'a list cell option \<Rightarrow> nat \<Rightarrow> 'a \<Rightarrow> 'w mach \<Rightarrow> 'a list cell option \<times> 'w mach" where
  "put_at p i v m =
     (case p of None \<Rightarrow> (p, m\<lparr>fault := True\<rparr>)
      | Some c \<Rightarrow>
          (if i < length (contents c) then (Some (Cell (addr c) ((contents c)[i := v])), m)
           else (p, m\<lparr>fault := True\<rparr>)))"

text \<open>\<open>realloc\<close> to \<open>n\<close> elements; to size zero it frees.\<close>

definition realloc :: "'a list cell option \<Rightarrow> nat \<Rightarrow> 'a \<Rightarrow> 'w mach \<Rightarrow> 'a list cell option \<times> 'w mach" where
  "realloc p n junk m =
     (if n = 0 \<and> p \<noteq> None then (None, cfree p m)
      else (case halloc (take n (block p @ replicate n junk)) m of
          (None, m1) \<Rightarrow> (None, m1)
        | (Some c, m1) \<Rightarrow> (Some c, cfree p m1)))"

definition free_cells :: "sq_arrays \<Rightarrow> nat \<Rightarrow> 'w mach \<Rightarrow> 'w mach" where
  "free_cells ar cnt m =
     (let m1 = (if ar_data ar \<noteq> None then free_elems cnt (block (ar_data ar)) m else m)
      in cfree (ar_data ar) (cfree (ar_lens ar) (cfree (ar_types ar) m1)))"

text \<open>
  Growing the arrays to \<open>newcap\<close> rows. \<open>Inl\<close>: out of memory, with the arrays that are then
  still to be freed.
\<close>

definition grow_arrays :: "nat \<Rightarrow> nat \<Rightarrow> sq_arrays \<Rightarrow> 'w mach \<Rightarrow> (sq_arrays + sq_arrays) \<times> 'w mach" where
  "grow_arrays newcap ncol ar m =
     (let n = newcap * ncol;
          (t2, m1) = realloc (ar_types ar) n 0 m;
          (l2, m2) = realloc (ar_lens ar) n 0 m1;
          (d2, m3) = realloc (ar_data ar) n None m2
      in if ncol > 0 \<and> (t2 = None \<or> l2 = None \<or> d2 = None) then
           (Inl \<lparr>ar_types = (if t2 \<noteq> None then t2 else ar_types ar),
                 ar_lens = (if l2 \<noteq> None then l2 else ar_lens ar),
                 ar_data = (if d2 \<noteq> None then d2 else ar_data ar)\<rparr>, m3)
         else (Inr \<lparr>ar_types = t2, ar_lens = l2, ar_data = d2\<rparr>, m3))"

text \<open>The columns \<open>c, ..., c + k - 1\<close> of row \<open>nrows\<close>.\<close>

fun store_row ::
  "('w, 's) sq_env \<Rightarrow> 's option \<Rightarrow> nat \<Rightarrow> nat \<Rightarrow> nat \<Rightarrow> nat \<Rightarrow> sq_arrays \<Rightarrow> 'w mach \<Rightarrow> sq_arrays \<times> 'w mach" where
  "store_row E s ncol nrows c 0 ar m = (ar, m)"
| "store_row E s ncol nrows c (Suc k) ar m =
     (let idx = nrows * ncol + c;
          (ty, len, d, m1) = read_cell E s c m;
          (ts, m2) = put_at (ar_types ar) idx ty m1;
          (ds, m3) = put_at (ar_data ar) idx d m2;
          (ls, m4) = put_at (ar_lens ar) idx len m3
      in store_row E s ncol nrows (Suc c) k \<lparr>ar_types = ts, ar_lens = ls, ar_data = ds\<rparr> m4)"

text \<open>
  The stepping loop. It ends with the last code of \<open>sqlite3_step\<close>, or with \<open>None\<close> in its place
  when memory ran out; and with the arrays and the number of rows.
\<close>

fun step_rows ::
  "nat \<Rightarrow> ('w, 's) sq_env \<Rightarrow> 's option \<Rightarrow> nat \<Rightarrow> sq_arrays \<Rightarrow> nat \<Rightarrow> nat \<Rightarrow> 'w mach \<Rightarrow>
   (int option \<times> sq_arrays \<times> nat \<times> 'w mach) option" where
  "step_rows 0 E s ncol ar nrows cap m = None"
| "step_rows (Suc f) E s ncol ar nrows cap m =
     (let (rc, w) = sqlite3_step E s (ext m); m1 = m\<lparr>ext := w\<rparr> in
      if rc \<noteq> SQLITE_ROW then Some (Some rc, ar, nrows, m1)
      else let newcap = (if cap = 0 then 8 else cap * 2);
               (g, m2) = (if nrows = cap then grow_arrays newcap ncol ar m1 else (Inr ar, m1));
               cap1 = (if nrows = cap then newcap else cap)
           in (case g of
                 Inl ar1 \<Rightarrow> Some (None, ar1, nrows, m2)
               | Inr ar1 \<Rightarrow>
                   (let (ar2, m3) = store_row E s ncol nrows 0 ncol ar1 m2
                    in step_rows f E s ncol ar2 (Suc nrows) cap1 m3)))"

text \<open>
  The column names, each copied with \<open>strdup\<close>. The array's own allocation is not checked:
  \<open>None\<close> is the store through NULL.
\<close>

fun dup_names :: "string list \<Rightarrow> 'w mach \<Rightarrow> string cell option list \<times> 'w mach" where
  "dup_names [] m = ([], m)"
| "dup_names (s # ss) m =
     (let (d, m1) = halloc s m; (ds, m2) = dup_names ss m1 in (d # ds, m2))"

definition copy_names ::
  "('w, 's) sq_env \<Rightarrow> 's option \<Rightarrow> nat \<Rightarrow> 'w mach \<Rightarrow> (string cell option list cell option \<times> 'w mach) option" where
  "copy_names E s ncol m =
     (if ncol = 0 then Some (None, m)
      else (case halloc () m of
          (None, m1) \<Rightarrow> None
        | (Some blk, m1) \<Rightarrow>
            (let names = map (\<lambda>c. case sqlite3_column_name E s c (ext m1) of None \<Rightarrow> [] | Some s \<Rightarrow> s) [0..<ncol];
                 (ds, m2) = dup_names names m1
             in Some (Some (Cell (addr blk) ds), m2))))"

definition materialize_stmt ::
  "nat \<Rightarrow> ('w, 's) sq_env \<Rightarrow> sqlite_conn \<Rightarrow> 's cell option \<Rightarrow> 'w mach \<Rightarrow>
   ((nat \<times> native_sqlite_result) option \<times> sqlite_conn \<times> 'w mach) option" where
  "materialize_stmt f E conn stmt m =
     (let h = the (sq_db conn); s = map_option contents stmt; ncol = sqlite3_column_count E s (ext m) in
      case step_rows f E s ncol \<lparr>ar_types = None, ar_lens = None, ar_data = None\<rparr> 0 0 m of
        None \<Rightarrow> None
      | Some (None, ar, nrows, m1) \<Rightarrow>
          Some (None, out_of_memory conn, sq_finalize E stmt (free_cells ar (nrows * ncol) m1))
      | Some (Some rc, ar, nrows, m1) \<Rightarrow>
          (if rc \<noteq> SQLITE_DONE then
             Some (None, sqlite_set_error E h (ext m1) conn, sq_finalize E stmt (free_cells ar (nrows * ncol) m1))
           else (case copy_names E s ncol m1 of
               None \<Rightarrow> None
             | Some (names, m2) \<Rightarrow>
                 (let affected = sqlite3_changes E h (ext m2); m3 = sq_finalize E stmt m2 in
                  case halloc () m3 of
                    (None, m4) \<Rightarrow>
                      (let m5 = free_cells ar (nrows * ncol) m4;
                           m6 = (if names \<noteq> None then cfree names (free_elems ncol (block names) m5) else m5)
                       in Some (None, out_of_memory conn, m6))
                  | (Some blk, m4) \<Rightarrow>
                      Some (Some (addr blk,
                        \<lparr>sr_col_count = ncol, sr_row_count = nrows, sr_affected_rows = affected, col_names = names,
                         cell_types = ar_types ar, cell_lens = ar_lens ar, cell_data = ar_data ar, sr_next = None\<rparr>),
                        conn, m4)))))"

section \<open>Requests\<close>

definition sqlite_pool_execute_query ::
  "nat \<Rightarrow> ('w, 's) sq_env \<Rightarrow> sqlite_conn \<Rightarrow> string \<Rightarrow> 'w mach \<Rightarrow> (int \<times> sqlite_conn \<times> 'w mach) option" where
  "sqlite_pool_execute_query f E conn q m =
     (let h = the (sq_db conn); (rc, stmt, used, m1) = sq_prepare E h q m in
      if rc \<noteq> SQLITE_OK then Some (SQ_PORT_ABORTED, sqlite_set_error E h (ext m1) conn, m1)
      else (case materialize_stmt f E conn stmt m1 of
          None \<Rightarrow> None
        | Some (None, c1, m2) \<Rightarrow> Some (SQ_PORT_ABORTED, c1, m2)
        | Some (Some (a, r), c1, m2) \<Rightarrow>
            Some (SQ_PORT_OK, c1\<lparr>results := AList.update a r (results c1), last_result := Some a\<rparr>, m2)))"

definition sqlite_execute_batch ::
  "('w, 's) sq_env \<Rightarrow> sqlite_conn \<Rightarrow> string \<Rightarrow> 'w mach \<Rightarrow> int \<times> sqlite_conn \<times> 'w mach" where
  "sqlite_execute_batch E conn q m =
     (let h = the (sq_db conn) in
      case sq_exec E h q m of
        (Some (rc, err), m1) \<Rightarrow>
          (SQ_PORT_ABORTED,
           conn\<lparr>last_error := snprintf SQLITE_ERR_BUF (case err of None \<Rightarrow> ''batch failed'' | Some e \<Rightarrow> contents e),
                last_error_code := sqlite3_extended_errcode E h (ext m1)\<rparr>,
           cfree err m1)
      | (None, m1) \<Rightarrow>
          (case halloc () m1 of
             (None, m2) \<Rightarrow> (SQ_PORT_ABORTED, conn, m2)
           | (Some blk, m2) \<Rightarrow>
               (SQ_PORT_OK,
                conn\<lparr>results := AList.update (addr blk)
                       \<lparr>sr_col_count = 0, sr_row_count = 0, sr_affected_rows = 0, col_names = None,
                        cell_types = None, cell_lens = None, cell_data = None, sr_next = None\<rparr> (results conn),
                     last_result := Some (addr blk)\<rparr>, m2)))"

text \<open>Whitespace and separators between the statements of a multi-read.\<close>

definition skip_blanks :: "string \<Rightarrow> string" where
  "skip_blanks = dropWhile (\<lambda>b. b \<in> {CHR '' '', CHR 0x09, CHR 0x0A, CHR 0x0D, CHR '';''})"

fun sq_multi_loop ::
  "nat \<Rightarrow> ('w, 's) sq_env \<Rightarrow> sqlite_conn \<Rightarrow> string \<Rightarrow> (nat \<times> native_sqlite_result) list \<Rightarrow> nat option \<Rightarrow> nat option \<Rightarrow>
   'w mach \<Rightarrow> (int \<times> sqlite_conn \<times> (nat \<times> native_sqlite_result) list \<times> nat option \<times> 'w mach) option" where
  "sq_multi_loop 0 E conn cursor st head tail m = None"
| "sq_multi_loop (Suc f) E conn cursor st head tail m =
     (let h = the (sq_db conn); cursor1 = skip_blanks cursor in
      if cursor1 = [] then Some (SQ_PORT_OK, conn, st, head, m)
      else let (rc, stmt, used, m1) = sq_prepare E h cursor1 m; next = drop used cursor1 in
        if rc \<noteq> SQLITE_OK then
          (let (st1, m2) = sqlite_free_result_chain head st m1
           in Some (SQ_PORT_ABORTED, sqlite_set_error E h (ext m1) conn, st1, None, m2))
        else if stmt = None then sq_multi_loop f E conn next st head tail m1
        else (case materialize_stmt f E conn stmt m1 of
            None \<Rightarrow> None
          | Some (None, c1, m2) \<Rightarrow>
              (let (st1, m3) = sqlite_free_result_chain head st m2 in Some (SQ_PORT_ABORTED, c1, st1, None, m3))
          | Some (Some (a, r), c1, m2) \<Rightarrow>
              (let (head1, tail1, st1, m3) = link_node (\<lambda>p nd. nd\<lparr>sr_next := p\<rparr>) head tail a r st m2
               in sq_multi_loop f E c1 next st1 head1 tail1 m3)))"

definition sqlite_execute_multi_read ::
  "nat \<Rightarrow> ('w, 's) sq_env \<Rightarrow> sqlite_conn \<Rightarrow> string \<Rightarrow> 'w mach \<Rightarrow> (int \<times> sqlite_conn \<times> 'w mach) option" where
  "sqlite_execute_multi_read f E conn q m =
     (case sq_multi_loop f E conn q (results conn) None None m of
        None \<Rightarrow> None
      | Some (rc, c1, st, head, m1) \<Rightarrow>
          (if rc = SQ_PORT_ABORTED then Some (rc, c1\<lparr>results := st\<rparr>, m1)
           else Some (rc, c1\<lparr>results := st, last_result := head\<rparr>, m1)))"

section \<open>One round of the worker, and the caller's own thread\<close>

definition sqlite_clear_error :: "sqlite_conn \<Rightarrow> sqlite_conn" where
  "sqlite_clear_error conn = conn\<lparr>last_error := [], last_error_code := 0\<rparr>"

definition sqlite_worker_execute ::
  "nat \<Rightarrow> ('w, 's) sq_env \<Rightarrow> sqlite_conn \<Rightarrow> 'w mach \<Rightarrow> (int \<times> sqlite_conn \<times> 'w mach) option" where
  "sqlite_worker_execute f E c m =
     (let c1 = sqlite_clear_error c;
          (q, m1) = (case sql c of None \<Rightarrow> ([], m\<lparr>fault := True\<rparr>) | Some s \<Rightarrow> (c_string (contents s), m))
      in if is_multi_read c then sqlite_execute_multi_read f E c1 q m1
         else if is_batch c then Some (sqlite_execute_batch E c1 q m1)
         else sqlite_pool_execute_query f E c1 q m1)"

definition sqlite_worker_clear :: "sqlite_conn \<Rightarrow> 'w mach \<Rightarrow> sqlite_conn \<times> 'w mach" where
  "sqlite_worker_clear c m =
     (let m1 = mutex_lock (slot_mutex c) m;
          (c1, m2) = sqlite_pool_free_slot_payload c m1
      in (c1\<lparr>slot_filled := False\<rparr>, mutex_unlock (slot_mutex c) (cond_signal (slot_cond c) m2)))"

text \<open>What is left of the worker's thread once shutdown has been requested.\<close>

definition sqlite_worker_end ::
  "nat \<Rightarrow> ('w, 's) sq_env \<Rightarrow> sqlite_conn \<Rightarrow> 'w mach \<Rightarrow> (sqlite_conn \<times> 'w mach) option" where
  "sqlite_worker_end f E c m =
     (case worker_choose (slot_filled c) (shutdown_requested c) of
        Serve \<Rightarrow>
          (case sqlite_worker_execute f E c (mutex_unlock (slot_mutex c) (mutex_lock (slot_mutex c) m)) of
             None \<Rightarrow> None
           | Some (status, c1, m1) \<Rightarrow> Some (sqlite_worker_clear c1 m1))
      | _ \<Rightarrow> Some (c, m))"

definition sqlite_conn_exec_sync ::
  "nat \<Rightarrow> ('w, 's) sq_env \<Rightarrow> sqlite_conn option \<Rightarrow> string option \<Rightarrow> 'w mach \<Rightarrow>
   (int \<times> sqlite_conn option \<times> 'w mach) option" where
  "sqlite_conn_exec_sync f E conn q m =
     (case (conn, q) of
        (Some c, Some body) \<Rightarrow>
          (let m1 = mutex_lock (slot_mutex c) m in
           if slot_filled c \<or> shutdown_requested c then Some (0, conn, mutex_unlock (slot_mutex c) m1)
           else (case sqlite_pool_execute_query f E (sqlite_clear_error c) body m1 of
               None \<Rightarrow> None
             | Some (status, c1, m2) \<Rightarrow> Some (status, Some c1, mutex_unlock (slot_mutex c) m2)))
      | _ \<Rightarrow> Some (0, conn, m))"

end
