(* ===== verification/Sq_Rows.thy ===== *)
theory Sq_Rows
  imports Sq_Worker
begin

text \<open>
  The materialisation of a statement against what the library delivers. \<open>sq_rows\<close> is the
  specification: the rows in the order \<open>sqlite3_step\<close> gives them, each a list of cells. The
  parallel arrays hold them row by row, own exactly one block per cell and three for the
  arrays, and a failed allocation gives all of it back.
\<close>

section \<open>What the library delivers\<close>

text \<open>A cell: type, length, and bytes unless it is NULL.\<close>

type_synonym sq_cell = "int \<times> int \<times> string option"

definition cell_spec :: "('w, 's) sq_env \<Rightarrow> 's option \<Rightarrow> nat \<Rightarrow> 'w \<Rightarrow> sq_cell" where
  "cell_spec E s c w =
     (let ty = sqlite3_column_type E s c w in
      if ty = SQLITE_NULL then (ty, 0, None)
      else if ty = SQLITE_INTEGER then (ty, 8, Some (le_bytes (sqlite3_column_int64 E s c w)))
      else if ty = SQLITE_FLOAT then (ty, 8, Some (le_bytes (sqlite3_column_double E s c w)))
      else let b = sqlite3_column_blob E s c w in (ty, int (length b), Some b))"

text \<open>\<open>None\<close>: more than \<open>n\<close> steps. Otherwise the last code, the rows, and the world then.\<close>

fun sq_rows :: "nat \<Rightarrow> ('w, 's) sq_env \<Rightarrow> 's option \<Rightarrow> nat \<Rightarrow> 'w \<Rightarrow> (int \<times> sq_cell list list \<times> 'w) option" where
  "sq_rows 0 E s ncol w = None"
| "sq_rows (Suc n) E s ncol w =
     (case sqlite3_step E s w of (rc, w1) \<Rightarrow>
        if rc \<noteq> SQLITE_ROW then Some (rc, [], w1)
        else map_option (\<lambda>(c, rows, w2). (c, map (\<lambda>k. cell_spec E s k w1) [0..<ncol] # rows, w2))
               (sq_rows n E s ncol w1))"

text \<open>The table a client can read from a result.\<close>

record sq_table =
  t_cols :: nat
  t_rows :: nat
  t_affected :: int
  t_names :: "string option list"
  t_types :: "int list"
  t_lens :: "int list"
  t_data :: "string option list"

definition table_of :: "native_sqlite_result \<Rightarrow> sq_table" where
  "table_of r = (let n = sr_row_count r * sr_col_count r in
     \<lparr>t_cols = sr_col_count r, t_rows = sr_row_count r, t_affected = sr_affected_rows r,
      t_names = map (map_option contents) (take (sr_col_count r) (block (col_names r))),
      t_types = take n (block (cell_types r)), t_lens = take n (block (cell_lens r)),
      t_data = map (map_option contents) (take n (block (cell_data r)))\<rparr>)"

definition column_names :: "('w, 's) sq_env \<Rightarrow> 's option \<Rightarrow> nat \<Rightarrow> 'w \<Rightarrow> string list" where
  "column_names E s ncol w =
     map (\<lambda>c. case sqlite3_column_name E s c w of None \<Rightarrow> [] | Some n \<Rightarrow> n) [0..<ncol]"

definition spec_table :: "('w, 's) sq_env \<Rightarrow> nat \<Rightarrow> 's option \<Rightarrow> nat \<Rightarrow> sq_cell list list \<Rightarrow> 'w \<Rightarrow> sq_table" where
  "spec_table E h s ncol rows w =
     \<lparr>t_cols = ncol, t_rows = length rows, t_affected = sqlite3_changes E h w,
      t_names = map Some (column_names E s ncol w),
      t_types = map fst (concat rows), t_lens = map (fst \<circ> snd) (concat rows), t_data = map (snd \<circ> snd) (concat rows)\<rparr>"

text \<open>The outcome of one statement: \<open>Some None\<close> when the library reports an error.\<close>

definition sq_stmt_out ::
  "nat \<Rightarrow> ('w, 's) sq_env \<Rightarrow> nat \<Rightarrow> 's option \<Rightarrow> 'w \<Rightarrow> (sq_table option \<times> 'w) option" where
  "sq_stmt_out f E h s w =
     (let ncol = sqlite3_column_count E s w in
      case sq_rows f E s ncol w of
        None \<Rightarrow> None
      | Some (rc, rows, w1) \<Rightarrow>
          Some (if rc \<noteq> SQLITE_DONE then None else Some (spec_table E h s ncol rows w1), sqlite3_finalize E s w1))"

text \<open>
  A copy from which an allocation may be missing: a NULL where there should be bytes (an
  unchecked \<open>dup_cell\<close> or \<open>strdup\<close>), everything else as it should be.
\<close>

definition missing :: "'a option list \<Rightarrow> 'a option list \<Rightarrow> bool" where
  "missing xs ys \<longleftrightarrow> list_all2 (\<lambda>x y. x = None \<or> x = y) xs ys"

definition sq_agrees :: "sq_table \<Rightarrow> sq_table \<Rightarrow> bool" where
  "sq_agrees t u \<longleftrightarrow> t_cols t = t_cols u \<and> t_rows t = t_rows u \<and> t_affected t = t_affected u \<and>
     t_types t = t_types u \<and> t_lens t = t_lens u \<and> missing (t_names t) (t_names u) \<and> missing (t_data t) (t_data u)"

lemma missing_refl [simp]: "missing xs xs"
  by (simp add: missing_def list_all2_refl)

lemma missing_append: "missing xs ys \<Longrightarrow> missing zs ws \<Longrightarrow> missing (xs @ zs) (ys @ ws)"
  by (simp add: missing_def list_all2_appendI)

section \<open>Arrays of blocks\<close>

definition elem_ids :: "nat \<Rightarrow> 'a cell option list \<Rightarrow> nat list" where
  "elem_ids n xs = concat (map opt_ids (take n xs))"

lemma free_elems_eq: "n \<le> length xs \<Longrightarrow> free_elems n xs m = free_all (elem_ids n xs) m"
  by (simp add: free_elems_def read_array_enough fold_cfree elem_ids_def)

lemma elem_ids_0 [simp]: "elem_ids 0 xs = []"
  by (simp add: elem_ids_def)

lemma elem_ids_prefix: "take n xs = take n ys \<Longrightarrow> elem_ids n xs = elem_ids n ys"
  by (simp add: elem_ids_def)

lemma elem_ids_put: "n < length xs \<Longrightarrow> elem_ids (Suc n) (xs[n := d]) = elem_ids n xs @ opt_ids d"
  by (simp add: elem_ids_def take_Suc_conv_app_nth)

definition ar_ids :: "nat \<Rightarrow> sq_arrays \<Rightarrow> nat list" where
  "ar_ids n ar = elem_ids n (block (ar_data ar)) @ opt_ids (ar_data ar) @ opt_ids (ar_lens ar) @ opt_ids (ar_types ar)"

lemma acquired_mset: "acquired m xs m' \<Longrightarrow> mset ys = mset xs \<Longrightarrow> acquired m ys m'"
  using acquired_perm [of m xs m' ys] mset_eq_setD [of ys xs] mset_eq_imp_distinct_iff [of ys xs]
  by (auto simp: acquired_def)

lemma acquired_free_tail: "ledger_ok m \<Longrightarrow> acquired m (xs @ ys) m' \<Longrightarrow> acquired m xs (free_all ys m')"
proof -
  assume ok: "ledger_ok m" and acq: "acquired m (xs @ ys) m'"
  then have "distinct ys" "filter (\<lambda>x. x \<notin> set ys) (xs @ ys) = xs"
    by (auto simp: acquired_def filter_empty_conv filter_id_conv)
  with acquired_free_all [OF ok acq, of ys] show ?thesis by simp
qed

lemma free_cells_acquired:
  assumes ok: "ledger_ok m0" and acq: "acquired m0 (zs @ ar_ids n ar) m"
    and len: "ar_data ar = None \<or> n \<le> length (block (ar_data ar))"
  shows "acquired m0 zs (free_cells ar n m)"
proof -
  let ?e = "if ar_data ar = None then [] else elem_ids n (block (ar_data ar))"
  have "?e = elem_ids n (block (ar_data ar))" by (simp add: elem_ids_def)
  then have "acquired m0 (zs @ (?e @ opt_ids (ar_types ar) @ opt_ids (ar_lens ar) @ opt_ids (ar_data ar))) m"
    by (intro acquired_mset [OF acq]) (simp add: ar_ids_def)
  from acquired_free_tail [OF ok this] len show ?thesis
    by (auto simp: free_cells_def free_elems_eq cfree_free_all free_all_append Let_def)
qed

subsection \<open>Growing\<close>

lemma realloc_cases:
  assumes ok: "ledger_ok m0" and acq: "acquired m0 (zs @ opt_ids p) m" and run: "realloc p n junk m = (q, m')"
  shows "acquired m0 (zs @ opt_ids (if q = None \<and> 0 < n then p else q)) m' \<and> ext m' = ext m \<and>
    (oom m = [] \<longrightarrow> oom m' = [] \<and> (0 < n \<longrightarrow> q \<noteq> None)) \<and>
    (\<forall>c. q = Some c \<longrightarrow> contents c = take n (block p @ replicate n junk))"
proof (cases "n = 0 \<and> p \<noteq> None")
  case True
  then have q: "q = None" "m' = free_all (opt_ids p) m" using run by (auto simp: realloc_def cfree_free_all)
  from acquired_free_tail [OF ok acq] True show ?thesis unfolding q by (simp add: free_all_frame)
next
  case False
  obtain k m1 where h: "halloc (take n (block p @ replicate n junk)) m = (k, m1)"
    by (cases "halloc (take n (block p @ replicate n junk)) m")
  have e: "ext m1 = ext m" using halloc_frame [OF h] by simp
  have o: "oom m = [] \<Longrightarrow> oom m1 = [] \<and> k \<noteq> None"
    using halloc_plenty [of m "take n (block p @ replicate n junk)"] h by auto
  show ?thesis
  proof (cases k)
    case None
    have a: "acquired m0 (zs @ opt_ids p) m1"
      using acquired_trans [OF acq halloc_None [OF h [unfolded None]]] by simp
    have "q = None \<and> m' = m1" using run False h None by (auto simp: realloc_def simp del: take_append)
    with a e o None False show ?thesis by auto
  next
    case (Some c)
    have a: "acquired m0 ((zs @ [addr c]) @ opt_ids p) m1"
      using acquired_trans [OF acq] halloc_Some [OF h [unfolded Some]] by (fastforce intro: acquired_mset)
    have "q = Some c \<and> m' = free_all (opt_ids p) m1" using run False h Some by (auto simp: realloc_def cfree_free_all simp del: take_append)
    with acquired_free_tail [OF ok a] e o halloc_Some [OF h [unfolded Some]] Some show ?thesis
      by (simp add: ledger)
  qed
qed

text \<open>The arrays between two steps: \<open>cap\<close> rows of room, \<open>nrows\<close> of them used.\<close>

definition arrays_ok :: "nat \<Rightarrow> nat \<Rightarrow> nat \<Rightarrow> sq_arrays \<Rightarrow> bool" where
  "arrays_ok ncol nrows cap ar \<longleftrightarrow> nrows \<le> cap \<and>
     (0 < ncol \<longrightarrow> (if cap = 0 then ar_types ar = None \<and> ar_lens ar = None \<and> ar_data ar = None
        else (\<exists>t l d. ar_types ar = Some t \<and> ar_lens ar = Some l \<and> ar_data ar = Some d \<and>
          length (contents t) = cap * ncol \<and> length (contents l) = cap * ncol \<and> length (contents d) = cap * ncol)))"

lemma arrays_ok_room:
  assumes "arrays_ok ncol nrows cap ar"
  shows "nrows * ncol \<le> length (block (ar_types ar))" "nrows * ncol \<le> length (block (ar_lens ar))"
    "nrows * ncol \<le> length (block (ar_data ar))"
  using assms by (cases "ncol = 0"; cases "cap = 0"; auto simp: arrays_ok_def mult_le_mono1)+

lemma arrays_ok_used: "arrays_ok ncol nrows cap ar \<Longrightarrow> k \<le> cap \<Longrightarrow> arrays_ok ncol k cap ar"
  unfolding arrays_ok_def by (elim conjE) simp

text \<open>The first cells of the arrays are the ones read so far.\<close>

definition holds_cells :: "bool \<Rightarrow> sq_cell list \<Rightarrow> sq_arrays \<Rightarrow> bool" where
  "holds_cells plenty cs ar \<longleftrightarrow> (let n = length cs; bs = map (map_option contents) (take n (block (ar_data ar))) in
     take n (block (ar_types ar)) = map fst cs \<and> take n (block (ar_lens ar)) = map (fst \<circ> snd) cs \<and>
     missing bs (map (snd \<circ> snd) cs) \<and> (plenty \<longrightarrow> bs = map (snd \<circ> snd) cs))"

lemma holds_cells_Nil [simp]: "holds_cells b [] ar"
  by (simp add: holds_cells_def)

lemma holds_cells_prefix:
  "holds_cells b cs ar \<Longrightarrow> take (length cs) (block (ar_types ar')) = take (length cs) (block (ar_types ar)) \<Longrightarrow>
   take (length cs) (block (ar_lens ar')) = take (length cs) (block (ar_lens ar)) \<Longrightarrow>
   take (length cs) (block (ar_data ar')) = take (length cs) (block (ar_data ar)) \<Longrightarrow> holds_cells b cs ar'"
  by (simp add: holds_cells_def)


lemma realloc_block:
  assumes "realloc p n junk m = (q, m')" "k \<le> n" "k \<le> length (block p)" "0 < n"
  shows "take k (block (if q = None then p else q)) = take k (block p)"
proof (cases q)
  case (Some c)
  with assms(1,4) have "contents c = take n (block p @ replicate n junk)"
    by (auto simp: realloc_def simp del: take_append dest!: halloc_Some split: prod.splits option.splits if_splits)
  with Some assms show ?thesis by (simp add: min_absorb1)
qed simp

lemma realloc_length: "realloc p n junk m = (q, m') \<Longrightarrow> 0 < n \<Longrightarrow> q = Some c \<Longrightarrow> length (contents c) = n"
  by (auto simp: realloc_def simp del: take_append dest!: halloc_Some split: prod.splits option.splits if_splits)

text \<open>Whatever \<open>grow_arrays\<close> leaves, to be freed or kept, owns the same cells as before.\<close>

lemma grow_arrays_acquired:
  assumes ok: "ledger_ok m0" and acq: "acquired m0 (zs @ ar_ids k ar) m"
    and k: "k \<le> newcap * ncol" "k \<le> length (block (ar_data ar))" and cap: "0 < newcap"
    and run: "grow_arrays newcap ncol ar m = (g, m')"
  shows "acquired m0 (zs @ ar_ids k (case g of Inl x \<Rightarrow> x | Inr x \<Rightarrow> x)) m' \<and> ext m' = ext m \<and>
    (oom m = [] \<longrightarrow> oom m' = [] \<and> (\<exists>x. g = Inr x))"
proof -
  let ?n = "newcap * ncol"
  obtain t m1 where t: "realloc (ar_types ar) ?n 0 m = (t, m1)" by (cases "realloc (ar_types ar) ?n 0 m")
  obtain l m2 where l: "realloc (ar_lens ar) ?n 0 m1 = (l, m2)" by (cases "realloc (ar_lens ar) ?n 0 m1")
  obtain d m3 where d: "realloc (ar_data ar) ?n None m2 = (d, m3)" by (cases "realloc (ar_data ar) ?n None m2")
  let ?e = "elem_ids k (block (ar_data ar))"
  let ?t = "if t = None \<and> 0 < ?n then ar_types ar else t"
  let ?l = "if l = None \<and> 0 < ?n then ar_lens ar else l"
  let ?d = "if d = None \<and> 0 < ?n then ar_data ar else d"
  have "acquired m0 ((zs @ ?e @ opt_ids (ar_data ar) @ opt_ids (ar_lens ar)) @ opt_ids (ar_types ar)) m"
    by (rule acquired_mset [OF acq]) (simp add: ar_ids_def)
  note a = realloc_cases [OF ok this t]
  have "acquired m0 ((zs @ ?e @ opt_ids (ar_data ar) @ opt_ids ?t) @ opt_ids (ar_lens ar)) m1"
    by (rule acquired_mset [OF conjunct1 [OF a]]) simp
  note b = realloc_cases [OF ok this l]
  have "acquired m0 ((zs @ ?e @ opt_ids ?l @ opt_ids ?t) @ opt_ids (ar_data ar)) m2"
    by (rule acquired_mset [OF conjunct1 [OF b]]) simp
  note c = realloc_cases [OF ok this d]
  have e: "elem_ids k (block ?d) = ?e"
    using k realloc_block [OF d k] by (cases "?n = 0") (auto intro: elem_ids_prefix)
  have "acquired m0 (zs @ elem_ids k (block ?d) @ opt_ids ?d @ opt_ids ?l @ opt_ids ?t) m3"
    unfolding e by (rule acquired_mset [OF conjunct1 [OF c]]) simp
  moreover have "(case g of Inl x \<Rightarrow> x | Inr x \<Rightarrow> x) = \<lparr>ar_types = ?t, ar_lens = ?l, ar_data = ?d\<rparr>" "m' = m3"
    using run t l d cap by (auto simp: grow_arrays_def split: if_splits)
  moreover have "oom m = [] \<longrightarrow> oom m3 = [] \<and> (\<exists>x. g = Inr x)"
    using run t l d cap a b c by (auto simp: grow_arrays_def split: if_splits)
  ultimately show ?thesis using a b c by (simp add: ar_ids_def)
qed

lemma grow_arrays_room:
  assumes ar: "arrays_ok ncol nrows nrows ar" and cap: "nrows < newcap"
    and run: "grow_arrays newcap ncol ar m = (g, m')"
  shows "case g of Inl x \<Rightarrow> nrows * ncol \<le> length (block (ar_data x))
    | Inr x \<Rightarrow> arrays_ok ncol nrows newcap x \<and> (\<forall>b cs. length cs = nrows * ncol \<longrightarrow> holds_cells b cs ar \<longrightarrow> holds_cells b cs x)"
proof (cases "ncol = 0")
  case True
  with cap show ?thesis by (auto simp: arrays_ok_def split: sum.splits)
next
  case False
  let ?n = "newcap * ncol" and ?k = "nrows * ncol"
  have k: "?k \<le> ?n" "0 < ?n" using cap False by auto
  obtain t m1 where t: "realloc (ar_types ar) ?n 0 m = (t, m1)" by (cases "realloc (ar_types ar) ?n 0 m")
  obtain l m2 where l: "realloc (ar_lens ar) ?n 0 m1 = (l, m2)" by (cases "realloc (ar_lens ar) ?n 0 m1")
  obtain d m3 where d: "realloc (ar_data ar) ?n None m2 = (d, m3)" by (cases "realloc (ar_data ar) ?n None m2")
  note room = arrays_ok_room [OF ar]
  note keep = realloc_block [OF t k(1) room(1) k(2)] realloc_block [OF l k(1) room(2) k(2)]
    realloc_block [OF d k(1) room(3) k(2)]
  have len: "\<And>c. t = Some c \<Longrightarrow> length (contents c) = ?n" "\<And>c. l = Some c \<Longrightarrow> length (contents c) = ?n"
    "\<And>c. d = Some c \<Longrightarrow> length (contents c) = ?n"
    using realloc_length [OF t k(2)] realloc_length [OF l k(2)] realloc_length [OF d k(2)] by auto
  show ?thesis
  proof (cases g)
    case (Inl x)
    with run t l d room(3) len(3) k(1) show ?thesis by (cases d) (auto simp: grow_arrays_def split: if_splits)
  next
    case (Inr x)
    with run t l d False obtain t' l' d' where x: "t = Some t'" "l = Some l'" "d = Some d'"
      "x = \<lparr>ar_types = t, ar_lens = l, ar_data = d\<rparr>" by (auto simp: grow_arrays_def split: if_splits)
    with keep have "holds_cells b cs x" if "holds_cells b cs ar" "length cs = nrows * ncol" for b cs
      by (intro holds_cells_prefix [OF that(1)]) (simp_all add: that)
    with Inr x len cap show ?thesis by (simp add: arrays_ok_def)
  qed
qed

subsection \<open>Storing a row\<close>

lemma read_cell_law:
  "read_cell E s c m = (ty, len, d, m') \<Longrightarrow> acquired m (opt_ids d) m' \<and> ext m' = ext m \<and>
   (oom m = [] \<longrightarrow> oom m' = []) \<and>
   (\<exists>v. cell_spec E s c (ext m) = (ty, len, v) \<and> (d = None \<or> map_option contents d = v) \<and>
      (oom m = [] \<longrightarrow> map_option contents d = v))"
proof -
  have dup: "acquired m (opt_ids d) m' \<and> ext m' = ext m \<and> (oom m = [] \<longrightarrow> oom m' = [] \<and> d \<noteq> None) \<and>
      (d = None \<or> map_option contents d = Some b)" if "halloc b m = (d, m')" for b d m'
    using that halloc_frame [OF that] halloc_plenty [of m b] halloc_Some [of b m _ m'] halloc_None [of b m m']
    by (cases d) auto
  show "read_cell E s c m = (ty, len, d, m') \<Longrightarrow> ?thesis"
    by (fastforce simp: read_cell_def dup_cell_def cell_spec_def Let_def split: if_splits prod.splits dest!: dup)
qed

text \<open>One cell written behind the \<open>length cs\<close> that are there.\<close>

lemma store_cell:
  assumes room: "length cs < length (block (ar_types ar))" "length cs < length (block (ar_lens ar))"
      "length cs < length (block (ar_data ar))"
    and cs: "holds_cells b cs ar" and d: "d = None \<or> map_option contents d = v" "b \<longrightarrow> map_option contents d = v"
  shows "\<exists>t l p. put_at (ar_types ar) (length cs) ty m = (t, m) \<and> put_at (ar_data ar) (length cs) d m = (p, m) \<and>
    put_at (ar_lens ar) (length cs) n m = (l, m) \<and>
    (let x = \<lparr>ar_types = t, ar_lens = l, ar_data = p\<rparr> in
      holds_cells b (cs @ [(ty, n, v)]) x \<and> ar_ids (Suc (length cs)) x = elem_ids (length cs) (block (ar_data ar)) @
        opt_ids d @ opt_ids (ar_data ar) @ opt_ids (ar_lens ar) @ opt_ids (ar_types ar) \<and>
      (arrays_ok ncol nrows cap ar \<longrightarrow> arrays_ok ncol nrows cap x))"
proof -
  from room obtain t l p where x: "ar_types ar = Some t" "ar_lens ar = Some l" "ar_data ar = Some p"
    by (cases "ar_types ar"; cases "ar_lens ar"; cases "ar_data ar") auto
  with room have k: "length cs < length (contents t)" "length cs < length (contents l)" "length cs < length (contents p)"
    by simp_all
  have h: "holds_cells b (cs @ [(ty, n, v)])
     \<lparr>ar_types = Some (Cell (addr t) ((contents t)[length cs := ty])), ar_lens = Some (Cell (addr l) ((contents l)[length cs := n])),
      ar_data = Some (Cell (addr p) ((contents p)[length cs := d]))\<rparr>"
    using cs d k by (auto simp: holds_cells_def x take_Suc_conv_app_nth missing_def list_all2_append Let_def intro!: list_all2_appendI)
  show ?thesis
    using k h by (simp add: put_at_def x ar_ids_def elem_ids_put arrays_ok_def Let_def)
qed

lemma arrays_ok_index:
  assumes "arrays_ok ncol nrows cap ar" "nrows < cap" "c < ncol"
  shows "nrows * ncol + c < length (block (ar_types ar))" "nrows * ncol + c < length (block (ar_lens ar))"
    "nrows * ncol + c < length (block (ar_data ar))"
proof -
  have "Suc nrows * ncol \<le> cap * ncol" using assms(2) by (intro mult_le_mono1) simp
  then have "nrows * ncol + c < cap * ncol" using assms(3) by simp
  with assms show "nrows * ncol + c < length (block (ar_types ar))" "nrows * ncol + c < length (block (ar_lens ar))"
    "nrows * ncol + c < length (block (ar_data ar))" by (auto simp: arrays_ok_def)
qed

lemma store_row_law:
  "store_row E s ncol nrows c k ar m = (ar', m') \<Longrightarrow> c + k = ncol \<Longrightarrow> nrows < cap \<Longrightarrow> arrays_ok ncol nrows cap ar \<Longrightarrow>
   length cs = nrows * ncol + c \<Longrightarrow> holds_cells b cs ar \<Longrightarrow> acquired m0 (zs @ ar_ids (length cs) ar) m \<Longrightarrow>
   (b \<longrightarrow> oom m = []) \<Longrightarrow>
   arrays_ok ncol nrows cap ar' \<and> ext m' = ext m \<and> (b \<longrightarrow> oom m' = []) \<and>
   holds_cells b (cs @ map (\<lambda>i. cell_spec E s i (ext m)) [c..<ncol]) ar' \<and>
   acquired m0 (zs @ ar_ids (nrows * ncol + ncol) ar') m'"
proof (induction k arbitrary: c cs ar m)
  case 0
  then show ?case by simp
next
  case (Suc k)
  obtain ty len d m1 where r: "read_cell E s c m = (ty, len, d, m1)" by (cases "read_cell E s c m")
  note rc = read_cell_law [OF r]
  then obtain v where v: "cell_spec E s c (ext m) = (ty, len, v)" "d = None \<or> map_option contents d = v"
    "oom m = [] \<longrightarrow> map_option contents d = v" by blast
  have "c < ncol" using Suc.prems(2) by simp
  note room = arrays_ok_index [OF Suc.prems(4,3) this, folded Suc.prems(5)]
  have "b \<longrightarrow> map_option contents d = v" using v(3) Suc.prems(8) by simp
  from store_cell [OF room Suc.prems(6) v(2) this, of ty m1 len ncol nrows cap] Suc.prems(4)
  obtain t l p where puts: "put_at (ar_types ar) (length cs) ty m1 = (t, m1)" "put_at (ar_data ar) (length cs) d m1 = (p, m1)"
      "put_at (ar_lens ar) (length cs) len m1 = (l, m1)"
    and cs: "holds_cells b (cs @ [(ty, len, v)]) \<lparr>ar_types = t, ar_lens = l, ar_data = p\<rparr>"
    and ids: "ar_ids (Suc (length cs)) \<lparr>ar_types = t, ar_lens = l, ar_data = p\<rparr> = elem_ids (length cs) (block (ar_data ar)) @
        opt_ids d @ opt_ids (ar_data ar) @ opt_ids (ar_lens ar) @ opt_ids (ar_types ar)"
    and ok: "arrays_ok ncol nrows cap \<lparr>ar_types = t, ar_lens = l, ar_data = p\<rparr>"
    by (auto simp: Let_def)
  have run: "store_row E s ncol nrows (Suc c) k \<lparr>ar_types = t, ar_lens = l, ar_data = p\<rparr> m1 = (ar', m')"
    using Suc.prems(1) r puts by (simp add: Suc.prems(5) Let_def)
  have "acquired m0 (zs @ ar_ids (Suc (length cs)) \<lparr>ar_types = t, ar_lens = l, ar_data = p\<rparr>) m1"
    using acquired_trans [OF Suc.prems(7) conjunct1 [OF rc]] unfolding ids by (rule acquired_mset) (simp add: ar_ids_def)
  from Suc.IH [OF run _ Suc.prems(3) ok _ cs] this Suc.prems(2,5,8) rc
  have "arrays_ok ncol nrows cap ar' \<and> ext m' = ext m1 \<and> (b \<longrightarrow> oom m' = []) \<and>
    holds_cells b ((cs @ [(ty, len, v)]) @ map (\<lambda>i. cell_spec E s i (ext m1)) [Suc c..<ncol]) ar' \<and>
    acquired m0 (zs @ ar_ids (nrows * ncol + ncol) ar') m'" by simp
  moreover have "[c..<ncol] = c # [Suc c..<ncol]" using \<open>c < ncol\<close> by (rule upt_conv_Cons)
  ultimately show ?case using rc v(1) by simp
qed

section \<open>Stepping\<close>

lemma sq_rows_length: "sq_rows f E s ncol w = Some (rc, rows, w') \<Longrightarrow> length (concat rows) = length rows * ncol"
  by (induction f arbitrary: w rc rows w') (auto split: prod.splits if_splits)

lemma room_for_row:
  assumes ok: "ledger_ok m0" and ar: "arrays_ok ncol nrows cap ar" and len: "length cs = nrows * ncol"
    and cs: "holds_cells b cs ar" and acq: "acquired m0 (zs @ ar_ids (nrows * ncol) ar) m" and b: "b \<longrightarrow> oom m = []"
    and g: "(if nrows = cap then grow_arrays (if cap = 0 then 8 else cap * 2) ncol ar m else (Inr ar, m)) = (g, m')"
  shows "acquired m0 (zs @ ar_ids (nrows * ncol) (case g of Inl x \<Rightarrow> x | Inr x \<Rightarrow> x)) m' \<and> ext m' = ext m \<and>
    (b \<longrightarrow> oom m' = [] \<and> (\<exists>x. g = Inr x)) \<and>
    (case g of Inl x \<Rightarrow> nrows * ncol \<le> length (block (ar_data x))
     | Inr x \<Rightarrow> (let cap' = if nrows = cap then if cap = 0 then 8 else cap * 2 else cap in
         arrays_ok ncol nrows cap' x \<and> nrows < cap' \<and> holds_cells b cs x))"
proof (cases "nrows = cap")
  case True
  let ?newcap = "if cap = 0 then 8 else cap * 2"
  from True g have gr: "grow_arrays ?newcap ncol ar m = (g, m')" by simp
  have lt: "nrows < ?newcap" using True by simp
  have le: "nrows * ncol \<le> ?newcap * ncol" using lt by (intro mult_le_mono1) simp
  have ar': "arrays_ok ncol nrows nrows ar" using ar True by simp
  from grow_arrays_acquired [OF ok acq le arrays_ok_room(3) [OF ar] _ gr]
    grow_arrays_room [OF ar' lt gr] len cs b lt True
  show ?thesis by (auto simp: Let_def split: sum.splits)
next
  case False
  with g ar cs acq b show ?thesis by (auto simp: arrays_ok_def Let_def)
qed

text \<open>
  The arrays after the loop: the cells of the rows delivered so far, or what is left when
  memory ran out, which does not happen with plenty of it (\<open>b\<close>).
\<close>

lemma row_added:
  assumes row: "store_row E s ncol nrows 0 ncol ar m = (ar', m')"
    and ar: "arrays_ok ncol nrows cap ar" "nrows < cap" "holds_cells b cs ar" "length cs = nrows * ncol"
    and acq: "acquired m0 (zs @ ar_ids (nrows * ncol) ar) m" and b: "b \<longrightarrow> oom m = []"
  defines "new \<equiv> map (\<lambda>i. cell_spec E s i (ext m)) [0..<ncol]"
  shows "arrays_ok ncol (Suc nrows) cap ar'" "ext m' = ext m" "b \<longrightarrow> oom m' = []" "holds_cells b (cs @ new) ar'"
    "acquired m0 (zs @ ar_ids (Suc nrows * ncol) ar') m'" "length (cs @ new) = Suc nrows * ncol"
proof -
  have len: "length cs = nrows * ncol + 0" using ar(4) by simp
  from store_row_law [OF row _ ar(2,1) len ar(3) _ b] acq ar(4)
  have n: "arrays_ok ncol nrows cap ar'" "ext m' = ext m" "b \<longrightarrow> oom m' = []" "holds_cells b (cs @ new) ar'"
    "acquired m0 (zs @ ar_ids (nrows * ncol + ncol) ar') m'" by (simp_all add: new_def)
  then show "ext m' = ext m" "b \<longrightarrow> oom m' = []" "holds_cells b (cs @ new) ar'" by simp_all
  show "arrays_ok ncol (Suc nrows) cap ar'" using ar(2) by (intro arrays_ok_used [OF n(1)]) simp
  show "acquired m0 (zs @ ar_ids (Suc nrows * ncol) ar') m'" using n(5) by (simp add: add.commute)
  show "length (cs @ new) = Suc nrows * ncol" using ar(4) by (simp add: new_def)
qed

lemma step_rows_law:
  "step_rows f E s ncol ar nrows cap m = Some (r, ar', nrows', m') \<Longrightarrow> ledger_ok m0 \<Longrightarrow> arrays_ok ncol nrows cap ar \<Longrightarrow>
   length cs = nrows * ncol \<Longrightarrow> holds_cells b cs ar \<Longrightarrow> acquired m0 (zs @ ar_ids (nrows * ncol) ar) m \<Longrightarrow>
   (b \<longrightarrow> oom m = []) \<Longrightarrow>
   (b \<longrightarrow> oom m' = []) \<and> acquired m0 (zs @ ar_ids (nrows' * ncol) ar') m' \<and> nrows' * ncol \<le> length (block (ar_data ar')) \<and>
   (case r of None \<Rightarrow> \<not> b
    | Some rc \<Rightarrow> \<exists>rows. sq_rows f E s ncol (ext m) = Some (rc, rows, ext m') \<and> nrows' = nrows + length rows \<and>
        nrows' * ncol \<le> length (block (ar_types ar')) \<and> nrows' * ncol \<le> length (block (ar_lens ar')) \<and>
        holds_cells b (cs @ concat rows) ar')"
proof (induction f arbitrary: ar nrows cap m cs)
  case 0
  then show ?case by simp
next
  case (Suc f)
  obtain rc w where st: "sqlite3_step E s (ext m) = (rc, w)" by (cases "sqlite3_step E s (ext m)")
  let ?m1 = "m\<lparr>ext := w\<rparr>"
  show ?case
  proof (cases "rc = SQLITE_ROW")
    case False
    with Suc.prems st arrays_ok_room [OF Suc.prems(3)] show ?thesis by auto
  next
    case True
    let ?newcap = "if cap = 0 then 8 else cap * 2"
    obtain g m2 where g: "(if nrows = cap then grow_arrays ?newcap ncol ar ?m1 else (Inr ar, ?m1)) = (g, m2)"
      by (cases "if nrows = cap then grow_arrays ?newcap ncol ar ?m1 else (Inr ar, ?m1)")
    let ?cap = "if nrows = cap then ?newcap else cap"
    have "sqlite3_step E s (ext m) = (rc, w) \<Longrightarrow> acquired m0 (zs @ ar_ids (nrows * ncol) ar) ?m1" "b \<longrightarrow> oom ?m1 = []"
      using Suc.prems(6,7) by simp_all
    note grown = room_for_row [OF Suc.prems(2,3,4,5) this(1) [OF st] this(2) g]
    show ?thesis
    proof (cases g)
      case (Inl x)
      with Suc.prems(1) st True g have "r = None" "ar' = x" "nrows' = nrows" "m' = m2"
        by (auto simp: Let_def simp del: split_paired_Ex split: prod.splits)
      with grown Inl show ?thesis by auto
    next
      case (Inr x)
      obtain ar2 m3 where row: "store_row E s ncol nrows 0 ncol x m2 = (ar2, m3)" by (cases "store_row E s ncol nrows 0 ncol x m2")
      with Suc.prems(1) st True g Inr
      have more: "step_rows f E s ncol ar2 (Suc nrows) ?cap m3 = Some (r, ar', nrows', m')"
        by (auto simp: Let_def split: prod.splits)
      let ?new = "map (\<lambda>i. cell_spec E s i w) [0..<ncol]"
      from grown Inr have x: "arrays_ok ncol nrows ?cap x" "nrows < ?cap" "holds_cells b cs x"
        "acquired m0 (zs @ ar_ids (nrows * ncol) x) m2" "ext m2 = w" "b \<longrightarrow> oom m2 = []" by (auto simp: Let_def)
      note new = row_added [OF row x(1,2,3) Suc.prems(4) x(4,6), unfolded x(5)]
      have ih: "(b \<longrightarrow> oom m' = []) \<and> acquired m0 (zs @ ar_ids (nrows' * ncol) ar') m' \<and>
        nrows' * ncol \<le> length (block (ar_data ar')) \<and>
        (case r of None \<Rightarrow> \<not> b
         | Some rc \<Rightarrow> \<exists>rows. sq_rows f E s ncol w = Some (rc, rows, ext m') \<and> nrows' = Suc nrows + length rows \<and>
           nrows' * ncol \<le> length (block (ar_types ar')) \<and> nrows' * ncol \<le> length (block (ar_lens ar')) \<and>
           holds_cells b ((cs @ ?new) @ concat rows) ar')"
        using Suc.IH [OF more Suc.prems(2) new(1,6,4,5,3)] new(2) by (simp split: option.splits)
      show ?thesis
      proof (cases r)
        case None
        with ih show ?thesis by simp
      next
        case (Some code)
        with ih obtain rows where "sq_rows f E s ncol w = Some (code, rows, ext m')" "nrows' = Suc nrows + length rows"
          "holds_cells b (cs @ concat (?new # rows)) ar'" "nrows' * ncol \<le> length (block (ar_types ar'))"
          "nrows' * ncol \<le> length (block (ar_lens ar'))" by auto
        moreover from this st True have "sq_rows (Suc f) E s ncol (ext m) = Some (code, ?new # rows, ext m')" by simp
        ultimately show ?thesis using ih Some by (intro conjI) auto
      qed
    qed
  qed
qed

text \<open>The loop ends when the library's rows do, whatever allocations fail.\<close>

lemma realloc_ext: "realloc p n junk m = (q, m') \<Longrightarrow> ext m' = ext m"
  by (auto simp: realloc_def cfree_def rfree_frame dest!: halloc_frame split: if_splits prod.splits option.splits)

lemma grow_arrays_ext: "grow_arrays k ncol ar m = (g, m') \<Longrightarrow> ext m' = ext m"
  by (auto simp: grow_arrays_def Let_def dest!: realloc_ext split: prod.splits if_splits)

lemma put_at_ext: "put_at p i v m = (q, m') \<Longrightarrow> ext m' = ext m"
  by (auto simp: put_at_def split: option.splits if_splits)

lemma store_row_ext: "store_row E s ncol nrows c k ar m = (ar', m') \<Longrightarrow> ext m' = ext m"
proof (induction k arbitrary: c ar m)
  case 0
  then show ?case by simp
next
  case (Suc k)
  from Suc.prems show ?case
    by (auto simp: Let_def dest!: Suc.IH put_at_ext dest: read_cell_law split: prod.splits)
qed

lemma step_rows_returns: "sq_rows f E s ncol (ext m) \<noteq> None \<Longrightarrow> step_rows f E s ncol ar nrows cap m \<noteq> None"
proof (induction f arbitrary: ar nrows cap m)
  case 0
  then show ?case by simp
next
  case (Suc f)
  obtain rc w where st: "sqlite3_step E s (ext m) = (rc, w)" by (cases "sqlite3_step E s (ext m)")
  show ?case
  proof (cases "rc = SQLITE_ROW")
    case True
    with Suc.prems st have more: "sq_rows f E s ncol w \<noteq> None" by auto
    have "step_rows f E s ncol ar2 k cap2 m2 \<noteq> None" if "ext m2 = w" for ar2 k cap2 m2
      using Suc.IH [of m2] more that by simp
    with True st show ?thesis
      by (auto simp: Let_def dest!: grow_arrays_ext store_row_ext split: prod.splits sum.splits if_splits)
  qed (use st in simp)
qed

section \<open>A statement\<close>

lemma dup_names_law:
  "dup_names ss m = (ds, m') \<Longrightarrow> acquired m (concat (map opt_ids ds)) m' \<and> ext m' = ext m \<and> length ds = length ss \<and>
   missing (map (map_option contents) ds) (map Some ss) \<and>
   (oom m = [] \<longrightarrow> oom m' = [] \<and> map (map_option contents) ds = map Some ss)"
proof (induction ss arbitrary: m ds m')
  case Nil
  then show ?case by simp
next
  case (Cons s ss)
  obtain d m1 where d: "halloc s m = (d, m1)" by (cases "halloc s m")
  obtain es m2 where es: "dup_names ss m1 = (es, m2)" by (cases "dup_names ss m1")
  from Cons.prems d es have ds: "ds = d # es" "m' = m2" by simp_all
  have "acquired m (opt_ids d) m1" "d = None \<or> map_option contents d = Some s"
    using d halloc_Some [of s m _ m1] halloc_None [of s m m1] by (cases d; simp)+
  moreover have "ext m1 = ext m" "oom m = [] \<longrightarrow> oom m1 = [] \<and> d \<noteq> None"
    using halloc_frame [OF d] halloc_plenty [of m s] d by auto
  ultimately show ?case
    using Cons.IH [OF es] acquired_trans [of m "opt_ids d" m1 _ m2] by (auto simp: ds missing_def)
qed

definition name_ids :: "nat \<Rightarrow> string cell option list cell option \<Rightarrow> nat list" where
  "name_ids ncol names = elem_ids ncol (block names) @ opt_ids names"

lemma copy_names_law:
  assumes "copy_names E s ncol m = Some (names, m')"
  shows "acquired m (name_ids ncol names) m' \<and> ext m' = ext m \<and> length (block names) = ncol \<and>
    missing (map (map_option contents) (block names)) (map Some (column_names E s ncol (ext m))) \<and>
    (oom m = [] \<longrightarrow> oom m' = [] \<and> map (map_option contents) (block names) = map Some (column_names E s ncol (ext m)))"
proof (cases "ncol = 0")
  case True
  with assms show ?thesis by (auto simp: copy_names_def name_ids_def column_names_def)
next
  case False
  with assms obtain blk m1 where blk: "halloc () m = (Some blk, m1)"
    by (auto simp: copy_names_def split: prod.splits option.splits)
  have e: "ext m1 = ext m" using halloc_frame [OF blk] by simp
  obtain ds m2 where ds: "dup_names (column_names E s ncol (ext m)) m1 = (ds, m2)"
    by (cases "dup_names (column_names E s ncol (ext m)) m1")
  with assms False blk e have n: "names = Some (Cell (addr blk) ds)" "m' = m2"
    by (auto simp: copy_names_def column_names_def)
  have "acquired m (concat (map opt_ids ds) @ [addr blk]) m'"
    unfolding n(2) using halloc_Some [OF blk] dup_names_law [OF ds]
    by (intro acquired_mset [OF acquired_trans [of m "[addr blk]" m1 "concat (map opt_ids ds)" m2]]) simp_all
  moreover have "oom m = [] \<longrightarrow> oom m1 = []" using halloc_plenty [of m "()"] blk by auto
  moreover have "length (column_names E s ncol (ext m)) = ncol" by (simp add: column_names_def)
  ultimately show ?thesis using dup_names_law [OF ds] e by (simp add: n name_ids_def elem_ids_def)
qed

text \<open>What a result owns, in the order \<open>native_sqlite_clear_result\<close> frees it.\<close>

definition sq_well :: "native_sqlite_result \<Rightarrow> bool" where
  "sq_well r \<longleftrightarrow> (let n = sr_row_count r * sr_col_count r in n \<le> length (block (cell_data r)) \<and>
     n \<le> length (block (cell_types r)) \<and> n \<le> length (block (cell_lens r)) \<and> sr_col_count r \<le> length (block (col_names r)))"

definition sq_node_ids :: "nat \<Rightarrow> native_sqlite_result \<Rightarrow> nat list" where
  "sq_node_ids a r =
     (if sq_well r then elem_ids (sr_row_count r * sr_col_count r) (block (cell_data r)) @ opt_ids (cell_data r) @
        opt_ids (cell_types r) @ opt_ids (cell_lens r) @ name_ids (sr_col_count r) (col_names r) @ [a]
      else [a, a])"

lemma elem_ids_Nil [simp]: "elem_ids n [] = []"
  by (simp add: elem_ids_def)

lemma clear_result_frees: "sq_well r \<Longrightarrow> native_sqlite_clear_result a r m = free_all (sq_node_ids a r) m"
  by (simp add: native_sqlite_clear_result_def sq_well_def sq_node_ids_def name_ids_def free_elems_eq Let_def
      cfree_free_all free_all_append)

interpretation sq_res: result_nodes sr_next "\<lambda>p nd. nd\<lparr>sr_next := p\<rparr>" sq_node_ids native_sqlite_clear_result table_of
proof unfold_locales
  show "native_sqlite_clear_result a nd m = free_all (sq_node_ids a nd) m" if "owned (sq_node_ids a nd @ zs) m" for a nd zs and m :: "'a mach"
  proof (rule clear_result_frees)
    show "sq_well nd" using that by (auto simp: sq_node_ids_def owned_def split: if_splits)
  qed
qed (auto simp: sq_node_ids_def sq_well_def table_of_def Let_def)

end
