(* ===== verification/Sq_Laws.thy ===== *)
theory Sq_Laws
  imports Sq_Rows
begin

text \<open>
  The SQLite connection's invariant, the joined statement text, the submissions and the
  clearing of the slot.
\<close>

abbreviation sq_store where "sq_store \<equiv> store_ids sq_node_ids"

section \<open>The invariant\<close>

definition sq_handles :: "sqlite_conn \<Rightarrow> nat list" where
  "sq_handles c = [the (sq_db c), worker c, slot_mutex c, slot_cond c]"

definition sq_slot_ok :: "sqlite_conn \<Rightarrow> bool" where
  "sq_slot_ok c \<longleftrightarrow> sq_db c \<noteq> None \<and> (slot_filled c \<longleftrightarrow> sql c \<noteq> None) \<and>
     (\<not> slot_filled c \<longrightarrow> \<not> is_batch c \<and> \<not> is_multi_read c) \<and> \<not> (is_batch c \<and> is_multi_read c)"

abbreviation sq_kept :: "nat list \<Rightarrow> sqlite_conn \<Rightarrow> 'w mach \<Rightarrow> bool" where
  "sq_kept pre c m \<equiv> store_ok sr_next sq_node_ids pre (results c) (last_result c) m"

definition sq_own :: "sqlite_conn \<Rightarrow> 'w mach \<Rightarrow> bool" where
  "sq_own c m \<longleftrightarrow> sq_slot_ok c \<and> held m = {} \<and> sq_kept (sq_handles c @ opt_ids (sql c)) c m"

text \<open>Two connections that differ in their results and errors only.\<close>

definition sq_core :: "sqlite_conn \<Rightarrow> sqlite_conn" where
  "sq_core c = c\<lparr>results := [], last_result := None, last_error := [], last_error_code := 0\<rparr>"

definition sq_same :: "sqlite_conn \<Rightarrow> sqlite_conn \<Rightarrow> bool" where
  "sq_same c c' \<longleftrightarrow> sq_core c' = sq_core c"

lemma sq_same_simps [simp]: "sq_same c c" "sq_same c (c\<lparr>results := rs\<rparr>)" "sq_same c (c\<lparr>last_result := lr\<rparr>)"
  "sq_same c (c\<lparr>results := rs, last_result := lr\<rparr>)" "sq_same c (c\<lparr>last_error := s, last_error_code := e\<rparr>)"
  by (simp_all add: sq_same_def sq_core_def)

lemma sq_same_trans: "sq_same c d \<Longrightarrow> sq_same d e \<Longrightarrow> sq_same c e"
  by (simp add: sq_same_def)

lemma sq_same_fields:
  assumes "sq_same c c'"
  shows "sq_db c' = sq_db c" "worker c' = worker c" "slot_mutex c' = slot_mutex c" "slot_cond c' = slot_cond c"
    "slot_filled c' = slot_filled c" "is_batch c' = is_batch c" "is_multi_read c' = is_multi_read c" "sql c' = sql c"
    "port_id c' = port_id c" "shutdown_requested c' = shutdown_requested c" "sq_handles c' = sq_handles c"
    "sq_slot_ok c' = sq_slot_ok c"
  using assms by (cases c, cases c', simp add: sq_same_def sq_core_def sq_handles_def sq_slot_ok_def)+

lemma sq_own_same:
  assumes "sq_same c c'" "sq_slot_ok c" "held m = {}" "sq_kept (sq_handles c @ opt_ids (sql c)) c' m"
  shows "sq_own c' m"
  using assms(2-4) sq_same_fields [OF assms(1)] by (simp add: sq_own_def)

lemma sq_ownD:
  assumes "sq_own c m"
  shows "sq_slot_ok c" "ledger_ok m" "held m = {}" "\<not> fault m" "sq_kept (sq_handles c @ opt_ids (sql c)) c m"
    "distinct (map fst (results c))"
  using assms by (simp_all add: sq_own_def store_ok_def owned_def)

lemma sq_own_acquired: "sq_own c m \<Longrightarrow> acquired m [] m' \<Longrightarrow> sq_own c m'"
  using acquired_nil [of m m'] by (auto simp: sq_own_def released_def [of m "{}" m'] intro: store_ok_acquired)

lemma sq_own_released: "sq_own c m \<Longrightarrow> released m {} m' \<Longrightarrow> sq_own c m'"
  by (auto simp: sq_own_def released_def [of m "{}"] intro: store_ok_quiet)

section \<open>Joining\<close>

text \<open>Every statement with its semicolon.\<close>

definition trail :: "string list \<Rightarrow> string" where
  "trail qs = concat (map (\<lambda>q. q @ '';'') qs)"

lemma trail_simps [simp]: "trail [] = []" "trail (q # qs) = q @ CHR '';'' # trail qs"
  by (simp_all add: trail_def)

lemma c_string_trail: "\<forall>q \<in> set qs. CHR 0x00 \<notin> set q \<Longrightarrow> c_string (trail qs @ [CHR 0x00]) = trail qs"
  by (intro c_string_text) (auto simp: trail_def)

lemma sq_join_size_None: "sq_join_size qs n = None \<longleftrightarrow> None \<in> set qs"
  by (induction qs n rule: sq_join_size.induct) auto

lemma sq_join_size_Some: "None \<notin> set qs \<Longrightarrow> sq_join_size qs n = Some (n + length (trail (map the qs)))"
  by (induction qs n rule: sq_join_size.induct) auto

lemma sq_join_copy_eq:
  "p + length (trail qs) \<le> length buf \<Longrightarrow>
   \<exists>buf'. sq_join_copy qs p buf m = (p + length (trail qs), buf', m) \<and> length buf' = length buf \<and>
     take (p + length (trail qs)) buf' = take p buf @ trail qs"
proof (induction qs arbitrary: p buf)
  case Nil
  then show ?case by simp
next
  case (Cons q qs)
  obtain b m1 where w: "write_bytes p q buf m = (b, m1)" by (cases "write_bytes p q buf m")
  from write_bytes_fits [OF _ w] Cons.prems have b: "m1 = m" "length b = length buf" "take (p + length q) b = take p buf @ q"
    by simp_all
  obtain b' m2 where w': "write_bytes (p + length q) '';'' b m = (b', m2)" by (cases "write_bytes (p + length q) '';'' b m")
  from write_bytes_fits [OF _ w'] Cons.prems b have b': "m2 = m" "length b' = length buf"
    "take (p + length q + 1) b' = take p buf @ q @ '';''" by simp_all
  have "p + length q + 1 + length (trail qs) \<le> length b'" using Cons.prems b'(2) by simp
  from Cons.IH [OF this] obtain buf' where
    "sq_join_copy qs (p + length q + 1) b' m = (p + length q + 1 + length (trail qs), buf', m)" "length buf' = length b'"
    "take (p + length q + 1 + length (trail qs)) buf' = take (p + length q + 1) b' @ trail qs" by blast
  with w w' b b' show ?case by (simp add: Let_def ac_simps)
qed

text \<open>The joined text fills its block exactly.\<close>

lemma sq_join_cases:
  assumes n: "nat n \<le> length qs"
  defines "ss \<equiv> take (nat n) qs"
  shows "case sqlite_join_stmts qs n m of
      (None, m') \<Rightarrow> acquired m [] m' \<and> (oom m = [] \<longrightarrow> None \<in> set ss)
    | (Some j, m') \<Rightarrow> acquired m [addr j] m' \<and> None \<notin> set ss \<and> contents j = trail (map the ss) @ [CHR 0x00]"
proof (cases "None \<in> set ss")
  case True
  then show ?thesis
    by (simp add: sqlite_join_stmts_def read_array_enough n ss_def sq_join_size_None [THEN iffD2])
next
  case False
  let ?ts = "map the ss" and ?len = "length (trail (map the ss))"
  obtain k m1 where h: "halloc () m = (k, m1)" by (cases "halloc () m")
  show ?thesis
  proof (cases k)
    case None
    with h have "acquired m [] m1" "oom m \<noteq> []"
      using halloc_None [of "()" m m1] halloc_plenty [of m "()"] by auto
    with h None False show ?thesis
      by (simp add: sqlite_join_stmts_def read_array_enough n ss_def sq_join_size_Some)
  next
    case (Some blk)
    let ?buf = "replicate (1 + ?len) (CHR 0xCC)"
    from sq_join_copy_eq [of 0 ?ts ?buf m1] obtain b where
      b: "sq_join_copy ?ts 0 ?buf m1 = (?len, b, m1)" "length b = 1 + ?len" "take ?len b = trail ?ts" by auto
    have "write_bytes ?len [CHR 0x00] b m1 = (trail ?ts @ [CHR 0x00], m1)"
      using b(2,3) by (simp add: write_bytes_def)
    then show ?thesis
      using h Some False b(1) halloc_Some [of "()" m blk m1]
      by (simp add: sqlite_join_stmts_def read_array_enough n ss_def sq_join_size_Some Let_def)
  qed
qed

section \<open>Submitting\<close>

datatype sq_kind = Sq_statement | Sq_writes | Sq_reads

definition sq_slot_request :: "sqlite_conn \<Rightarrow> sq_kind \<times> string" where
  "sq_slot_request c =
     ((if is_multi_read c then Sq_reads else if is_batch c then Sq_writes else Sq_statement),
      c_string (contents (the (sql c))))"

text \<open>Refused: nothing changed. Accepted: the slot is the request, its text newly allocated.\<close>

definition sq_refused :: "sqlite_conn \<Rightarrow> 'w mach \<Rightarrow> int \<times> sqlite_conn option \<times> 'w mach \<Rightarrow> bool" where
  "sq_refused c m res \<longleftrightarrow> (\<exists>m'. res = (0, Some c, m') \<and> acquired m [] m')"

definition sq_accepted ::
  "sqlite_conn \<Rightarrow> 'w mach \<Rightarrow> sq_kind \<times> string \<Rightarrow> int \<Rightarrow> int \<Rightarrow> int \<times> sqlite_conn option \<times> 'w mach \<Rightarrow> bool" where
  "sq_accepted c m req port t res \<longleftrightarrow> (\<exists>s m'. res =
     (1, Some (c\<lparr>slot_filled := True, is_batch := (fst req = Sq_writes), is_multi_read := (fst req = Sq_reads),
                  sql := Some s, port_id := port, timeout_ms := t\<rparr>), m') \<and>
     acquired m [addr s] m' \<and> c_string (contents s) = snd req \<and> \<not> slot_filled c \<and> \<not> shutdown_requested c)"

text \<open>A copy made before the slot is looked at: kept by the slot, or freed again.\<close>

lemma copy_refused:
  assumes ok: "ledger_ok m" and nh: "l \<notin> held m" and a: "acquired m [x] m1"
  shows "acquired m [] (rfree x (mutex_unlock l (mutex_lock l m1)))"
proof -
  have "l \<notin> held m1" using a nh by (simp add: acquired_def)
  from acquired_trans [OF a lock_refused [OF this]] acquired_rfree_one [OF ok] show ?thesis by simp
qed

lemma copy_signalled:
  assumes nh: "l \<notin> held m" and a: "acquired m xs m1"
  shows "acquired m xs (mutex_unlock l (cond_signal k (mutex_lock l m1)))"
proof -
  have "l \<notin> held m1" using a nh by (simp add: acquired_def)
  from lock_unlock [OF this, of "[]" "cond_signal k (mutex_lock l m1)"]
  have "acquired m1 [] (mutex_unlock l (cond_signal k (mutex_lock l m1)))" by simp
  from acquired_trans [OF a this] show ?thesis by simp
qed

lemma sq_query_cases:
  assumes ok: "ledger_ok m" and nh: "slot_mutex c \<notin> held m" and sl: "sq_slot_ok c" and q: "\<forall>s. q = Some s \<longrightarrow> CHR 0x00 \<notin> set s"
  shows "sq_refused c m (sqlite_pool_submit_query (Some c) q port t m) \<or>
    sq_accepted c m (Sq_statement, the q) port t (sqlite_pool_submit_query (Some c) q port t m)"
proof (cases q)
  case None
  then show ?thesis by (simp add: sq_refused_def sqlite_pool_submit_query_def)
next
  case (Some body)
  obtain d m1 where d: "dup_string (Some body) m = (d, m1)" by (cases "dup_string (Some body) m")
  show ?thesis
  proof (cases d)
    case None
    with dup_string_None [of "Some body" m m1] d Some show ?thesis
      by (simp add: sq_refused_def sqlite_pool_submit_query_def sqlite_dup_string_eq)
  next
    case copy: (Some s)
    from dup_string_Some [OF d [unfolded copy]] have a: "acquired m [addr s] m1" "contents s = body" by simp_all
    show ?thesis
    proof (cases "slot_filled c \<or> shutdown_requested c")
      case True
      with copy_refused [OF ok nh a(1)] Some d copy show ?thesis
        by (auto simp: sq_refused_def sqlite_pool_submit_query_def sqlite_dup_string_eq Let_def)
    next
      case False
      then have "\<not> is_batch c" "\<not> is_multi_read c" using sl by (auto simp: sq_slot_ok_def)
      then have "c\<lparr>slot_filled := True, sql := Some s, port_id := port, timeout_ms := t\<rparr> =
          c\<lparr>slot_filled := True, is_batch := False, is_multi_read := False, sql := Some s, port_id := port, timeout_ms := t\<rparr>"
        by simp
      with copy_signalled [OF nh a(1), of "slot_cond c"] Some d copy False a(2) q show ?thesis
        by (auto simp: sq_accepted_def sqlite_pool_submit_query_def sqlite_dup_string_eq Let_def c_string_whole)
    qed
  qed
qed

lemma sq_joined_cases:
  assumes ok: "ledger_ok m" and nh: "slot_mutex c \<notin> held m" and len: "nat n \<le> length qs"
    and qs: "\<forall>q \<in> set (take (nat n) qs). \<forall>s. q = Some s \<longrightarrow> CHR 0x00 \<notin> set s"
    and kind: "kind \<noteq> Sq_statement"
    and res_def: "res = sqlite_submit_joined (Some c) (Some qs) n (kind = Sq_writes) (kind = Sq_reads) port t m"
  shows "sq_refused c m res \<or> sq_accepted c m (kind, trail (map the (take (nat n) qs))) port t res"
proof (cases "n \<le> 0")
  case True
  then show ?thesis by (simp add: sq_refused_def res_def sqlite_submit_joined_def)
next
  case False
  obtain j m1 where j: "sqlite_join_stmts qs n m = (j, m1)" by (cases "sqlite_join_stmts qs n m")
  note cs = sq_join_cases [OF len, of m, unfolded j]
  show ?thesis
  proof (cases j)
    case None
    with cs j False show ?thesis by (simp add: sq_refused_def res_def sqlite_submit_joined_def)
  next
    case (Some s)
    with cs have a: "acquired m [addr s] m1" and nn: "None \<notin> set (take (nat n) qs)"
      and body: "contents s = trail (map the (take (nat n) qs)) @ [CHR 0x00]" by simp_all
    show ?thesis
    proof (cases "slot_filled c \<or> shutdown_requested c")
      case True
      with copy_refused [OF ok nh a] Some j False show ?thesis
        by (auto simp: sq_refused_def res_def sqlite_submit_joined_def Let_def)
    next
      case free: False
      have "\<forall>q \<in> set (map the (take (nat n) qs)). CHR 0x00 \<notin> set q"
        using qs nn by (auto simp: image_iff) (metis option.exhaust_sel)
      from c_string_trail [OF this] copy_signalled [OF nh a, of "slot_cond c"] free False Some j body show ?thesis
        by (auto simp: sq_accepted_def res_def sqlite_submit_joined_def Let_def)
    qed
  qed
qed

lemma sq_accepted_own:
  assumes own: "sq_own c m" and acc: "sq_accepted c m req port t (k, Some c', m')"
  shows "sq_own c' m' \<and> k = 1 \<and> \<not> slot_filled c \<and> \<not> shutdown_requested c \<and> slot_filled c' \<and>
    port_id c' = port \<and> \<not> shutdown_requested c' \<and> sq_slot_request c' = req \<and>
    results c' = results c \<and> last_result c' = last_result c"
proof -
  from acc obtain s where s: "c' = c\<lparr>slot_filled := True, is_batch := (fst req = Sq_writes),
      is_multi_read := (fst req = Sq_reads), sql := Some s, port_id := port, timeout_ms := t\<rparr>"
    "acquired m [addr s] m'" "c_string (contents s) = snd req" "\<not> slot_filled c" "\<not> shutdown_requested c" "k = 1"
    by (auto simp: sq_accepted_def)
  note D = sq_ownD [OF own]
  have "sql c = None" using D(1) s(4) by (simp add: sq_slot_ok_def)
  then have "sq_kept (sq_handles c @ [addr s]) c m'"
    using D(5) by (intro store_ok_acquired [OF _ s(2)]) simp_all
  moreover have "held m' = {}" using D(3) s(2) by (simp add: acquired_def)
  moreover have "sq_handles c' = sq_handles c" "sq_slot_ok c'"
    using D(1) by (simp_all add: s(1) sq_handles_def sq_slot_ok_def)
  moreover have "sq_slot_request c' = req"
    using s(3) by (cases req; cases "fst req") (simp_all add: s(1) sq_slot_request_def)
  ultimately show ?thesis using s(4-) by (simp add: s(1) sq_own_def)
qed

lemma sq_clear_law:
  assumes own: "sq_own c m" and run: "sqlite_worker_clear c m = (c', m')"
  shows "sq_own c' m' \<and> \<not> slot_filled c' \<and> shutdown_requested c' = shutdown_requested c \<and>
    released m (set (opt_ids (sql c))) m' \<and> results c' = results c \<and> last_result c' = last_result c \<and>
    sq_handles c' = sq_handles c"
proof -
  note D = sq_ownD [OF own]
  let ?l = "mutex_lock (slot_mutex c) m" and ?ids = "opt_ids (sql c)"
  have c': "c' = c\<lparr>sql := None, is_batch := False, is_multi_read := False, port_id := 0, timeout_ms := 0, slot_filled := False\<rparr>"
    and m': "m' = mutex_unlock (slot_mutex c) (cond_signal (slot_cond c) (free_all ?ids ?l))"
    using run by (auto simp: sqlite_worker_clear_def sqlite_pool_free_slot_payload_def cfree_free_all Let_def)
  have ids: "distinct ?ids" "set ?ids \<subseteq> live m"
    using store_ok_owned [OF D(5)] by (auto simp: owned_def)
  have f: "free_all ?ids ?l = ?l\<lparr>live := live m - set ?ids\<rparr>"
    using free_all_live [of ?ids ?l] ids by (simp add: ledger)
  have rel: "released m (set ?ids) m'"
    unfolding m' f using D(3) by (simp add: released_def mutex_unlock_def mutex_lock_def cond_signal_def)
  have "sq_kept (?ids @ sq_handles c) c m" by (rule store_ok_mset [OF D(5)]) simp
  from store_ok_released [OF this rel] D(1,3) rel have "sq_own c' m'"
    by (simp add: sq_own_def c' sq_handles_def sq_slot_ok_def released_def)
  with rel show ?thesis by (simp add: c' sq_handles_def)
qed

end
