(* ===== verification/Sq_Worker_Laws.thy ===== *)
theory Sq_Worker_Laws
  imports Sq_Laws
begin

text \<open>
  The SQLite worker against what the library delivers: a materialised statement is the table
  of its rows, a request's results are the tables of its statements in order, and an aborted
  request gives everything back. A cell whose copy could not be allocated is a NULL in the
  result (\<open>sq_agrees\<close>); with memory to spare the tables are equal.
\<close>

section \<open>One statement\<close>

text \<open>What the connection says after a failure.\<close>

definition sq_failed :: "('w, 's) sq_env \<Rightarrow> bool \<Rightarrow> sqlite_conn \<Rightarrow> sqlite_conn \<Rightarrow> bool" where
  "sq_failed E plenty c c' \<longleftrightarrow> sq_same c c' \<and> results c' = results c \<and> last_result c' = last_result c \<and>
     length (last_error c') \<le> max 511 (length (last_error c)) \<and>
     (plenty \<longrightarrow> (\<exists>w. last_error_code c' = sqlite3_extended_errcode E (the (sq_db c)) w))"

lemma sq_failed_simps:
  "sq_failed E b c (sqlite_set_error E (the (sq_db c)) w c)" "sq_failed E False c (out_of_memory c)"
  by (auto simp: sq_failed_def sqlite_set_error_def out_of_memory_def snprintf_def SQLITE_ERR_BUF_def)

lemma sq_finalize_acquired:
  assumes "ledger_ok m0" "acquired m0 (zs @ opt_ids s) m"
  shows "acquired m0 zs (sq_finalize E s m)"
proof -
  have "acquired m0 (zs @ opt_ids s) (m\<lparr>ext := sqlite3_finalize E (map_option contents s) (ext m)\<rparr>)"
    using assms(2) by simp
  from acquired_free_tail [OF assms(1) this] show ?thesis by (simp add: sq_finalize_free)
qed

lemma sq_finalize_frame:
  "ext (sq_finalize E s m) = sqlite3_finalize E (map_option contents s) (ext m)" "oom (sq_finalize E s m) = oom m"
  by (simp_all add: sq_finalize_free free_all_frame)

lemma free_cells_frame: "ext (free_cells ar n m) = ext m" "oom (free_cells ar n m) = oom m" if "ar_data ar = None \<or> n \<le> length (block (ar_data ar))"
  using that by (auto simp: free_cells_def free_elems_eq cfree_free_all free_all_frame Let_def)

definition sq_no_arrays :: sq_arrays where
  "sq_no_arrays = \<lparr>ar_types = None, ar_lens = None, ar_data = None\<rparr>"

text \<open>The stepping loop from its start.\<close>

lemma step_rows_start:
  assumes "step_rows f E s ncol sq_no_arrays 0 0 m = Some (r, ar, nrows, m')" "ledger_ok m0" "acquired m0 zs m"
    "b \<longrightarrow> oom m = []"
  shows "(b \<longrightarrow> oom m' = []) \<and> acquired m0 (zs @ ar_ids (nrows * ncol) ar) m' \<and> nrows * ncol \<le> length (block (ar_data ar)) \<and>
   (case r of None \<Rightarrow> \<not> b
    | Some rc \<Rightarrow> \<exists>rows. sq_rows f E s ncol (ext m) = Some (rc, rows, ext m') \<and> nrows = length rows \<and>
        nrows * ncol \<le> length (block (ar_types ar)) \<and> nrows * ncol \<le> length (block (ar_lens ar)) \<and>
        holds_cells b (concat rows) ar)"
proof -
  have "arrays_ok ncol 0 0 sq_no_arrays" "acquired m0 (zs @ ar_ids (0 * ncol) sq_no_arrays) m"
    using assms(3) by (simp_all add: arrays_ok_def sq_no_arrays_def ar_ids_def)
  from step_rows_law [OF assms(1,2) this(1) _ _ this(2) assms(4), of "[]"] show ?thesis
    by (simp split: option.splits)
qed

text \<open>The result record over the arrays and names is the specified table.\<close>

lemma sq_built_table:
  assumes rows: "length (concat rows) = length rows * ncol" and cells: "holds_cells b (concat rows) ar"
    and room: "length rows * ncol \<le> length (block (ar_data ar))" "length rows * ncol \<le> length (block (ar_types ar))"
      "length rows * ncol \<le> length (block (ar_lens ar))"
    and names: "length (block names) = ncol" "missing (map (map_option contents) (block names)) (map Some (column_names E s ncol w))"
      "b \<longrightarrow> map (map_option contents) (block names) = map Some (column_names E s ncol w)"
    and nd_def: "nd = \<lparr>sr_col_count = ncol, sr_row_count = length rows, sr_affected_rows = sqlite3_changes E h w, col_names = names,
      cell_types = ar_types ar, cell_lens = ar_lens ar, cell_data = ar_data ar, sr_next = None\<rparr>"
  shows "sq_agrees (table_of nd) (spec_table E h s ncol rows w) \<and> (b \<longrightarrow> table_of nd = spec_table E h s ncol rows w) \<and>
    sq_node_ids a nd = elem_ids (length rows * ncol) (block (ar_data ar)) @ opt_ids (ar_data ar) @ opt_ids (ar_types ar) @
      opt_ids (ar_lens ar) @ name_ids ncol names @ [a]"
proof -
  have "sq_well nd" using room names(1) by (simp add: nd_def sq_well_def)
  moreover have "take ncol (block names) = block names" using names(1) by simp
  ultimately show ?thesis
    using cells names by (auto simp: nd_def sq_agrees_def table_of_def spec_table_def holds_cells_def rows Let_def sq_node_ids_def)
qed

text \<open>The failures of \<open>materialize_stmt\<close>: everything it took is given back, the statement too.\<close>

lemma materialize_fails:
  assumes ok: "ledger_ok m0" and acq: "acquired m0 ((zs @ opt_ids stmt) @ ar_ids (nrows * ncol) ar) m1"
    and room: "nrows * ncol \<le> length (block (ar_data ar))"
  shows "acquired m0 zs (sq_finalize E stmt (free_cells ar (nrows * ncol) m1)) \<and>
    ext (sq_finalize E stmt (free_cells ar (nrows * ncol) m1)) = sqlite3_finalize E (map_option contents stmt) (ext m1) \<and>
    oom (sq_finalize E stmt (free_cells ar (nrows * ncol) m1)) = oom m1"
  using sq_finalize_acquired [OF ok free_cells_acquired [OF ok acq]] room
  by (simp add: sq_finalize_frame free_cells_frame)

lemma names_undone:
  assumes ok: "ledger_ok m0" and len: "length (block names) = ncol" and room: "n \<le> length (block (ar_data ar))"
    and acq: "acquired m0 (zs @ ar_ids n ar @ name_ids ncol names) m"
  shows "acquired m0 zs (if names \<noteq> None then cfree names (free_elems ncol (block names) (free_cells ar n m)) else free_cells ar n m)"
proof -
  have "acquired m0 ((zs @ name_ids ncol names) @ ar_ids n ar) m" by (rule acquired_mset [OF acq]) simp
  from free_cells_acquired [OF ok this] room have a: "acquired m0 (zs @ name_ids ncol names) (free_cells ar n m)" by simp
  from acquired_free_tail [OF ok this] len a show ?thesis
    by (auto simp: name_ids_def free_elems_eq cfree_free_all free_all_append)
qed

definition sq_plain :: "('w, 's) sq_env \<Rightarrow> nat \<Rightarrow> sqlite_conn \<Rightarrow> 's cell option \<Rightarrow> bool \<Rightarrow> 'w mach \<Rightarrow> nat list \<Rightarrow> 'w mach \<Rightarrow>
    (nat \<times> native_sqlite_result) option \<times> sqlite_conn \<times> 'w mach \<Rightarrow> bool" where
  "sq_plain E f conn stmt b m0 zs m res \<longleftrightarrow> (case res of (r, c', m') \<Rightarrow>
     (b \<longrightarrow> oom m' = []) \<and>
     (case r of
        None \<Rightarrow> acquired m0 zs m' \<and> sq_failed E b conn c' \<and>
          (b \<longrightarrow> sq_stmt_out f E (the (sq_db conn)) (map_option contents stmt) (ext m) = Some (None, ext m'))
      | Some (a, nd) \<Rightarrow> c' = conn \<and> acquired m0 (zs @ sq_node_ids a nd) m' \<and> sr_next nd = None \<and>
          (\<exists>v. sq_stmt_out f E (the (sq_db conn)) (map_option contents stmt) (ext m) = Some (Some v, ext m') \<and>
             sq_agrees (table_of nd) v \<and> (b \<longrightarrow> table_of nd = v))))"

lemma materialize_done:
  assumes ok: "ledger_ok m0" and acq: "acquired m0 ((zs @ opt_ids stmt) @ ar_ids (length rows * ncol) ar) m1"
    and rows: "sq_rows f E (map_option contents stmt) ncol (ext m) = Some (SQLITE_DONE, rows, ext m1)"
      "ncol = sqlite3_column_count E (map_option contents stmt) (ext m)"
    and room: "length rows * ncol \<le> length (block (ar_data ar))" "length rows * ncol \<le> length (block (ar_types ar))"
      "length rows * ncol \<le> length (block (ar_lens ar))"
    and cells: "holds_cells b (concat rows) ar" and b: "b \<longrightarrow> oom m1 = []"
    and names: "copy_names E (map_option contents stmt) ncol m1 = Some (names, m2)"
    and res: "halloc () (sq_finalize E stmt m2) = (k, m4)"
  shows "sq_plain E f conn stmt b m0 zs m
    (case k of
       None \<Rightarrow> (None, out_of_memory conn,
         if names \<noteq> None then cfree names (free_elems ncol (block names) (free_cells ar (length rows * ncol) m4))
         else free_cells ar (length rows * ncol) m4)
     | Some blk \<Rightarrow> (Some (addr blk,
         \<lparr>sr_col_count = ncol, sr_row_count = length rows, sr_affected_rows = sqlite3_changes E (the (sq_db conn)) (ext m2),
          col_names = names, cell_types = ar_types ar, cell_lens = ar_lens ar, cell_data = ar_data ar, sr_next = None\<rparr>),
         conn, m4))"
proof -
  note n = copy_names_law [OF names]
  let ?zs = "zs @ ar_ids (length rows * ncol) ar @ name_ids ncol names" and ?m3 = "sq_finalize E stmt m2"
  have "acquired m0 (((zs @ opt_ids stmt) @ ar_ids (length rows * ncol) ar) @ name_ids ncol names) m2"
    by (rule acquired_trans [OF acq]) (simp add: n)
  then have "acquired m0 (?zs @ opt_ids stmt) m2" by (rule acquired_mset) simp
  from sq_finalize_acquired [OF ok this] have a3: "acquired m0 ?zs ?m3" .
  have x3: "ext ?m3 = sqlite3_finalize E (map_option contents stmt) (ext m1)" "b \<longrightarrow> oom ?m3 = []" "ext m2 = ext m1"
    using n b by (simp_all add: sq_finalize_frame)
  have out: "sq_stmt_out f E h (map_option contents stmt) (ext m) =
      Some (Some (spec_table E h (map_option contents stmt) ncol rows (ext m1)), ext ?m3)" for h
    using rows(1) unfolding rows(2) by (simp add: sq_stmt_out_def Let_def x3)
  show ?thesis
  proof (cases k)
    case None
    with res have "acquired ?m3 [] m4" "\<not> b" using halloc_None [of "()" ?m3 m4] x3(2) halloc_plenty [of ?m3 "()"] by auto
    with acquired_trans [OF a3] have "acquired m0 (zs @ ar_ids (length rows * ncol) ar @ name_ids ncol names) m4" by fastforce
    from names_undone [OF ok _ room(1) this] n None \<open>\<not> b\<close> show ?thesis
      by (simp add: sq_plain_def sq_failed_simps)
  next
    case (Some blk)
    have a4: "acquired ?m3 [addr blk] m4" "ext m4 = ext ?m3" "b \<longrightarrow> oom m4 = []"
      using halloc_Some [OF res [unfolded Some]] halloc_frame [OF res] x3(2) halloc_plenty [of ?m3 "()"] res by auto
    let ?nd = "\<lparr>sr_col_count = ncol, sr_row_count = length rows, sr_affected_rows = sqlite3_changes E (the (sq_db conn)) (ext m2),
          col_names = names, cell_types = ar_types ar, cell_lens = ar_lens ar, cell_data = ar_data ar, sr_next = None\<rparr>"
    have "sq_agrees (table_of ?nd) (spec_table E (the (sq_db conn)) (map_option contents stmt) ncol rows (ext m1)) \<and>
        (b \<longrightarrow> table_of ?nd = spec_table E (the (sq_db conn)) (map_option contents stmt) ncol rows (ext m1)) \<and>
        sq_node_ids (addr blk) ?nd = elem_ids (length rows * ncol) (block (ar_data ar)) @ opt_ids (ar_data ar) @
          opt_ids (ar_types ar) @ opt_ids (ar_lens ar) @ name_ids ncol names @ [addr blk]"
      using n b x3(3) by (intro sq_built_table [OF sq_rows_length [OF rows(1)] cells room]) simp_all
    moreover from this have "acquired m0 (zs @ sq_node_ids (addr blk) ?nd) m4"
      by (intro acquired_mset [OF acquired_trans [OF a3 a4(1)]]) (simp add: ar_ids_def)
    ultimately show ?thesis using a4 out Some by (simp add: sq_plain_def)
  qed
qed

lemma materialize_law:
  assumes ok: "ledger_ok m0" and acq: "acquired m0 (zs @ opt_ids stmt) m" and b: "b \<longrightarrow> oom m = []"
    and run: "materialize_stmt f E conn stmt m = Some res"
  shows "sq_plain E f conn stmt b m0 zs m res"
proof -
  let ?s = "map_option contents stmt" and ?h = "the (sq_db conn)"
  let ?ncol = "sqlite3_column_count E ?s (ext m)"
  from run obtain r ar nrows m1 where st: "step_rows f E ?s ?ncol sq_no_arrays 0 0 m = Some (r, ar, nrows, m1)"
    by (auto simp: materialize_stmt_def sq_no_arrays_def Let_def split: option.splits)
  note l = step_rows_start [OF st ok acq b]
  note fails = materialize_fails [OF ok, of zs stmt nrows ?ncol ar m1 E]
  show ?thesis
  proof (cases r)
    case None
    with run st have "res = (None, out_of_memory conn, sq_finalize E stmt (free_cells ar (nrows * ?ncol) m1))"
      by (simp add: materialize_stmt_def sq_no_arrays_def Let_def)
    with l None fails show ?thesis by (auto simp: sq_plain_def sq_failed_simps)
  next
    case (Some rc)
    with l obtain rows where rows: "sq_rows f E ?s ?ncol (ext m) = Some (rc, rows, ext m1)" "nrows = length rows"
      and room: "nrows * ?ncol \<le> length (block (ar_types ar))" "nrows * ?ncol \<le> length (block (ar_lens ar))"
        "nrows * ?ncol \<le> length (block (ar_data ar))"
      and cells: "holds_cells b (concat rows) ar" by auto
    show ?thesis
    proof (cases "rc = SQLITE_DONE")
      case False
      with run st Some have "res = (None, sqlite_set_error E ?h (ext m1) conn, sq_finalize E stmt (free_cells ar (nrows * ?ncol) m1))"
        by (simp add: materialize_stmt_def sq_no_arrays_def Let_def)
      moreover have "sq_stmt_out f E ?h ?s (ext m) = Some (None, sqlite3_finalize E ?s (ext m1))"
        using rows False by (simp add: sq_stmt_out_def Let_def)
      ultimately show ?thesis using l fails by (simp add: sq_plain_def sq_failed_simps)
    next
      case True
      with run st Some obtain names m2 where names: "copy_names E ?s ?ncol m1 = Some (names, m2)"
        by (auto simp: materialize_stmt_def sq_no_arrays_def Let_def split: option.splits)
      obtain k m4 where k: "halloc () (sq_finalize E stmt m2) = (k, m4)" by (cases "halloc () (sq_finalize E stmt m2)")
      from l rows(2) have "acquired m0 ((zs @ opt_ids stmt) @ ar_ids (length rows * ?ncol) ar) m1" "b \<longrightarrow> oom m1 = []" by simp_all
      from materialize_done [OF ok this(1) rows(1) [unfolded True] refl _ _ _ cells this(2) names k, of conn] room rows(2)
        run st Some True names k show ?thesis
        by (cases k) (simp_all add: materialize_stmt_def sq_no_arrays_def Let_def)
    qed
  qed
qed

text \<open>It comes to an end when the rows do and memory lasts.\<close>

lemma materialize_returns:
  assumes "oom m = []" "sq_stmt_out f E h (map_option contents stmt) (ext m) \<noteq> None" "ledger_ok m"
  shows "materialize_stmt f E conn stmt m \<noteq> None"
proof -
  let ?s = "map_option contents stmt" let ?ncol = "sqlite3_column_count E ?s (ext m)"
  from assms(2) have "sq_rows f E ?s ?ncol (ext m) \<noteq> None"
    by (auto simp: sq_stmt_out_def Let_def split: option.splits)
  from step_rows_returns [OF this, of sq_no_arrays 0 0] obtain r ar nrows m1 where
    st: "step_rows f E ?s ?ncol sq_no_arrays 0 0 m = Some (r, ar, nrows, m1)" by (metis not_None_eq prod_cases4)
  from step_rows_start [OF st assms(3) acquired_refl, of True] assms(1) have o: "oom m1 = []" by simp
  have "copy_names E ?s ?ncol m1 \<noteq> None"
    using halloc_plenty [OF o, of "()"] by (auto simp: copy_names_def split: prod.split)
  with st show ?thesis
    by (auto simp: materialize_stmt_def sq_no_arrays_def Let_def split: option.split prod.split)
qed

section \<open>A request\<close>

text \<open>The tables of a multi-read: \<open>None\<close> for an endless text, \<open>Some None\<close> for an error in it.\<close>

fun sq_tables :: "nat \<Rightarrow> ('w, 's) sq_env \<Rightarrow> nat \<Rightarrow> string \<Rightarrow> 'w \<Rightarrow> sq_table list option option" where
  "sq_tables 0 E h cursor w = None"
| "sq_tables (Suc f) E h cursor w =
     (let cursor1 = skip_blanks cursor in
      if cursor1 = [] then Some (Some [])
      else (case sqlite3_prepare_v2 E h cursor1 w of (rc, tok, used, w1) \<Rightarrow>
        if rc \<noteq> SQLITE_OK then Some None
        else if tok = None then sq_tables f E h (drop used cursor1) w1
        else (case sq_stmt_out f E h tok w1 of
            None \<Rightarrow> None
          | Some (None, w2) \<Rightarrow> Some None
          | Some (Some t, w2) \<Rightarrow> map_option (map_option (Cons t)) (sq_tables f E h (drop used cursor1) w2))))"

definition no_table :: sq_table where
  "no_table = \<lparr>t_cols = 0, t_rows = 0, t_affected = 0, t_names = [], t_types = [], t_lens = [], t_data = []\<rparr>"

definition sq_outcome :: "nat \<Rightarrow> ('w, 's) sq_env \<Rightarrow> nat \<Rightarrow> sq_kind \<times> string \<Rightarrow> 'w \<Rightarrow> sq_table list option option" where
  "sq_outcome f E h req w =
     (case fst req of
        Sq_statement \<Rightarrow>
          (case sqlite3_prepare_v2 E h (snd req) w of (rc, tok, used, w1) \<Rightarrow>
             if rc \<noteq> SQLITE_OK then Some None
             else map_option (\<lambda>(t, w2). map_option (\<lambda>t. [t]) t) (sq_stmt_out f E h tok w1))
      | Sq_writes \<Rightarrow> (case sqlite3_exec E h (snd req) w of (r, w1) \<Rightarrow> Some (if r = None then Some [no_table] else None))
      | Sq_reads \<Rightarrow> sq_tables f E h (snd req) w)"

definition sq_chain_views :: "sqlite_conn \<Rightarrow> sq_table list \<Rightarrow> bool" where
  "sq_chain_views c ts \<longleftrightarrow> (\<exists>as. chain_at sr_next (map_of (results c)) (last_result c) as \<and> distinct as \<and>
     map (table_of \<circ> snd) (chain_nodes (results c) as) = ts)"

text \<open>What a request does to the connection, against its outcome.\<close>

definition sq_ran :: "('w, 's) sq_env \<Rightarrow> bool \<Rightarrow> sqlite_conn \<Rightarrow> 'w mach \<Rightarrow> int \<times> sqlite_conn \<times> 'w mach \<Rightarrow>
    sq_table list option option \<Rightarrow> bool" where
  "sq_ran E b c m res out \<longleftrightarrow> (case res of (rc, c', m') \<Rightarrow> (b \<longrightarrow> oom m' = []) \<and>
     grown sr_next sq_node_ids (results c) m (results c') (last_result c') m' \<and>
     ((rc = 1 \<and> c' = c\<lparr>results := results c', last_result := last_result c'\<rparr> \<and>
        (\<exists>ts rs. out = Some (Some rs) \<and> sq_chain_views c' ts \<and> list_all2 sq_agrees ts rs \<and> (b \<longrightarrow> ts = rs))) \<or>
      (rc = 2 \<and> sq_failed E b c c' \<and> acquired m [] m' \<and> (b \<longrightarrow> out = Some None))))"

lemma SQ_PORT_simps [simp]: "SQ_PORT_OK = 1" "SQ_PORT_ABORTED = 2"
  by (simp_all add: SQ_PORT_OK_def SQ_PORT_ABORTED_def)

lemma sq_ran_abort:
  assumes "sq_kept pre c m" "acquired m [] m'" "sq_failed E b c c'" "b \<longrightarrow> out = Some None \<and> oom m' = []"
  shows "sq_ran E b c m (2, c', m') out"
  using grown_same [OF assms(1,2)] assms(2-4) by (simp add: sq_ran_def sq_failed_def)

lemma sq_ran_put:
  assumes ok: "sq_kept pre c m" and acq: "acquired m (sq_node_ids w nd) m'" and nd: "sr_next nd = None"
    and out: "out = Some (Some [t])" "sq_agrees (table_of nd) t" "b \<longrightarrow> table_of nd = t \<and> oom m' = []"
  shows "sq_ran E b c m (1, c\<lparr>results := AList.update w nd (results c), last_result := Some w\<rparr>, m') out"
proof -
  have "map_of (AList.update w nd (results c)) w = Some nd" by (simp add: update_conv')
  then have "sq_chain_views (c\<lparr>results := AList.update w nd (results c), last_result := Some w\<rparr>) [table_of nd]"
    unfolding sq_chain_views_def using nd by (intro exI [of _ "[w]"]) simp
  with sq_res.grown_put [OF ok acq nd] out show ?thesis
    by (auto simp: sq_ran_def intro!: exI [of _ "[table_of nd]"])
qed

lemma sq_prepare_cases:
  assumes "sq_prepare E h q m = (rc, stmt, used, m1)"
  shows "acquired m (opt_ids stmt) m1 \<and> oom m1 = oom m \<and>
    (\<exists>tok. sqlite3_prepare_v2 E h q (ext m) = (rc, tok, used, ext m1) \<and> (rc = SQLITE_OK \<longrightarrow> tok = map_option contents stmt) \<and>
      (rc \<noteq> SQLITE_OK \<longrightarrow> stmt = None))"
  using sq_prepare_acquired [OF assms] sq_prepare_spec [OF assms] by (auto split: if_splits)

lemma sq_query_ran:
  assumes ok: "sq_kept pre c m" and b: "b \<longrightarrow> oom m = []" and run: "sqlite_pool_execute_query f E c q m = Some res"
  shows "sq_ran E b c m res (sq_outcome f E (the (sq_db c)) (Sq_statement, q) (ext m))"
proof -
  let ?h = "the (sq_db c)" and ?out = "sq_outcome f E (the (sq_db c)) (Sq_statement, q) (ext m)"
  obtain rc stmt used m1 where p: "sq_prepare E ?h q m = (rc, stmt, used, m1)" by (cases "sq_prepare E ?h q m")
  from sq_prepare_cases [OF p] obtain tok where a: "acquired m (opt_ids stmt) m1" "oom m1 = oom m"
    and tok: "sqlite3_prepare_v2 E ?h q (ext m) = (rc, tok, used, ext m1)" "rc = SQLITE_OK \<longrightarrow> tok = map_option contents stmt"
      "rc \<noteq> SQLITE_OK \<longrightarrow> stmt = None" by blast
  have led: "ledger_ok m" using ok by (simp add: store_ok_def owned_def)
  show ?thesis
  proof (cases "rc = SQLITE_OK")
    case False
    with run p have "res = (2, sqlite_set_error E ?h (ext m1) c, m1)" by (simp add: sqlite_pool_execute_query_def)
    moreover have "?out = Some None" using tok False by (simp add: sq_outcome_def)
    ultimately show ?thesis using a tok(3) False b by (auto intro!: sq_ran_abort [OF ok] sq_failed_simps)
  next
    case True
    with run p obtain r c1 m2 where st: "materialize_stmt f E c stmt m1 = Some (r, c1, m2)"
      and res: "res = (case r of None \<Rightarrow> (2, c1, m2)
        | Some (a, nd) \<Rightarrow> (1, c1\<lparr>results := AList.update a nd (results c1), last_result := Some a\<rparr>, m2))"
      by (auto simp: sqlite_pool_execute_query_def Let_def split: option.splits)
    have "acquired m ([] @ opt_ids stmt) m1" "b \<longrightarrow> oom m1 = []" using a b by simp_all
    note l = materialize_law [OF led this st]
    have out: "?out = map_option (\<lambda>(t, w2). map_option (\<lambda>t. [t]) t) (sq_stmt_out f E ?h (map_option contents stmt) (ext m1))"
      using tok True by (simp add: sq_outcome_def)
    show ?thesis
    proof (cases r)
      case None
      with l res out show ?thesis by (auto simp: sq_plain_def intro!: sq_ran_abort [OF ok])
    next
      case (Some x)
      obtain w nd where x: "x = (w, nd)" by (cases x)
      with l Some obtain t where t: "c1 = c" "acquired m (sq_node_ids w nd) m2" "sr_next nd = None"
        "sq_stmt_out f E ?h (map_option contents stmt) (ext m1) = Some (Some t, ext m2)" "sq_agrees (table_of nd) t" "b \<longrightarrow> table_of nd = t \<and> oom m2 = []"
        by (auto simp: sq_plain_def)
      with sq_ran_put [OF ok t(2,3) _ t(5,6), of ?out E] out res Some x show ?thesis by simp
    qed
  qed
qed

lemma sq_batch_ran:
  assumes ok: "sq_kept pre c m" and b: "b \<longrightarrow> oom m = []"
  shows "sq_ran E b c m (sqlite_execute_batch E c q m) (sq_outcome f E (the (sq_db c)) (Sq_writes, q) (ext m))"
proof -
  let ?h = "the (sq_db c)"
  obtain r m1 where x: "sq_exec E ?h q m = (r, m1)" by (cases "sq_exec E ?h q m")
  have led: "ledger_ok m" using ok by (simp add: store_ok_def owned_def)
  have a: "acquired m (case r of None \<Rightarrow> [] | Some (rc, e) \<Rightarrow> opt_ids e) m1" by (rule sq_exec_acquired [OF x])
  have o: "oom m1 = oom m" "(r = None) = (fst (sqlite3_exec E ?h q (ext m)) = None)"
    using x by (auto simp: sq_exec_def rnew_def split: prod.splits option.splits)
  have out: "sq_outcome f E ?h (Sq_writes, q) (ext m) = Some (if r = None then Some [no_table] else None)"
    using o(2) by (simp add: sq_outcome_def split: prod.split)
  show ?thesis
  proof (cases r)
    case (Some p)
    obtain rc e where p: "p = (rc, e)" by (cases p)
    have "acquired m [] (cfree e m1)"
      using acquired_free_tail [OF led, of "[]" "opt_ids e" m1] a Some p by (simp add: cfree_free_all)
    moreover have "oom (cfree e m1) = oom m" by (simp add: cfree_free_all free_all_frame o(1))
    ultimately show ?thesis using Some p x out b
      by (auto simp: sqlite_execute_batch_def Let_def sq_failed_def snprintf_def SQLITE_ERR_BUF_def intro!: sq_ran_abort [OF ok])
  next
    case None
    obtain k m2 where k: "halloc () m1 = (k, m2)" by (cases "halloc () m1")
    show ?thesis
    proof (cases k)
      case k': None
      have "acquired m [] m2" using acquired_trans [of m "[]" m1 "[]" m2] a None halloc_None [of "()" m1 m2] k k' by simp
      moreover have "\<not> b" using halloc_plenty [of m1 "()"] k k' b o(1) by auto
      ultimately show ?thesis using None x k k'
        by (auto simp: sqlite_execute_batch_def Let_def sq_failed_def intro!: sq_ran_abort [OF ok])
    next
      case (Some blk)
      let ?nd = "\<lparr>sr_col_count = 0, sr_row_count = 0, sr_affected_rows = 0, col_names = None, cell_types = None,
          cell_lens = None, cell_data = None, sr_next = None\<rparr>"
      have "acquired m (sq_node_ids (addr blk) ?nd) m2"
        using acquired_trans [of m "[]" m1 "[addr blk]" m2] a None halloc_Some [OF k [unfolded Some]]
        by (simp add: sq_node_ids_def sq_well_def name_ids_def)
      moreover have "b \<longrightarrow> oom m2 = []" using halloc_plenty [of m1 "()"] k b o(1) by auto
      moreover have "table_of ?nd = no_table" "sq_agrees no_table no_table" by (simp_all add: table_of_def no_table_def sq_agrees_def)
      ultimately show ?thesis
        using None x k Some out by (auto simp: sqlite_execute_batch_def Let_def intro!: sq_ran_put [OF ok])
    qed
  qed
qed

end
