(* ===== verification/Sq_Multi.thy ===== *)
theory Sq_Multi
  imports Sq_Worker_Laws
begin

text \<open>
  The SQLite multi-read, one whole request of the worker, and the caller's own thread in
  \<open>sqlite_conn_exec_sync\<close>: results, memory, errors and termination.
\<close>

section \<open>The multi-read\<close>

definition sq_multi_end ::
  "('w, 's) sq_env \<Rightarrow> bool \<Rightarrow> sqlite_conn \<Rightarrow> (nat \<times> native_sqlite_result) list \<Rightarrow> (nat \<times> native_sqlite_result) list \<Rightarrow>
   'w mach \<Rightarrow> sq_table list option option \<Rightarrow>
   int \<times> sqlite_conn \<times> (nat \<times> native_sqlite_result) list \<times> nat option \<times> 'w mach \<Rightarrow> bool" where
  "sq_multi_end E b conn st0 news m0 out res \<longleftrightarrow> (case res of (rc, c', st', head', m') \<Rightarrow> (b \<longrightarrow> oom m' = []) \<and>
     ((rc = 2 \<and> st' = st0 \<and> sq_failed E b conn c' \<and> acquired m0 [] m' \<and> (b \<longrightarrow> out = Some None)) \<or>
     (rc = 1 \<and> c' = conn \<and> (\<exists>tail' news' ts rs. sq_res.building st0 st' head' tail' news' \<and> acquired m0 (sq_store news') m' \<and>
        out = Some (Some rs) \<and> map (table_of \<circ> snd) news' = map (table_of \<circ> snd) news @ ts \<and>
        list_all2 sq_agrees ts rs \<and> (b \<longrightarrow> ts = rs)))))"

lemma sq_multi_cons:
  assumes e: "sq_multi_end E b conn st0 news1 m0 out res"
    and news: "map (table_of \<circ> snd) news1 = map (table_of \<circ> snd) news @ [t]"
    and t: "sq_agrees t v" "b \<longrightarrow> t = v"
  shows "sq_multi_end E b conn st0 news m0 (map_option (map_option (Cons v)) out) res"
proof -
  obtain rc c' st' head' m' where res: "res = (rc, c', st', head', m')" by (cases res)
  from e res have o: "b \<longrightarrow> oom m' = []" by (simp add: sq_multi_end_def)
  from e res consider
    "rc = 2 \<and> st' = st0 \<and> sq_failed E b conn c' \<and> acquired m0 [] m' \<and> (b \<longrightarrow> out = Some None)"
    | tail' news' ts rs where "rc = 1" "c' = conn" "sq_res.building st0 st' head' tail' news'" "acquired m0 (sq_store news') m'"
      "out = Some (Some rs)" "map (table_of \<circ> snd) news' = map (table_of \<circ> snd) news1 @ ts" "list_all2 sq_agrees ts rs" "b \<longrightarrow> ts = rs"
    by (auto simp: sq_multi_end_def)
  then show ?thesis
  proof cases
    case 1
    with o show ?thesis by (auto simp: sq_multi_end_def res)
  next
    case 2
    then have "map (table_of \<circ> snd) news' = map (table_of \<circ> snd) news @ (t # ts)" "list_all2 sq_agrees (t # ts) (v # rs)"
      "b \<longrightarrow> t # ts = v # rs" using news t by simp_all
    with 2(1-5) o show ?thesis by (auto simp: sq_multi_end_def res)
  qed
qed

lemma sq_abort_chain:
  assumes "sq_res.building st0 st head tail news" "owned (pre @ sq_store st0) m0" "acquired m0 (sq_store news) m"
    "sqlite_free_result_chain head st m = (st', m')"
  shows "st' = st0 \<and> acquired m0 [] m' \<and> oom m' = oom m"
  using sq_res.built_abort [OF assms(1,2), of "[]" m st' m'] assms(3,4) by (simp add: sqlite_free_result_chain_def)

lemma sq_multi_abort:
  assumes "sq_res.building st0 st head tail news" "owned (pre @ sq_store st0) m0" "acquired m0 (sq_store news) m"
    and "sqlite_free_result_chain head st m = (st', m')"
    and "b \<longrightarrow> oom m = []" "sq_failed E b conn c'" "b \<longrightarrow> out = Some None"
  shows "sq_multi_end E b conn st0 news m0 out (2, c', st', head', m')"
  using sq_abort_chain [OF assms(1-4)] assms(5-7) by (simp add: sq_multi_end_def)

lemma sq_multi_linked:
  assumes bd: "sq_res.building st0 st head tail news" and own: "owned (pre @ sq_store st0) m0"
    and l: "sq_plain E f conn stmt b m0 (sq_store news) m (Some (w, nd), c1, m')"
  obtains head1 st1 news1 t where
    "link_node (\<lambda>p nd. nd\<lparr>sr_next := p\<rparr>) head tail w nd st m' = (head1, Some w, st1, m')" "c1 = conn" "b \<longrightarrow> oom m' = []"
    "sq_res.building st0 st1 head1 (Some w) news1" "acquired m0 (sq_store news1) m'"
    "map (table_of \<circ> snd) news1 = map (table_of \<circ> snd) news @ [table_of nd]"
    "sq_stmt_out f E (the (sq_db conn)) (map_option contents stmt) (ext m) = Some (Some t, ext m')"
    "sq_agrees (table_of nd) t" "b \<longrightarrow> table_of nd = t"
proof -
  from l obtain t where t: "c1 = conn" "acquired m0 (sq_store news @ sq_node_ids w nd) m'" "sr_next nd = None"
    "sq_stmt_out f E (the (sq_db conn)) (map_option contents stmt) (ext m) = Some (Some t, ext m')" "sq_agrees (table_of nd) t"
    "b \<longrightarrow> table_of nd = t" "b \<longrightarrow> oom m' = []"
    by (auto simp: sq_plain_def)
  from sq_res.built_link [OF bd own t(2,3)] that t show ?thesis by metis
qed

lemma sq_multi_loop_cases:
  assumes own: "owned (pre @ sq_store st0) m0"
  shows "sq_res.building st0 st head tail news \<Longrightarrow> acquired m0 (sq_store news) m \<Longrightarrow> b \<longrightarrow> oom m = [] \<Longrightarrow>
   sq_multi_loop f E conn cur st head tail m = Some res \<Longrightarrow>
   sq_multi_end E b conn st0 news m0 (sq_tables f E (the (sq_db conn)) cur (ext m)) res"
proof (induction f arbitrary: cur st head tail news m)
  case 0
  then show ?case by simp
next
  case (Suc f)
  note bd = Suc.prems(1) and acq = Suc.prems(2) and b = Suc.prems(3) and run = Suc.prems(4)
  let ?h = "the (sq_db conn)" and ?cur = "skip_blanks cur"
  have led: "ledger_ok m0" using own by (simp add: owned_def)
  show ?case
  proof (cases "?cur = []")
    case True
    with run have "res = (1, conn, st, head, m)" by (simp add: Let_def)
    moreover have "list_all2 sq_agrees [] []" by simp
    ultimately show ?thesis using True bd acq b by (auto simp: sq_multi_end_def)
  next
    case body: False
    obtain rc stmt used m1 where p: "sq_prepare E ?h ?cur m = (rc, stmt, used, m1)" by (cases "sq_prepare E ?h ?cur m")
    from sq_prepare_cases [OF p] obtain tok where a: "acquired m (opt_ids stmt) m1" "oom m1 = oom m"
      and tok: "sqlite3_prepare_v2 E ?h ?cur (ext m) = (rc, tok, used, ext m1)" "rc = SQLITE_OK \<longrightarrow> tok = map_option contents stmt"
        "rc \<noteq> SQLITE_OK \<longrightarrow> stmt = None" by blast
    have a1: "acquired m0 (sq_store news @ opt_ids stmt) m1" by (rule acquired_trans [OF acq a(1)])
    consider (bad) "rc \<noteq> SQLITE_OK" | (blank) "rc = SQLITE_OK" "stmt = None" | (stmt) s where "rc = SQLITE_OK" "stmt = Some s"
      by (cases stmt) auto
    then show ?thesis
    proof cases
      case bad
      obtain st1 m2 where f: "sqlite_free_result_chain head st m1 = (st1, m2)" by (cases "sqlite_free_result_chain head st m1")
      from a1 tok(3) bad have "acquired m0 (sq_store news) m1" by simp
      note ab = sq_multi_abort [OF bd own this f, of b E conn "sqlite_set_error E ?h (ext m1) conn" "Some None"]
      have "sq_failed E b conn (sqlite_set_error E ?h (ext m1) conn)" by (rule sq_failed_simps)
      moreover have "res = (2, sqlite_set_error E ?h (ext m1) conn, st1, None, m2)" using run body p bad f by (simp add: Let_def)
      moreover have "sq_tables (Suc f) E ?h cur (ext m) = Some None" using body bad tok(1) by (simp add: Let_def)
      ultimately show ?thesis using ab a(2) b by simp
    next
      case blank
      with run body p have "sq_multi_loop f E conn (drop used ?cur) st head tail m1 = Some res" by (simp add: Let_def)
      from Suc.IH [OF bd _ _ this] a1 a(2) b blank tok body show ?thesis by (simp add: Let_def)
    next
      case (stmt s)
      with run body p obtain r c1 m2 where st1: "materialize_stmt f E conn stmt m1 = Some (r, c1, m2)"
        by (auto simp: Let_def split: option.splits)
      have "b \<longrightarrow> oom m1 = []" using a(2) b by simp
      note l = materialize_law [OF led a1 this st1]
      have out: "sq_tables (Suc f) E ?h cur (ext m) = (case sq_stmt_out f E ?h (map_option contents stmt) (ext m1) of
            None \<Rightarrow> None
          | Some (None, w2) \<Rightarrow> Some None
          | Some (Some t, w2) \<Rightarrow> map_option (map_option (Cons t)) (sq_tables f E ?h (drop used ?cur) w2))"
        using body tok stmt by (simp add: Let_def)
      show ?thesis
      proof (cases r)
        case None
        obtain st1 m3 where f: "sqlite_free_result_chain head st m2 = (st1, m3)" by (cases "sqlite_free_result_chain head st m2")
        from l None have n: "acquired m0 (sq_store news) m2" "sq_failed E b conn c1" "b \<longrightarrow> oom m2 = []"
          "b \<longrightarrow> sq_stmt_out f E ?h (map_option contents stmt) (ext m1) = Some (None, ext m2)"
          by (simp_all add: sq_plain_def)
        have "res = (2, c1, st1, None, m3)" using run body p stmt st1 None f by (simp add: Let_def)
        moreover have "b \<longrightarrow> sq_tables (Suc f) E ?h cur (ext m) = Some None" using n(4) unfolding out by simp
        ultimately show ?thesis using sq_multi_abort [OF bd own n(1) f n(3,2)] by simp
      next
        case (Some x)
        obtain w nd where x: "x = (w, nd)" by (cases x)
        from sq_multi_linked [OF bd own l [unfolded Some x]] obtain head1 st2 news1 t where lk:
          "link_node (\<lambda>p nd. nd\<lparr>sr_next := p\<rparr>) head tail w nd st m2 = (head1, Some w, st2, m2)" "c1 = conn" "b \<longrightarrow> oom m2 = []"
          "sq_res.building st0 st2 head1 (Some w) news1" "acquired m0 (sq_store news1) m2"
          "map (table_of \<circ> snd) news1 = map (table_of \<circ> snd) news @ [table_of nd]"
          "sq_stmt_out f E ?h (map_option contents stmt) (ext m1) = Some (Some t, ext m2)"
          "sq_agrees (table_of nd) t" "b \<longrightarrow> table_of nd = t" .
        from run body p stmt st1 Some x lk(1,2)
        have "sq_multi_loop f E conn (drop used ?cur) st2 head1 (Some w) m2 = Some res" by (simp add: Let_def)
        from sq_multi_cons [OF Suc.IH [OF lk(4,5,3) this] lk(6,8,9)] show ?thesis unfolding out lk(7) by simp
      qed
    qed
  qed
qed

lemma sq_multi_ran:
  assumes ok: "sq_kept pre c m" and b: "b \<longrightarrow> oom m = []" and run: "sqlite_execute_multi_read f E c q m = Some res"
  shows "sq_ran E b c m res (sq_outcome f E (the (sq_db c)) (Sq_reads, q) (ext m))"
proof -
  from run obtain rc c1 st head m1 where l: "sq_multi_loop f E c q (results c) None None m = Some (rc, c1, st, head, m1)"
    and res: "res = (if rc = 2 then (rc, c1\<lparr>results := st\<rparr>, m1) else (rc, c1\<lparr>results := st, last_result := head\<rparr>, m1))"
    by (auto simp: sqlite_execute_multi_read_def split: option.splits if_splits)
  let ?out = "sq_outcome f E (the (sq_db c)) (Sq_reads, q) (ext m)"
  have bd: "sq_res.building (results c) (results c) None None []"
    using ok by (intro sq_res.building_start) (simp add: store_ok_def)
  have "acquired m (sq_store []) m" by simp
  from sq_multi_loop_cases [OF store_ok_owned [OF ok] bd this b l]
  have "sq_multi_end E b c (results c) [] m ?out (rc, c1, st, head, m1)" by (simp add: sq_outcome_def)
  then have o: "b \<longrightarrow> oom m1 = []" by (simp add: sq_multi_end_def)
  from \<open>sq_multi_end E b c (results c) [] m ?out (rc, c1, st, head, m1)\<close>
  consider "rc = 2" "st = results c" "sq_failed E b c c1" "acquired m [] m1" "b \<longrightarrow> ?out = Some None"
    | tail' news' ts rs where "rc = 1" "c1 = c" "sq_res.building (results c) st head tail' news'" "acquired m (sq_store news') m1"
      "?out = Some (Some rs)" "map (table_of \<circ> snd) news' = ts" "list_all2 sq_agrees ts rs" "b \<longrightarrow> ts = rs"
    by (auto simp: sq_multi_end_def)
  then show ?thesis
  proof cases
    case 1
    then have "c1\<lparr>results := st\<rparr> = c1" by (simp add: sq_failed_def)
    with res 1 o show ?thesis by (simp add: sq_ran_abort [OF ok])
  next
    case 2
    have "chain_at sr_next (map_of st) head (map fst news')" using 2(3) unfolding sq_res.building_def by blast
    with 2 have "sq_chain_views (c\<lparr>results := st, last_result := head\<rparr>) ts"
      using sq_res.building_distinct [OF 2(3)] sq_res.building_nodes [OF 2(3)]
      by (auto simp: sq_chain_views_def intro!: exI [of _ "map fst news'"])
    with sq_res.grown_built [OF 2(3,4)] 2 res o show ?thesis by (auto simp: sq_ran_def)
  qed
qed

section \<open>Termination\<close>

lemma sq_query_returns:
  assumes "sq_outcome f E (the (sq_db c)) (Sq_statement, q) (ext m) \<noteq> None" "oom m = []" "ledger_ok m"
  shows "sqlite_pool_execute_query f E c q m \<noteq> None"
proof -
  obtain rc stmt used m1 where p: "sq_prepare E (the (sq_db c)) q m = (rc, stmt, used, m1)" by (cases "sq_prepare E (the (sq_db c)) q m")
  from sq_prepare_cases [OF p] obtain tok where a: "acquired m (opt_ids stmt) m1" "oom m1 = oom m"
    and tok: "sqlite3_prepare_v2 E (the (sq_db c)) q (ext m) = (rc, tok, used, ext m1)" "rc = SQLITE_OK \<longrightarrow> tok = map_option contents stmt"
    by blast
  show ?thesis
  proof (cases "rc = SQLITE_OK")
    case True
    with assms(1) tok have "sq_stmt_out f E (the (sq_db c)) (map_option contents stmt) (ext m1) \<noteq> None"
      by (auto simp: sq_outcome_def)
    from materialize_returns [OF _ this acquired_ledger_ok [OF assms(3) a(1)], of c] a(2) assms(2)
    obtain r where "materialize_stmt f E c stmt m1 = Some r" by auto
    with p True show ?thesis
      by (cases r) (auto simp: sqlite_pool_execute_query_def Let_def split: option.split)
  qed (simp add: sqlite_pool_execute_query_def p)
qed

lemma sq_multi_loop_returns:
  "sq_tables f E (the (sq_db conn)) cur (ext m) \<noteq> None \<Longrightarrow> oom m = [] \<Longrightarrow> ledger_ok m \<Longrightarrow>
   sq_multi_loop f E conn cur st head tail m \<noteq> None"
proof (induction f arbitrary: cur st head tail m)
  case 0
  then show ?case by simp
next
  case (Suc f)
  let ?h = "the (sq_db conn)" and ?cur = "skip_blanks cur"
  obtain rc stmt used m1 where p: "sq_prepare E ?h ?cur m = (rc, stmt, used, m1)" by (cases "sq_prepare E ?h ?cur m")
  from sq_prepare_cases [OF p] obtain tok where a: "acquired m (opt_ids stmt) m1" "oom m1 = oom m"
    and tok: "sqlite3_prepare_v2 E ?h ?cur (ext m) = (rc, tok, used, ext m1)" "rc = SQLITE_OK \<longrightarrow> tok = map_option contents stmt"
    by blast
  have led1: "ledger_ok m1" by (rule acquired_ledger_ok [OF Suc.prems(3) a(1)])
  consider "?cur = []" | "rc \<noteq> SQLITE_OK" | (blank) "?cur \<noteq> []" "rc = SQLITE_OK" "stmt = None"
    | (stmt) s where "?cur \<noteq> []" "rc = SQLITE_OK" "stmt = Some s" by (cases stmt) auto
  then show ?case
  proof cases
    case blank
    with Suc.prems tok have "sq_tables f E ?h (drop used ?cur) (ext m1) \<noteq> None" by (simp add: Let_def)
    from Suc.IH [OF this] a(2) led1 Suc.prems(2) p blank show ?thesis by (simp add: Let_def)
  next
    case (stmt s)
    with Suc.prems(1) tok have o: "sq_stmt_out f E ?h (map_option contents stmt) (ext m1) \<noteq> None"
      by (auto simp: Let_def split: option.splits)
    from materialize_returns [OF _ this led1, of conn] a(2) Suc.prems(2) obtain r c1 m2 where
      mat: "materialize_stmt f E conn stmt m1 = Some (r, c1, m2)" by (metis not_None_eq prod_cases3)
    have "acquired m ([] @ opt_ids stmt) m1" "True \<longrightarrow> oom m1 = []" using a Suc.prems(2) by simp_all
    note l = materialize_law [OF Suc.prems(3) this mat, unfolded sq_plain_def prod.case]
    show ?thesis
    proof (cases r)
      case (Some x)
      obtain w nd where x: "x = (w, nd)" by (cases x)
      with l Some have t: "c1 = conn" "acquired m (sq_node_ids w nd) m2" "oom m2 = []"
        and "\<exists>t. sq_stmt_out f E ?h (map_option contents stmt) (ext m1) = Some (Some t, ext m2)"
        by auto
      with Suc.prems(1) stmt tok have "sq_tables f E ?h (drop used ?cur) (ext m2) \<noteq> None" by (auto simp: Let_def)
      moreover obtain head1 tail1 st1 m3 where lk: "link_node (\<lambda>p nd. nd\<lparr>sr_next := p\<rparr>) head tail w nd st m2 = (head1, tail1, st1, m3)"
        by (cases "link_node (\<lambda>p nd. nd\<lparr>sr_next := p\<rparr>) head tail w nd st m2")
      moreover have "ext m3 = ext m2 \<and> oom m3 = oom m2 \<and> live m3 = live m2 \<and> fresh m3 = fresh m2"
        using lk by (auto simp: link_node_def Let_def split: option.splits)
      moreover have "ledger_ok m2" by (rule acquired_ledger_ok [OF Suc.prems(3) t(2)])
      ultimately have "sq_multi_loop f E conn (drop used ?cur) st1 head1 tail1 m3 \<noteq> None"
        using t(3) by (intro Suc.IH) (auto simp: ledger_ok_def)
      with p stmt mat Some x t(1) lk show ?thesis by (simp add: Let_def)
    qed (use p stmt mat in \<open>auto simp: Let_def split: prod.split\<close>)
  qed (use p in \<open>auto simp: Let_def split: prod.split\<close>)
qed

end
