(* ===== verification/Sq_Machine.thy ===== *)
theory Sq_Machine
  imports Sq_Multi
begin

text \<open>
  The SQLite driver against the shared contract \<open>driver_laws\<close>: one request of the worker, the
  synchronous path on the caller's thread, stopping, polling, and the clients' calls. A
  synchronous call is one step of a client, since it holds the slot mutex throughout; it
  never touches the slot.
\<close>

section \<open>The worker's request\<close>

text \<open>What holds between the start and the end of a request.\<close>

definition sq_served :: "nat \<Rightarrow> ('w, 's) sq_env \<Rightarrow> bool \<Rightarrow> sqlite_conn \<Rightarrow> 'w mach \<Rightarrow> sq_kind \<times> string \<Rightarrow>
    int \<Rightarrow> sqlite_conn \<Rightarrow> 'w mach \<Rightarrow> bool" where
  "sq_served f E b c m req rc c' m' \<longleftrightarrow> sq_same c c' \<and> (b \<longrightarrow> oom m' = []) \<and>
     grown sr_next sq_node_ids (results c) m (results c') (last_result c') m' \<and> length (last_error c') \<le> 511 \<and>
     ((rc = 1 \<and> last_error_code c' = 0 \<and> last_error c' = [] \<and>
        (\<exists>ts rs. sq_outcome f E (the (sq_db c)) req (ext m) = Some (Some rs) \<and> sq_chain_views c' ts \<and>
           list_all2 sq_agrees ts rs \<and> (b \<longrightarrow> ts = rs))) \<or>
      (rc = 2 \<and> results c' = results c \<and> last_result c' = last_result c \<and> acquired m [] m' \<and>
        (b \<longrightarrow> sq_outcome f E (the (sq_db c)) req (ext m) = Some None \<and>
           (\<exists>w. last_error_code c' = sqlite3_extended_errcode E (the (sq_db c)) w))))"

lemma sq_ran_served:
  assumes ran: "sq_ran E b (sqlite_clear_error c) m (rc, c', m') (sq_outcome f E (the (sq_db c)) req (ext m))"
  shows "sq_served f E b c m req rc c' m'"
proof -
  let ?c = "sqlite_clear_error c"
  have c: "sq_same c ?c" "results ?c = results c" "last_result ?c = last_result c" "last_error ?c = []" "last_error_code ?c = 0"
    "sq_db ?c = sq_db c"
    by (simp_all add: sqlite_clear_error_def)
  from ran have g: "grown sr_next sq_node_ids (results c) m (results c') (last_result c') m'"
    and "(rc = 1 \<and> c' = ?c\<lparr>results := results c', last_result := last_result c'\<rparr> \<and>
        (\<exists>ts rs. sq_outcome f E (the (sq_db c)) req (ext m) = Some (Some rs) \<and> sq_chain_views c' ts \<and>
          list_all2 sq_agrees ts rs \<and> (b \<longrightarrow> ts = rs))) \<or>
      (rc = 2 \<and> sq_failed E b ?c c' \<and> acquired m [] m' \<and> (b \<longrightarrow> sq_outcome f E (the (sq_db c)) req (ext m) = Some None))"
    unfolding sq_ran_def prod.case c by blast+
  moreover have o: "b \<longrightarrow> oom m' = []" using ran by (simp add: sq_ran_def)
  ultimately show ?thesis
  proof (elim disjE conjE exE)
    fix ts rs
    assume rc: "rc = 1" and c': "c' = ?c\<lparr>results := results c', last_result := last_result c'\<rparr>"
      and out: "sq_outcome f E (the (sq_db c)) req (ext m) = Some (Some rs)" "sq_chain_views c' ts" "list_all2 sq_agrees ts rs" "b \<longrightarrow> ts = rs"
    have "sq_core c' = sq_core c" "last_error c' = []" "last_error_code c' = 0"
      by (subst c', simp add: sq_core_def sqlite_clear_error_def)+
    with g rc o out show ?thesis by (auto simp: sq_served_def sq_same_def)
  next
    assume "rc = 2" "sq_failed E b ?c c'" "acquired m [] m'" "b \<longrightarrow> sq_outcome f E (the (sq_db c)) req (ext m) = Some None"
    with g o c sq_same_trans [OF c(1)] show ?thesis by (auto simp: sq_served_def sq_failed_def)
  qed
qed

lemma sq_execute_cases:
  assumes own: "sq_own c m" and full: "slot_filled c" and b: "b \<longrightarrow> oom m = []"
    and run: "sqlite_worker_execute f E c m = Some (rc, c', m')"
  shows "sq_served f E b c m (sq_slot_request c) rc c' m'"
proof -
  let ?c = "sqlite_clear_error c"
  note D = sq_ownD [OF own]
  from full D(1) obtain s where s: "sql c = Some s" by (auto simp: sq_slot_ok_def)
  have ok: "sq_kept (sq_handles c @ opt_ids (sql c)) ?c m" "sq_db ?c = sq_db c"
    using D(5) by (simp_all add: sqlite_clear_error_def)
  have "sq_ran E b ?c m (rc, c', m') (sq_outcome f E (the (sq_db c)) (sq_slot_request c) (ext m))"
  proof -
    note b1 = sq_batch_ran [OF ok(1) b, of E "c_string (contents s)" f]
    from run s consider
      (1) "is_multi_read c" "sqlite_execute_multi_read f E ?c (c_string (contents s)) m = Some (rc, c', m')"
      | (2) "\<not> is_multi_read c" "is_batch c" "sqlite_execute_batch E ?c (c_string (contents s)) m = (rc, c', m')"
      | (3) "\<not> is_multi_read c" "\<not> is_batch c" "sqlite_pool_execute_query f E ?c (c_string (contents s)) m = Some (rc, c', m')"
      by (auto simp: sqlite_worker_execute_def Let_def split: if_splits)
    then show ?thesis
    proof cases
      case 1
      with sq_multi_ran [OF ok(1) b 1(2)] show ?thesis by (simp add: sq_slot_request_def s ok(2))
    next
      case 2
      with b1 show ?thesis by (simp add: sq_slot_request_def s ok(2))
    next
      case 3
      with sq_query_ran [OF ok(1) b 3(3)] show ?thesis by (simp add: sq_slot_request_def s ok(2))
    qed
  qed
  then show ?thesis by (rule sq_ran_served)
qed

lemma sq_served_own:
  assumes own: "sq_own c m" and s: "sq_served f E b c m req rc c' m'"
  shows "sq_own c' m' \<and> (rc = 1 \<or> rc = 2)"
proof -
  note D = sq_ownD [OF own]
  from s have same: "sq_same c c'" and g: "grown sr_next sq_node_ids (results c) m (results c') (last_result c') m'"
    and rc: "rc = 1 \<or> rc = 2" unfolding sq_served_def by blast+
  have "held m' = {}" using g D(3) by (auto simp: grown_def acquired_def)
  from sq_own_same [OF same D(1) this grown_store_ok [OF D(5) g]] rc show ?thesis by simp
qed

lemma sq_execute_law:
  assumes own: "sq_own c m" and full: "slot_filled c" and run: "sqlite_worker_execute f E c m = Some (rc, c', m')"
  shows "sq_own c' m' \<and> sq_same c c' \<and> (rc = 1 \<or> rc = 2)"
proof -
  have "False \<longrightarrow> oom m = []" by simp
  from sq_execute_cases [OF own full this run] have s: "sq_served f E False c m (sq_slot_request c) rc c' m'" .
  from sq_served_own [OF own s] s show ?thesis by (simp add: sq_served_def)
qed

lemma sq_execute_returns:
  assumes "sq_own c m" "slot_filled c" "oom m = []" "sq_outcome f E (the (sq_db c)) (sq_slot_request c) (ext m) \<noteq> None"
  shows "sqlite_worker_execute f E c m \<noteq> None"
proof -
  let ?c = "sqlite_clear_error c"
  note D = sq_ownD [OF assms(1)]
  from assms(2) D(1) obtain s where s: "sql c = Some s" by (auto simp: sq_slot_ok_def)
  have "sq_db ?c = sq_db c" by (simp add: sqlite_clear_error_def)
  note more = sq_query_returns [of f E ?c "c_string (contents s)" m] sq_multi_loop_returns [of f E ?c "c_string (contents s)" m]
  show ?thesis
  proof (cases "is_multi_read c")
    case True
    with assms(3,4) D(2) more(2) \<open>sq_db ?c = sq_db c\<close>
    have "sq_multi_loop f E ?c (c_string (contents s)) (results ?c) None None m \<noteq> None"
      by (simp add: sq_slot_request_def s sq_outcome_def)
    with True show ?thesis by (auto simp: sqlite_worker_execute_def s sqlite_execute_multi_read_def)
  next
    case False
    with assms(3,4) D(2) more(1) \<open>sq_db ?c = sq_db c\<close> show ?thesis
      by (cases "is_batch c") (simp_all add: sqlite_worker_execute_def s sq_slot_request_def del: not_None_eq)
  qed
qed

section \<open>The caller's own thread\<close>

text \<open>
  \<open>sqlite_conn_exec_sync\<close> refuses while a request is in the slot, and otherwise does what the
  worker would do with the statement: same results, same codes, same memory.
\<close>

lemma sq_sync_cases:
  assumes own: "sq_own c m" and b: "b \<longrightarrow> oom m = []"
    and run: "sqlite_conn_exec_sync f E (Some c) q m = Some (k, r, m')"
  shows "(k = 0 \<and> r = Some c \<and> acquired m [] m' \<and> (q = None \<or> slot_filled c \<or> shutdown_requested c)) \<or>
    (\<exists>body c' . q = Some body \<and> r = Some c' \<and> \<not> slot_filled c \<and> sq_served f E b c m (Sq_statement, body) k c' m')"
proof (cases "q = None \<or> slot_filled c \<or> shutdown_requested c")
  case True
  with run sq_ownD(3) [OF own] lock_refused [of "slot_mutex c" m] show ?thesis
    by (auto simp: sqlite_conn_exec_sync_def Let_def split: option.splits if_splits)
next
  case False
  then obtain body where q: "q = Some body" by auto
  let ?m1 = "mutex_lock (slot_mutex c) m" and ?c = "sqlite_clear_error c"
  note D = sq_ownD [OF own]
  from run False q obtain c' m2 where e: "sqlite_pool_execute_query f E ?c body ?m1 = Some (k, c', m2)"
    and r: "r = Some c'" "m' = mutex_unlock (slot_mutex c) m2"
    by (auto simp: sqlite_conn_exec_sync_def Let_def split: option.splits)
  have l: "ext ?m1 = ext m" "oom ?m1 = oom m" by (simp_all add: ledger)
  have up: "acquired ?m1 xs m2 \<Longrightarrow> acquired m xs m'" for xs
    unfolding r(2) using D(3) by (intro lock_unlock) simp_all
  have o2: "oom m' = oom m2" by (simp add: r(2) ledger)
  have ok: "sq_kept (sq_handles c @ opt_ids (sql c)) ?c ?m1" "sq_db ?c = sq_db c"
    using D(3,5) by (simp_all add: sqlite_clear_error_def store_ok_def owned_def ledger mutex_lock_def ledger_ok_def)
  have "b \<longrightarrow> oom ?m1 = []" using b l by simp
  from sq_query_ran [OF ok(1) this e] have
    ran: "sq_ran E b ?c ?m1 (k, c', m2) (sq_outcome f E (the (sq_db c)) (Sq_statement, body) (ext m))" by (simp add: ok(2) l)
  have "sq_ran E b ?c m (k, c', m') (sq_outcome f E (the (sq_db c)) (Sq_statement, body) (ext m))"
    using ran up o2 unfolding sq_ran_def grown_def by auto
  from sq_ran_served [OF this] q r False show ?thesis by blast
qed

section \<open>Stops and polls\<close>

definition sqlite_signal_stop :: "sqlite_conn \<Rightarrow> 'w mach \<Rightarrow> 'w mach" where
  "sqlite_signal_stop c m =
     mutex_unlock (slot_mutex c) (cond_signal (slot_cond c) (mutex_lock (slot_mutex c) m))"

definition sq_stop :: "sqlite_conn \<Rightarrow> 'w mach \<Rightarrow> sqlite_conn \<times> 'w mach" where
  "sq_stop c m = (let c' = c\<lparr>shutdown_requested := True\<rparr> in (c', sqlite_signal_stop c' m))"

lemma sq_stop_released: "held m = {} \<Longrightarrow> released m {} (sqlite_signal_stop c m)"
  by (simp add: sqlite_signal_stop_def lock_signal_unlock)

lemma sq_stop_law:
  assumes own: "sq_own c m" and run: "sq_stop c m = (c', m')"
  shows "sq_own c' m' \<and> slot_filled c' = slot_filled c \<and> port_id c' = port_id c \<and> shutdown_requested c'"
proof -
  have c': "c' = c\<lparr>shutdown_requested := True\<rparr>" "m' = sqlite_signal_stop c' m"
    using run by (auto simp: sq_stop_def Let_def)
  have "sq_own c' m" using own by (simp add: c' sq_own_def sq_slot_ok_def sq_handles_def)
  from sq_own_released [OF this sq_stop_released] sq_ownD(3) [OF own] c' show ?thesis by simp
qed

definition sq_client :: "sqlite_conn \<Rightarrow> 'w mach \<Rightarrow> (sqlite_conn \<times> 'w mach) list" where
  "sq_client c m =
     (case native_sqlite_poll_result (Some c) m of
        (Some (a, nd), Some c', m') \<Rightarrow> [(c', m'), (c', native_sqlite_clear_result a nd m')]
      | (None, Some c', m') \<Rightarrow> [(c', m')]
      | (_, None, m') \<Rightarrow> [])"

lemma sq_poll_own:
  assumes own: "sq_own c m" and poll: "native_sqlite_poll_result (Some c) m = (r, Some c', m')"
  shows "sq_same c c' \<and> sq_own c' m' \<and> m' = m \<and> (case r of None \<Rightarrow> True
    | Some (a, nd) \<Rightarrow> sq_own c' (native_sqlite_clear_result a nd m'))"
proof -
  note D = sq_ownD [OF own]
  let ?pre = "sq_handles c @ opt_ids (sql c)"
  obtain hd st m1 where p: "poll_head sr_next (last_result c) (results c) m = (r, hd, st, m1)" and
    c': "c' = c\<lparr>results := st, last_result := hd\<rparr>" "m' = m1"
    using poll by (auto simp: native_sqlite_poll_result_def split: prod.splits)
  from sq_res.store_poll [OF D(5) p] have q: "m1 = m" "store_ok sr_next sq_node_ids ?pre st hd m"
    "case r of None \<Rightarrow> st = results c | Some (a, nd) \<Rightarrow> owned (sq_node_ids a nd @ ?pre @ sq_store st) m"
    by blast+
  have same: "sq_same c c'" by (simp add: c')
  have "sq_own c' m" using q(2) c' by (intro sq_own_same [OF same D(1,3)]) simp
  moreover have "sq_own c' (native_sqlite_clear_result a nd m)" if r: "r = Some (a, nd)" for a nd
  proof -
    from q(3) r have o: "owned (sq_node_ids a nd @ ?pre @ sq_store st) m" by simp
    have f: "native_sqlite_clear_result a nd m = free_all (sq_node_ids a nd) m" by (rule sq_res.clear_law [OF o])
    from q(2) owned_free [OF o] have "store_ok sr_next sq_node_ids ?pre st hd (free_all (sq_node_ids a nd) m)"
      by (simp add: store_ok_def)
    then show ?thesis unfolding f using c' D(3) by (intro sq_own_same [OF same D(1)]) (simp_all add: ledger)
  qed
  ultimately show ?thesis using same q(1) c'(2) by (auto split: option.split)
qed

lemma sq_client_law:
  assumes own: "sq_own c m" and step: "(c', m') \<in> set (sq_client c m)"
  shows "sq_own c' m' \<and> sq_same c c'"
proof -
  obtain r d m1 where p: "native_sqlite_poll_result (Some c) m = (r, d, m1)" by (cases "native_sqlite_poll_result (Some c) m")
  then obtain d' where d: "d = Some d'" by (auto simp: native_sqlite_poll_result_def split: prod.splits)
  from sq_poll_own [OF own p [unfolded d]] step p d show ?thesis
    by (auto simp: sq_client_def split: option.splits)
qed

section \<open>The driver\<close>

datatype sq_call =
    Sq_query "string option"
  | Sq_batch "string option list" int
  | Sq_multi_read "string option list" int
  | Sq_sync nat "string option"

fun sq_call_ok :: "sq_call \<Rightarrow> bool" where
  "sq_call_ok (Sq_query q) = (\<forall>s. q = Some s \<longrightarrow> CHR 0x00 \<notin> set s)"
| "sq_call_ok (Sq_batch qs n) = (nat n \<le> length qs \<and> (\<forall>q \<in> set (take (nat n) qs). \<forall>s. q = Some s \<longrightarrow> CHR 0x00 \<notin> set s))"
| "sq_call_ok (Sq_multi_read qs n) = (nat n \<le> length qs \<and> (\<forall>q \<in> set (take (nat n) qs). \<forall>s. q = Some s \<longrightarrow> CHR 0x00 \<notin> set s))"
| "sq_call_ok (Sq_sync f q) = True"

text \<open>What the worker will run; a synchronous call leaves it nothing.\<close>

fun sq_call_request :: "sq_call \<Rightarrow> sq_kind \<times> string" where
  "sq_call_request (Sq_query q) = (Sq_statement, the q)"
| "sq_call_request (Sq_batch qs n) = (Sq_writes, trail (map the (take (nat n) qs)))"
| "sq_call_request (Sq_multi_read qs n) = (Sq_reads, trail (map the (take (nat n) qs)))"
| "sq_call_request (Sq_sync f q) = (Sq_statement, the q)"

text \<open>
  The clients' calls. A synchronous call is answered by its return value, not through a port:
  as a submission it counts as refused, and one that never returns takes no step.
\<close>

definition sq_submit ::
  "('w, 's) sq_env \<Rightarrow> sq_call \<Rightarrow> int \<Rightarrow> int \<Rightarrow> sqlite_conn \<Rightarrow> 'w mach \<Rightarrow> int \<times> sqlite_conn option \<times> 'w mach" where
  "sq_submit E call port t c m =
     (case call of
        Sq_query q \<Rightarrow> sqlite_pool_submit_query (Some c) q port t m
      | Sq_batch qs n \<Rightarrow> sqlite_pool_submit_batch (Some c) (Some qs) n port t m
      | Sq_multi_read qs n \<Rightarrow> sqlite_pool_submit_multi_read (Some c) (Some qs) n port t m
      | Sq_sync f q \<Rightarrow> (case sqlite_conn_exec_sync f E (Some c) q m of
            None \<Rightarrow> (0, None, m)
          | Some (status, c', m') \<Rightarrow> (0, c', m')))"

definition sq_is_sync :: "sq_call \<Rightarrow> bool" where
  "sq_is_sync call = (case call of Sq_sync f q \<Rightarrow> True | _ \<Rightarrow> False)"

lemma sq_submit_cases:
  assumes own: "sq_own c m" and call: "sq_call_ok call" "\<not> sq_is_sync call"
  shows "sq_refused c m (sq_submit E call port t c m) \<or>
    sq_accepted c m (sq_call_request call) port t (sq_submit E call port t c m)"
proof -
  note D = sq_ownD [OF own]
  have nh: "slot_mutex c \<notin> held m" using D(3) by simp
  show ?thesis
  proof (cases call)
    case (Sq_query q)
    with sq_query_cases [OF D(2) nh D(1), of q port t] call show ?thesis by (simp add: sq_submit_def)
  next
    case (Sq_batch qs n)
    with sq_joined_cases [OF D(2) nh, of n qs Sq_writes _ port t] call show ?thesis
      by (simp add: sq_submit_def sqlite_pool_submit_batch_def)
  next
    case (Sq_multi_read qs n)
    with sq_joined_cases [OF D(2) nh, of n qs Sq_reads _ port t] call show ?thesis
      by (simp add: sq_submit_def sqlite_pool_submit_multi_read_def)
  qed (use call in \<open>simp add: sq_is_sync_def\<close>)
qed

lemma sq_submit_law:
  assumes own: "sq_own c m" and call: "sq_call_ok call" and run: "sq_submit E call port t c m = (k, Some c', m')"
  shows "sq_own c' m' \<and> ((k = 0 \<and> sq_same c c') \<or> (k = 1 \<and> \<not> slot_filled c \<and> \<not> shutdown_requested c \<and>
    slot_filled c' \<and> port_id c' = port \<and> \<not> shutdown_requested c'))"
proof (cases "sq_is_sync call")
  case True
  then obtain f q where c: "call = Sq_sync f q" by (cases call) (auto simp: sq_is_sync_def)
  with run obtain st where s: "sqlite_conn_exec_sync f E (Some c) q m = Some (st, Some c', m')" and k: "k = 0"
    by (auto simp: sq_submit_def split: option.splits)
  have "False \<longrightarrow> oom m = []" by simp
  from sq_sync_cases [OF own this s] consider "c' = c" "acquired m [] m'"
    | body where "sq_served f E False c m (Sq_statement, body) st c' m'" by blast
  then show ?thesis
  proof cases
    case 1
    with sq_own_acquired [OF own] k show ?thesis by simp
  next
    case 2
    from sq_served_own [OF own 2] 2 k show ?thesis by (simp add: sq_served_def)
  qed
next
  case False
  from sq_submit_cases [OF own call False, of E port t] run consider
    "sq_refused c m (k, Some c', m')" | "sq_accepted c m (sq_call_request call) port t (k, Some c', m')" by auto
  then show ?thesis
  proof cases
    case 1
    with sq_own_acquired [OF own] show ?thesis by (auto simp: sq_refused_def)
  next
    case 2
    from sq_accepted_own [OF own 2] show ?thesis by simp
  qed
qed

text \<open>SQLite has no cancellation.\<close>

definition sq_driver :: "('w, 's) sq_env \<Rightarrow> (sq_call, sqlite_conn, 'w) driver" where
  "sq_driver E =
     \<lparr>d_filled = slot_filled, d_port = port_id, d_stopping = shutdown_requested,
      d_submit = sq_submit E, d_stop = sq_stop, d_cancel = (\<lambda>c m. m),
      d_client = sq_client, d_execute = (\<lambda>n. sqlite_worker_execute n E), d_clear = sqlite_worker_clear\<rparr>"

lemma sq_driver_simps [simp]:
  "d_filled (sq_driver E) = slot_filled" "d_port (sq_driver E) = port_id"
  "d_stopping (sq_driver E) = shutdown_requested" "d_submit (sq_driver E) = sq_submit E"
  "d_stop (sq_driver E) = sq_stop" "d_cancel (sq_driver E) c m = m"
  "d_client (sq_driver E) = sq_client" "d_execute (sq_driver E) n = sqlite_worker_execute n E"
  "d_clear (sq_driver E) = sqlite_worker_clear"
  by (simp_all add: sq_driver_def)

interpretation sq_drv: driver_laws "sq_driver E" sq_call_ok sq_own
  for E :: "('w, 's) sq_env"
proof unfold_locales
  fix c c' :: sqlite_conn and m m' :: "'w mach" and call port t k n st
  assume own: "sq_own c m"
  have view: "sq_same c c' \<Longrightarrow> same_view (sq_driver E) c c'"
    using sq_same_fields [of c c'] by (simp add: same_view_def)
  show "sq_own c' m' \<and> (k = 0 \<and> same_view (sq_driver E) c c' \<or>
      k = 1 \<and> \<not> d_filled (sq_driver E) c \<and> \<not> d_stopping (sq_driver E) c \<and> d_filled (sq_driver E) c' \<and>
      d_port (sq_driver E) c' = port \<and> \<not> d_stopping (sq_driver E) c')"
    if "sq_call_ok call" "d_submit (sq_driver E) call port t c m = (k, Some c', m')"
    using sq_submit_law [OF own that(1), of E port t k c' m'] that(2) view by auto
  show "sq_own c' m' \<and> d_filled (sq_driver E) c' = d_filled (sq_driver E) c \<and>
      d_port (sq_driver E) c' = d_port (sq_driver E) c \<and> d_stopping (sq_driver E) c'"
    if "d_stop (sq_driver E) c m = (c', m')"
    using sq_stop_law [OF own, of c' m'] that by simp
  show "sq_own c (d_cancel (sq_driver E) c m)" using own by simp
  show "sq_own c' m' \<and> same_view (sq_driver E) c c'"
    if "(c', m') \<in> set (d_client (sq_driver E) c m)"
    using sq_client_law [OF own, of c' m'] that view by simp
  show "sq_own c' m' \<and> same_view (sq_driver E) c c' \<and> (st = 1 \<or> st = 2)"
    if "d_filled (sq_driver E) c" "d_execute (sq_driver E) n c m = Some (st, c', m')"
    using sq_execute_law [OF own, of n E st c' m'] view that by simp
  show "sq_own c' m' \<and> \<not> d_filled (sq_driver E) c' \<and> d_stopping (sq_driver E) c' = d_stopping (sq_driver E) c"
    if "d_clear (sq_driver E) c m = (c', m')"
    using sq_clear_law [OF own, of c' m'] that by simp
qed

section \<open>Polling drains the chain in order\<close>

fun sq_polls :: "nat \<Rightarrow> sqlite_conn \<Rightarrow> 'w mach \<Rightarrow> sq_table option list" where
  "sq_polls 0 c m = []"
| "sq_polls (Suc k) c m =
     (case native_sqlite_poll_result (Some c) m of
        (r, Some c', m') \<Rightarrow> map_option (\<lambda>(a, nd). table_of nd) r # sq_polls k c' m'
      | (r, None, m') \<Rightarrow> [])"

lemma sq_polls_all:
  "sq_polls k c m = map (map_option (\<lambda>(a, nd). table_of nd)) (sq_res.poll_all k (last_result c) (results c) m)"
proof (induction k arbitrary: c m)
  case 0
  then show ?case by simp
next
  case (Suc k)
  obtain r hd st m1 where p: "poll_head sr_next (last_result c) (results c) m = (r, hd, st, m1)"
    by (cases "poll_head sr_next (last_result c) (results c) m") auto
  with Suc.IH [of "c\<lparr>results := st, last_result := hd\<rparr>" m1] show ?case
    by (simp add: native_sqlite_poll_result_def)
qed

lemma sq_polls_views:
  assumes "sq_own c m" "sq_chain_views c ts"
  shows "sq_polls (length ts) c m = map Some ts"
proof -
  from assms(2) obtain as where as: "chain_at sr_next (map_of (results c)) (last_result c) as" "distinct as"
    "ts = map (table_of \<circ> snd) (chain_nodes (results c) as)"
    by (auto simp: sq_chain_views_def)
  have "length ts = length as" by (simp add: as(3) chain_nodes_def)
  with sq_res.poll_all_chain [OF as(1,2) sq_ownD(6) [OF assms(1)], of m] show ?thesis
    by (simp add: sq_polls_all as(3) case_prod_beta' comp_def)
qed

end
