(* ===== verification/Sq_Pool.thy ===== *)
theory Sq_Pool
  imports Sq_Machine Pool_Life Lease_Contract
begin

text \<open>
  The SQLite pool of sqlite_pool.c: creation with its rollback, destruction, acquire and
  release. A connection handle is its index in \<open>conns\<close>; \<open>pthread_join\<close> is the end of the
  worker's thread, \<open>sqlite_worker_end\<close> with enough fuel for the request it still serves.
\<close>

record sqlite_pool =
  pool_block :: nat
  path :: "string cell option"
  busy_timeout_ms :: int
  max_size :: int
  default_acquire_timeout_ms :: int
  conns_block :: nat
  conns :: "sqlite_conn list"
  mutex :: nat
  free_cond :: nat
  shutting_down :: bool

definition sqlite_deadline_from_ms :: "timespec \<Rightarrow> int \<Rightarrow> timespec" where
  "sqlite_deadline_from_ms now delta_ms =
     (let s = tv_sec now + delta_ms sdiv 1000;
          ns = tv_nsec now + (delta_ms smod 1000) * 1000000
      in if ns \<ge> 1000000000 then \<lparr>tv_sec = s + 1, tv_nsec = ns - 1000000000\<rparr>
         else \<lparr>tv_sec = s, tv_nsec = ns\<rparr>)"

lemma sqlite_deadline_from_ms_eq: "sqlite_deadline_from_ms = deadline_from_ms"
  by (intro ext) (simp add: sqlite_deadline_from_ms_def deadline_from_ms_def Let_def)

section \<open>Connections come up and go down\<close>

text \<open>A failing WAL pragma is not fatal; its message is freed.\<close>

definition sqlite_open_conn :: "('w, 's) sq_env \<Rightarrow> string \<Rightarrow> int \<Rightarrow> 'w mach \<Rightarrow> nat option \<times> 'w mach" where
  "sqlite_open_conn E file busy m =
     (case sq_open E file m of (rc, dbh, m1) \<Rightarrow>
        if rc \<noteq> SQLITE_OK then (None, (case dbh of None \<Rightarrow> m1 | Some h \<Rightarrow> sq_close E h m1))
        else
          (let h = the dbh;
               m2 = (case sq_exec E h ''PRAGMA journal_mode=WAL;'' m1 of
                       (None, m2) \<Rightarrow> m2
                     | (Some (rc1, err), m2) \<Rightarrow> cfree err m2)
           in (Some h, m2\<lparr>ext := sqlite3_busy_timeout E h busy (ext m2)\<rparr>)))"

text \<open>A \<open>calloc\<close>ed \<open>sqlite_conn_t\<close>.\<close>

definition zero_sqlite_conn :: sqlite_conn where
  "zero_sqlite_conn = \<lparr>sq_db = None, sq_index = 0, in_use = False, worker = 0, slot_mutex = 0, slot_cond = 0,
     slot_filled = False, is_batch = False, is_multi_read = False, sql = None, port_id = 0, timeout_ms = 0,
     results = [], last_result = None, last_error = [], last_error_code = 0, shutdown_requested = False\<rparr>"

definition sqlite_init_conn ::
  "('w, 's) sq_env \<Rightarrow> sqlite_conn \<Rightarrow> string \<Rightarrow> int \<Rightarrow> int \<Rightarrow> 'w mach \<Rightarrow> int \<times> sqlite_conn \<times> 'w mach" where
  "sqlite_init_conn E conn file busy i m =
     (let c = conn\<lparr>sq_index := i, in_use := False, slot_filled := False, is_batch := False, is_multi_read := False,
                sql := None, port_id := 0, timeout_ms := 0, results := [], last_result := None, last_error := [],
                last_error_code := 0, shutdown_requested := False\<rparr>
      in case sqlite_open_conn E file busy m of
           (None, m1) \<Rightarrow> (-1, c\<lparr>sq_db := None\<rparr>, m1)
         | (Some h, m1) \<Rightarrow>
             (case init_sync (sq_close E h) m1 of
                (None, m2) \<Rightarrow> (-1, c\<lparr>sq_db := None\<rparr>, m2)
              | (Some (mu, cv, th), m2) \<Rightarrow>
                  (0, c\<lparr>sq_db := Some h, slot_mutex := mu, slot_cond := cv, worker := th\<rparr>, m2)))"

definition sqlite_join :: "nat \<Rightarrow> ('w, 's) sq_env \<Rightarrow> sqlite_conn \<Rightarrow> 'w mach \<Rightarrow> sqlite_conn \<times> 'w mach" where
  "sqlite_join fuel E conn m =
     (let (c, m1) = the (sqlite_worker_end fuel E conn m) in (c, rfree (worker conn) m1))"

definition sqlite_teardown_conn ::
  "nat \<Rightarrow> ('w, 's) sq_env \<Rightarrow> sqlite_conn \<Rightarrow> 'w mach \<Rightarrow> sqlite_conn \<times> 'w mach" where
  "sqlite_teardown_conn fuel E conn m =
     (case sq_db conn of
        None \<Rightarrow> (conn, m)
      | Some h \<Rightarrow>
          (let (c1, m1) = sqlite_join fuel E conn m;
               (c2, m2) = sqlite_pool_free_slot_payload c1 m1;
               (st, m3) = sqlite_free_result_chain (last_result c2) (results c2) m2
           in (c2\<lparr>results := st, last_result := None, sq_db := None\<rparr>,
               sq_close E h (rfree (slot_mutex conn) (rfree (slot_cond conn) m3)))))"

text \<open>Rollback of one connection: the flag, the signal and the tear-down.\<close>

definition sqlite_undo_conn :: "nat \<Rightarrow> ('w, 's) sq_env \<Rightarrow> sqlite_conn \<Rightarrow> 'w mach \<Rightarrow> 'w mach" where
  "sqlite_undo_conn fuel E c m =
     (let (c1, m1) = sq_stop c m in snd (sqlite_teardown_conn fuel E c1 m1))"

definition sqlite_bring_conn ::
  "('w, 's) sq_env \<Rightarrow> string \<Rightarrow> int \<Rightarrow> nat \<Rightarrow> 'w mach \<Rightarrow> sqlite_conn option \<times> 'w mach" where
  "sqlite_bring_conn E file busy i m =
     (case sqlite_init_conn E zero_sqlite_conn file busy (int i) m of
        (rc, c, m1) \<Rightarrow> (if rc \<noteq> 0 then (None, m1) else (Some c, m1)))"

definition sqlite_bring_up ::
  "nat \<Rightarrow> ('w, 's) sq_env \<Rightarrow> string \<Rightarrow> int \<Rightarrow> nat \<Rightarrow> 'w mach \<Rightarrow> sqlite_conn list option \<times> 'w mach" where
  "sqlite_bring_up fuel E file busy n m =
     bring_up (sqlite_bring_conn E file busy) (sqlite_undo_conn fuel E) n [] m"

definition sqlite_pool_create ::
  "nat \<Rightarrow> ('w, 's) sq_env \<Rightarrow> string option \<Rightarrow> int \<Rightarrow> int \<Rightarrow> int \<Rightarrow> int \<Rightarrow> 'w mach \<Rightarrow>
   sqlite_pool option \<times> 'w mach" where
  "sqlite_pool_create fuel E file min_n max_n acquire_timeout busy m =
     (case file of
        None \<Rightarrow> (None, m)
      | Some f \<Rightarrow>
          (if max_n < 1 then (None, m)
           else (case halloc () m of
               (None, m1) \<Rightarrow> (None, m1)
             | (Some blk, m1) \<Rightarrow>
                 (let (pa, m2) = sqlite_dup_string (Some f) m1;
                      bt = (if busy > 0 then busy else 5000);
                      undo = (\<lambda>k. rfree (addr blk) (cfree pa k))
                  in if pa = None then (None, undo m2)
                     else (case create_tail rfree (sqlite_bring_up fuel E (contents (the pa)) bt (nat max_n)) undo m2 of
                         (None, m3) \<Rightarrow> (None, m3)
                       | (Some (mu, cv, cb, cs), m3) \<Rightarrow>
                           (Some \<lparr>pool_block = addr blk, path = pa, busy_timeout_ms = bt, max_size = max_n,
                              default_acquire_timeout_ms = acquire_timeout, conns_block = cb, conns = cs, mutex = mu,
                              free_cond = cv, shutting_down = False\<rparr>, m3))))))"

definition sqlite_pool_destroy :: "nat \<Rightarrow> ('w, 's) sq_env \<Rightarrow> sqlite_pool option \<Rightarrow> 'w mach \<Rightarrow> 'w mach" where
  "sqlite_pool_destroy fuel E pool m =
     (case pool of
        None \<Rightarrow> m
      | Some p \<Rightarrow>
          (let (cs, m1) = stop_all sq_stop (conns p) m;
               m2 = fold (\<lambda>c k. snd (sqlite_teardown_conn fuel E c k)) cs m1;
               m3 = mutex_unlock (mutex p) (cond_signal (free_cond p) (mutex_lock (mutex p) m2))
           in rfree (pool_block p) (cfree (path p) (rfree (mutex p) (rfree (free_cond p) (rfree (conns_block p) m3))))))"

section \<open>Acquire and release\<close>

definition sqlite_set_in_use :: "bool \<Rightarrow> nat \<Rightarrow> sqlite_pool \<Rightarrow> sqlite_pool" where
  "sqlite_set_in_use b i p = p\<lparr>conns := (conns p)[i := (conns p ! i)\<lparr>in_use := b\<rparr>]\<rparr>"

definition sqlite_try_acquire :: "sqlite_pool \<Rightarrow> nat option \<times> sqlite_pool" where
  "sqlite_try_acquire p =
     (case scan_free in_use (take (nat (max_size p)) (conns p)) 0 of
        None \<Rightarrow> (None, p)
      | Some i \<Rightarrow> (Some i, sqlite_set_in_use True i p))"

definition sqlite_pool_acquire ::
  "timespec \<Rightarrow> sqlite_pool wake list \<Rightarrow> sqlite_pool option \<Rightarrow> int \<Rightarrow> acquire_result \<times> sqlite_pool option" where
  "sqlite_pool_acquire now ws pool timeout =
     (case pool of
        None \<Rightarrow> (Refused, None)
      | Some p \<Rightarrow>
          (if shutting_down p then (Refused, Some p)
           else (let eff = (if timeout = 0 then default_acquire_timeout_ms p else timeout);
                     (r, q) = acquire_loop shutting_down sqlite_try_acquire eff
                                (sqlite_deadline_from_ms now eff) ws p
                 in (r, Some q))))"

definition sqlite_pool_release ::
  "sqlite_pool option \<Rightarrow> nat option \<Rightarrow> 'w mach \<Rightarrow> sqlite_pool option \<times> 'w mach" where
  "sqlite_pool_release pool conn m =
     (case (pool, conn) of
        (Some p, Some i) \<Rightarrow>
          (Some (sqlite_set_in_use False i p),
           mutex_unlock (mutex p) (cond_signal (free_cond p) (mutex_lock (mutex p) m)))
      | _ \<Rightarrow> (pool, m))"

end
