(* ===== verification/Sq_Pool_Laws.thy ===== *)
theory Sq_Pool_Laws
  imports Sq_Pool
begin

text \<open>
  The SQLite pool: connections come up and go down with nothing lost (\<open>conn_life\<close>,
  \<open>conn_end\<close>), creation is all or nothing, destruction gives everything back, and the array
  of connections is a \<open>conn_array\<close>.
\<close>

section \<open>A connection comes up\<close>

definition sq_fresh_conn :: "sqlite_conn \<Rightarrow> bool" where
  "sq_fresh_conn c \<longleftrightarrow> sq_slot_ok c \<and> \<not> slot_filled c \<and> results c = [] \<and> last_result c = None \<and> \<not> in_use c"

lemma sq_close_acquired: "ledger_ok m0 \<Longrightarrow> acquired m0 [h] m \<Longrightarrow> acquired m0 [] (sq_close E h m)"
  using acquired_rfree_one [of m0 h "m\<lparr>ext := sqlite3_close_v2 E h (ext m)\<rparr>"] by (simp add: sq_close_def)

lemma sq_open_conn_cases:
  assumes ok: "ledger_ok m" and run: "sqlite_open_conn E f bt m = (r, m')"
  shows "acquired m (nat_ids r) m'"
proof -
  obtain rc p m1 where o: "sq_open E f m = (rc, p, m1)" by (cases "sq_open E f m")
  note a = sq_open_acquired [OF o]
  show ?thesis
  proof (cases "rc = SQLITE_OK")
    case False
    with run o a sq_close_acquired [OF ok, of _ m1 E] show ?thesis
      by (auto simp: sqlite_open_conn_def split: option.splits)
  next
    case True
    with o obtain h where p: "p = Some h" by (auto simp: sq_open_def rnew_def split: prod.splits if_splits)
    obtain e m2 where x: "sq_exec E h ''PRAGMA journal_mode=WAL;'' m1 = (e, m2)" by (cases "sq_exec E h ''PRAGMA journal_mode=WAL;'' m1")
    have "acquired m ([h] @ (case e of None \<Rightarrow> [] | Some (rc, er) \<Rightarrow> opt_ids er)) m2"
      using acquired_trans [OF a sq_exec_acquired [OF x]] by (simp add: p)
    with acquired_free_tail [OF ok, of "[h]" "opt_ids er" m2 for er] run o True p x show ?thesis
      by (auto simp: sqlite_open_conn_def cfree_free_all Let_def split: option.splits prod.splits)
  qed
qed

lemma sq_bring_conn_law:
  assumes ok: "ledger_ok m" and run: "sqlite_bring_conn E f bt i m = (r, m')"
  shows "case r of None \<Rightarrow> acquired m [] m' | Some c \<Rightarrow> acquired m (sq_handles c) m' \<and> sq_fresh_conn c"
proof -
  obtain k m1 where o: "sqlite_open_conn E f bt m = (k, m1)" by (cases "sqlite_open_conn E f bt m")
  note a0 = sq_open_conn_cases [OF ok o]
  note defs = sqlite_bring_conn_def sqlite_init_conn_def Let_def o
  show ?thesis
  proof (cases k)
    case None
    with a0 run show ?thesis by (auto simp: defs)
  next
    case (Some h)
    with a0 have a1: "acquired m [h] m1" by simp
    obtain s m2 where i: "init_sync (sq_close E h) m1 = (s, m2)" by (cases "init_sync (sq_close E h) m1")
    from init_sync_law [OF ok a1 sq_close_acquired [OF ok] i] run i Some show ?thesis
      by (cases s) (auto simp: defs sq_handles_def sq_fresh_conn_def sq_slot_ok_def zero_sqlite_conn_def)
  qed
qed

section \<open>A connection goes down\<close>

definition sq_covers :: "sqlite_conn \<Rightarrow> bool" where
  "sq_covers c \<longleftrightarrow> (\<exists>as. chain_at sr_next (map_of (results c)) (last_result c) as \<and> distinct as \<and>
     fst ` set (results c) = set as)"

text \<open>
  The clients drain a connection's results before its next request; otherwise the request
  drops the chain it finds.
\<close>

definition sq_tidy :: "sqlite_conn \<Rightarrow> bool" where
  "sq_tidy c \<longleftrightarrow> sq_covers c \<and> (slot_filled c \<longrightarrow> results c = [])"

lemma sq_covers_none: "results c = [] \<Longrightarrow> last_result c = None \<Longrightarrow> sq_covers c"
  by (auto simp: sq_covers_def intro!: exI [of _ "[]"])

text \<open>The worker's thread after a stop: it serves what is in the slot, then ends.\<close>

lemma sq_worker_ends:
  assumes own: "sq_own c m" and tidy: "sq_tidy c" and stop: "shutdown_requested c"
    and run: "sqlite_worker_end n E c m = Some (c1, m1)"
  shows "\<exists>xs m2. acquired m xs m2 \<and> released m2 (set (opt_ids (sql c))) m1 \<and> (oom m = [] \<longrightarrow> oom m1 = []) \<and>
    mset (sq_store (results c1)) = mset (sq_store (results c)) + mset xs \<and> sq_own c1 m1 \<and>
    \<not> slot_filled c1 \<and> sq_handles c1 = sq_handles c \<and> sq_covers c1"
proof (cases "slot_filled c")
  case False
  then have sql: "sql c = None" using sq_ownD(1) [OF own] by (simp add: sq_slot_ok_def)
  from run False stop have "c1 = c" "m1 = m" by (auto simp: sqlite_worker_end_def worker_choose_def)
  with own tidy False sql show ?thesis
    by (auto simp: sq_tidy_def intro!: exI [of _ "[]"] exI [of _ m])
next
  case True
  let ?m0 = "mutex_unlock (slot_mutex c) (mutex_lock (slot_mutex c) m)"
  note D = sq_ownD [OF own]
  have a0: "acquired m [] ?m0" using D(3) by (intro lock_refused) simp
  note own0 = sq_own_acquired [OF own a0]
  have emp: "results c = []" using tidy True by (simp add: sq_tidy_def)
  from run True obtain rc c2 m2 where ex: "sqlite_worker_execute n E c ?m0 = Some (rc, c2, m2)"
    and cl: "sqlite_worker_clear c2 m2 = (c1, m1)"
    by (auto simp: sqlite_worker_end_def worker_choose_def split: option.splits)
  have "oom m = [] \<longrightarrow> oom ?m0 = []" by (simp add: ledger)
  from sq_execute_cases [OF own0 True this ex] have K: "sq_served n E (oom m = []) c ?m0 (sq_slot_request c) rc c2 m2" .
  from sq_served_own [OF own0 K] have own2: "sq_own c2 m2" by simp
  from K have same: "sq_same c c2" and g: "grown sr_next sq_node_ids (results c) ?m0 (results c2) (last_result c2) m2"
    and calm: "oom m = [] \<longrightarrow> oom m2 = []"
    by (simp_all add: sq_served_def)
  moreover have "oom m1 = oom m2"
    using cl by (auto simp: sqlite_worker_clear_def sqlite_pool_free_slot_payload_def cfree_free_all free_all_frame ledger Let_def)
  from g obtain xs as where xs: "acquired ?m0 xs m2" "mset (sq_store (results c2)) = mset (sq_store (results c)) + mset xs"
    and as: "chain_at sr_next (map_of (results c2)) (last_result c2) as" "distinct as" "fst ` set (results c2) = set as"
    using emp by (auto simp: grown_def)
  note CL = sq_clear_law [OF own2 cl] and F = sq_same_fields [OF same]
  have "acquired m xs m2" using acquired_trans [OF a0 xs(1)] by simp
  moreover have "sq_covers c1" using as CL by (auto simp: sq_covers_def)
  moreover have "released m2 (set (opt_ids (sql c))) m1" using CL F(8) by simp
  ultimately show ?thesis using CL F xs(2) calm \<open>oom m1 = oom m2\<close> by fastforce
qed

text \<open>What is left then is dismantled completely.\<close>

lemma sq_dismantle:
  assumes own: "sq_own c m" and emp: "\<not> slot_filled c" and cov: "sq_covers c"
  shows "\<exists>st m3. sqlite_free_result_chain (last_result c) (results c) (rfree (worker c) m) = (st, m3) \<and>
    released m (set (sq_handles c @ sq_store (results c)))
      (sq_close E (the (sq_db c)) (rfree (slot_mutex c) (rfree (slot_cond c) m3))) \<and> oom m3 = oom m"
proof -
  note D = sq_ownD [OF own]
  let ?rest = "[slot_cond c, slot_mutex c, the (sq_db c)]"
  have sql: "sql c = None" using D(1) emp by (simp add: sq_slot_ok_def)
  have ok: "sq_kept (worker c # ?rest) c m"
    by (rule store_ok_mset [OF D(5)]) (simp add: sql sq_handles_def)
  from cov obtain as where as: "chain_at sr_next (map_of (results c)) (last_result c) as" "distinct as"
    "fst ` set (results c) = set as" by (auto simp: sq_covers_def)
  from sq_res.store_dismantle [OF ok as] obtain m3 where
    m3: "sqlite_free_result_chain (last_result c) (results c) (rfree (worker c) m) = ([], m3)" "oom m3 = oom m"
    and rel: "\<forall>x. released m (set (worker c # ?rest @ sq_store (results c))) (free_all ?rest (m3\<lparr>ext := x\<rparr>))"
    by (auto simp: sqlite_free_result_chain_def)
  have "sq_close E (the (sq_db c)) (rfree (slot_mutex c) (rfree (slot_cond c) m3)) =
      free_all ?rest (m3\<lparr>ext := sqlite3_close_v2 E (the (sq_db c)) (ext m3)\<rparr>)"
    by (simp add: sq_close_def rfree_frame rfree_ext_update)
  with rel m3 show ?thesis by (simp add: sq_handles_def insert_commute)
qed

lemma sq_teardown_law:
  assumes own: "sq_own c m" and tidy: "sq_tidy c" and stop: "shutdown_requested c"
    and ends: "sqlite_worker_end n E c m \<noteq> None"
  shows "released m (set (sq_handles c @ opt_ids (sql c) @ sq_store (results c))) (snd (sqlite_teardown_conn n E c m)) \<and>
    (oom m = [] \<longrightarrow> oom (snd (sqlite_teardown_conn n E c m)) = [])"
proof -
  note D = sq_ownD [OF own]
  from ends obtain c1 m1 where e: "sqlite_worker_end n E c m = Some (c1, m1)" by auto
  from sq_worker_ends [OF own tidy stop e] obtain xs m2 where w: "acquired m xs m2"
    "released m2 (set (opt_ids (sql c))) m1" "mset (sq_store (results c1)) = mset (sq_store (results c)) + mset xs"
    and own1: "sq_own c1 m1" and emp: "\<not> slot_filled c1" and hs: "sq_handles c1 = sq_handles c" and cov: "sq_covers c1"
    and o1: "oom m = [] \<longrightarrow> oom m1 = []"
    by blast
  have sql1: "sql c1 = None" using sq_ownD(1) [OF own1] emp by (simp add: sq_slot_ok_def)
  from hs have ids: "worker c1 = worker c" "slot_mutex c1 = slot_mutex c" "slot_cond c1 = slot_cond c"
    "the (sq_db c1) = the (sq_db c)" by (simp_all add: sq_handles_def)
  from sq_dismantle [OF own1 emp cov, of E] obtain st m3 where
    d: "sqlite_free_result_chain (last_result c1) (results c1) (rfree (worker c) m1) = (st, m3)"
    "released m1 (set (sq_handles c @ sq_store (results c1)))
      (sq_close E (the (sq_db c)) (rfree (slot_mutex c) (rfree (slot_cond c) m3)))" "oom m3 = oom m1"
    by (auto simp: hs ids)
  from D(1) obtain h where h: "sq_db c = Some h" by (auto simp: sq_slot_ok_def)
  have t: "snd (sqlite_teardown_conn n E c m) = sq_close E h (rfree (slot_mutex c) (rfree (slot_cond c) m3))"
    using d(1) by (simp add: sqlite_teardown_conn_def sqlite_join_def h e sqlite_pool_free_slot_payload_def sql1 cfree_def)
  have "set (opt_ids (sql c)) \<union> set (sq_handles c @ sq_store (results c1)) =
      set xs \<union> set (sq_handles c @ opt_ids (sql c) @ sq_store (results c))"
    using mset_eq_setD [of "sq_store (results c1)" "sq_store (results c) @ xs"] w(3) by auto
  with released_trans [OF w(2) d(2)] acquired_then_released [OF D(2) w(1)] o1 d(3) show ?thesis
    by (simp add: t h sq_close_def rfree_frame)
qed

section \<open>The contracts\<close>

lemma sq_undo_law:
  assumes ok: "ledger_ok m" "held m = {}" "\<not> fault m" and fr: "sq_fresh_conn c"
    and ids: "distinct (sq_handles c)" "set (sq_handles c) \<subseteq> live m"
  shows "released m (set (sq_handles c)) (sqlite_undo_conn n E c m)"
proof -
  let ?c = "c\<lparr>shutdown_requested := True\<rparr>" and ?m = "sqlite_signal_stop (c\<lparr>shutdown_requested := True\<rparr>) m"
  have rel: "released m {} ?m" by (rule sq_stop_released [OF ok(2)])
  have sql: "sql c = None" "results c = []" "last_result c = None" "\<not> slot_filled c"
    using fr by (auto simp: sq_fresh_conn_def sq_slot_ok_def)
  have "sq_own ?c m"
    using fr ok ids sql by (auto simp: sq_own_def sq_slot_ok_def sq_fresh_conn_def store_ok_def owned_def sq_handles_def
        intro!: exI [of _ "[]"])
  then have own: "sq_own ?c ?m" by (rule sq_own_released [OF _ rel])
  have "sqlite_worker_end n E ?c ?m \<noteq> None"
    using sql by (simp add: sqlite_worker_end_def worker_choose_def)
  from sq_teardown_law [OF own _ _ this] sql sq_covers_none [of ?c]
  have "released ?m (set (sq_handles c)) (snd (sqlite_teardown_conn n E ?c ?m))"
    by (simp add: sq_tidy_def sq_handles_def)
  from released_trans [OF rel this] show ?thesis by (simp add: sqlite_undo_conn_def sq_stop_def Let_def)
qed

interpretation sq_life: conn_life "sqlite_bring_conn E f bt" "sqlite_undo_conn n E" sq_handles sq_fresh_conn
  for E :: "('w, 's) sq_env" and f bt n
proof unfold_locales
  fix m m' :: "'w mach" and i and r :: "sqlite_conn option" and c :: sqlite_conn
  show "case r of None \<Rightarrow> acquired m [] m' | Some c \<Rightarrow> acquired m (sq_handles c) m' \<and> sq_fresh_conn c"
    if "ledger_ok m" "sqlite_bring_conn E f bt i m = (r, m')"
    by (rule sq_bring_conn_law [OF that])
  show "released m (set (sq_handles c)) (sqlite_undo_conn n E c m)"
    if "ledger_ok m" "held m = {}" "\<not> fault m" "sq_fresh_conn c" "distinct (sq_handles c)" "set (sq_handles c) \<subseteq> live m"
    by (rule sq_undo_law [OF that])
qed

text \<open>A worker that was told to stop, and whose last request ends.\<close>

definition sq_stopped :: "nat \<Rightarrow> ('w, 's) sq_env \<Rightarrow> sqlite_conn \<Rightarrow> bool" where
  "sq_stopped n E c \<longleftrightarrow> shutdown_requested c \<and>
     (slot_filled c \<longrightarrow> (\<forall>w. sq_outcome n E (the (sq_db c)) (sq_slot_request c) w \<noteq> None))"

definition sq_owns :: "sqlite_conn \<Rightarrow> nat set \<Rightarrow> 'w mach \<Rightarrow> bool" where
  "sq_owns c X m \<longleftrightarrow> sq_own c m \<and> sq_tidy c \<and> X = set (sq_handles c @ opt_ids (sql c) @ sq_store (results c))"

lemma sq_worker_end_returns:
  assumes "sq_stopped n E c" "sq_own c m" "oom m = []"
  shows "sqlite_worker_end n E c m \<noteq> None"
proof (cases "slot_filled c")
  case False
  with assms(1) show ?thesis by (simp add: sq_stopped_def sqlite_worker_end_def worker_choose_def)
next
  case True
  let ?m0 = "mutex_unlock (slot_mutex c) (mutex_lock (slot_mutex c) m)"
  have "acquired m [] ?m0" using sq_ownD(3) [OF assms(2)] by (intro lock_refused) simp
  from sq_own_acquired [OF assms(2) this] have "sqlite_worker_execute n E c ?m0 \<noteq> None"
    using assms True by (intro sq_execute_returns) (simp_all add: sq_stopped_def ledger)
  with True show ?thesis by (auto simp: sqlite_worker_end_def worker_choose_def)
qed

interpretation sq_end: conn_end "\<lambda>c m. snd (sqlite_teardown_conn n E c m)" sq_owns "sq_stopped n E" "\<lambda>m. oom m = []"
  for E :: "('w, 's) sq_env" and n
proof unfold_locales
  fix m m' :: "'w mach" and c :: sqlite_conn and X Y
  show "released m X (snd (sqlite_teardown_conn n E c m)) \<and> oom (snd (sqlite_teardown_conn n E c m)) = []"
    if "oom m = []" "sq_stopped n E c" "sq_owns c X m"
    using that sq_worker_end_returns [of n E c m] sq_teardown_law [of c m n E]
    by (auto simp: sq_owns_def sq_stopped_def)
  show "sq_owns c X m'" if "sq_owns c X m" "released m Y m'" "X \<inter> Y = {}"
  proof -
    let ?ids = "sq_handles c @ opt_ids (sql c) @ sq_store (results c)"
    from that(1) have own: "sq_own c m" and X: "X = set ?ids" by (simp_all add: sq_owns_def)
    have "owned ?ids m" using store_ok_owned [OF sq_ownD(5) [OF own]] by simp
    from owned_released [OF this that(2)] that(3) X have "owned ?ids m'" by simp
    with own that(2) have "sq_own c m'" by (simp add: sq_own_def store_ok_def released_def)
    with that(1) show ?thesis by (simp add: sq_owns_def)
  qed
qed

interpretation sq_array: conn_array max_size conns in_use sqlite_set_in_use sqlite_try_acquire
  by unfold_locales (auto simp: sqlite_set_in_use_def sqlite_try_acquire_def nth_list_update)

section \<open>Creation and destruction\<close>

definition sq_pool_ids :: "sqlite_pool \<Rightarrow> nat list" where
  "sq_pool_ids p = [pool_block p] @ opt_ids (path p) @ [mutex p, free_cond p, conns_block p]"

lemma sqlite_pool_create_cases:
  assumes ok: "ledger_ok m" and h0: "held m = {}" and f0: "\<not> fault m"
    and run: "sqlite_pool_create fuel E file mn max_n t busy m = (r, m')"
  shows "case r of None \<Rightarrow> acquired m [] m'
    | Some p \<Rightarrow> acquired m (sq_pool_ids p @ concat (map sq_handles (conns p))) m' \<and>
        (\<forall>c \<in> set (conns p). sq_fresh_conn c) \<and> max_size p = max_n \<and> length (conns p) = nat max_n \<and> 1 \<le> max_n \<and>
        map_option contents (path p) = file \<and> busy_timeout_ms p = (if busy > 0 then busy else 5000) \<and>
        default_acquire_timeout_ms p = t \<and> \<not> shutting_down p"
proof (cases "file = None \<or> max_n < 1")
  case True
  with run show ?thesis by (auto simp: sqlite_pool_create_def split: option.splits)
next
  case False
  then obtain f where f: "file = Some f" by auto
  obtain k m1 where k: "halloc () m = (k, m1)" by (cases "halloc () m")
  show ?thesis
  proof (cases k)
    case None
    with run False f k halloc_None [of "()" m m1] show ?thesis by (auto simp: sqlite_pool_create_def)
  next
    case (Some blk)
    let ?bt = "if busy > 0 then busy else 5000"
    obtain pa m2 where pa: "dup_string (Some f) m1 = (pa, m2)" by (cases "dup_string (Some f) m1")
    have a1: "acquired m [addr blk] m1" using halloc_Some [OF k [unfolded Some]] by simp
    let ?undo = "\<lambda>k. rfree (addr blk) (cfree pa k)"
    have a2: "acquired m ([addr blk] @ opt_ids pa) m2" "pa = None \<or> map_option contents pa = Some f"
      using acquired_trans [OF a1, of "opt_ids pa" m2] dup_string_Some [of "Some f" m1 _ m2] dup_string_None [of "Some f" m1 m2] pa
      by (cases pa; simp)+
    have undo: "acquired m [] (?undo k)" if "acquired m ([addr blk] @ opt_ids pa) k" for k
      using acquired_free_every [OF ok that, of "opt_ids pa @ [addr blk]"] that
      by (auto simp: cfree_free_all free_all_append acquired_def)
    show ?thesis
    proof (cases pa)
      case None
      with run False f k Some pa undo [OF a2(1)] show ?thesis
        by (auto simp: sqlite_pool_create_def sqlite_dup_string_eq Let_def)
    next
      case path: (Some c)
      obtain s m3 where ct: "create_tail rfree (sqlite_bring_up fuel E (contents c) ?bt (nat max_n)) ?undo m2 = (s, m3)"
        by (cases "create_tail rfree (sqlite_bring_up fuel E (contents c) ?bt (nat max_n)) ?undo m2")
      have drop: "acquired m [] (?undo (rfree mu k))" if "acquired m (([addr blk] @ opt_ids pa) @ [mu]) k" for mu k
        using undo acquired_drop [OF ok that, of "[mu]"] by simp
      have up: "case cs of None \<Rightarrow> acquired k [] k'
          | Some cs \<Rightarrow> acquired k (concat (map sq_handles cs)) k' \<and> (\<forall>c \<in> set cs. sq_fresh_conn c) \<and> length cs = nat max_n"
        if "acquired m xs k" "sqlite_bring_up fuel E (contents c) ?bt (nat max_n) k = (cs, k')" for xs k cs k'
        by (rule sq_life.bring_up_fresh [OF ok h0 f0 that(1) that(2) [unfolded sqlite_bring_up_def]])
      have t: "case s of None \<Rightarrow> acquired m [] m3
        | Some (mu, cv, cb, cs) \<Rightarrow> acquired m (([addr blk] @ opt_ids pa) @ [mu, cv, cb] @ concat (map sq_handles cs)) m3 \<and>
            (\<forall>c \<in> set cs. sq_fresh_conn c) \<and> length cs = nat max_n"
        by (rule create_tail_cases [where Q = "acquired m []" and P = "\<lambda>cs. (\<forall>c \<in> set cs. sq_fresh_conn c) \<and> length cs = nat max_n",
              OF ok a2(1) undo _ drop up ct])
      from t run False f k Some pa path ct a2(2) show ?thesis
        by (cases s) (auto simp: sqlite_pool_create_def sqlite_dup_string_eq Let_def sq_pool_ids_def)
    qed
  qed
qed

lemma sq_stop_request: "sq_slot_request (c\<lparr>shutdown_requested := True\<rparr>) = sq_slot_request c"
  by (simp add: sq_slot_request_def)

lemma sq_stop_all:
  assumes "ledger_ok m" "held m = {}" "stop_all sq_stop cs m = (cs', m')"
  shows "cs' = map (\<lambda>c. c\<lparr>shutdown_requested := True\<rparr>) cs \<and> released m {} m'"
  using stop_all_map [of cs sq_stop "\<lambda>c. c\<lparr>shutdown_requested := True\<rparr>" m] assms sq_stop_released
  by (auto simp: sq_stop_def Let_def)

lemma sq_stop_all_oom: "oom (snd (stop_all sq_stop cs m)) = oom m"
proof (induction cs arbitrary: m)
  case (Cons c cs)
  have "oom (snd (sq_stop c m)) = oom m" by (simp add: sq_stop_def sqlite_signal_stop_def Let_def ledger)
  with Cons.IH [of "snd (sq_stop c m)"] show ?case by (simp add: Let_def case_prod_beta)
qed simp

lemma sqlite_pool_destroy_released:
  assumes ok: "ledger_ok m" "held m = {}" "oom m = []"
    and own: "all_own sq_owns (conns p) Xs m"
    and ids: "distinct (sq_pool_ids p)" "set (sq_pool_ids p) \<subseteq> live m" "set (sq_pool_ids p) \<inter> \<Union> (set Xs) = {}"
    and ends: "\<And>c w. c \<in> set (conns p) \<Longrightarrow> slot_filled c \<Longrightarrow> sq_outcome n E (the (sq_db c)) (sq_slot_request c) w \<noteq> None"
  shows "released m (\<Union> (set Xs) \<union> set (sq_pool_ids p)) (sqlite_pool_destroy n E (Some p) m)"
proof -
  let ?stop = "\<lambda>c. c\<lparr>shutdown_requested := True\<rparr>"
  obtain cs m1 where s: "stop_all sq_stop (conns p) m = (cs, m1)" by (cases "stop_all sq_stop (conns p) m")
  from sq_stop_all [OF ok(1,2) s] have cs: "cs = map ?stop (conns p)" and r1: "released m {} m1" by simp_all
  have m1: "ledger_ok m1" "held m1 = {}" "oom m1 = []"
    using released_ledger_ok [OF ok(1) r1] r1 ok sq_stop_all_oom [of "conns p" m] s by (simp_all add: released_def)
  have "sq_owns (?stop c) X m" if "sq_owns c X m" for c X
    using that by (simp add: sq_owns_def sq_own_def sq_slot_ok_def sq_handles_def sq_tidy_def sq_covers_def)
  then have "all_own sq_owns (map ?stop (conns p)) Xs m" by (rule all_own_mono [OF own])
  then have own1: "all_own sq_owns cs Xs m1"
    using sq_end.all_own_released [of cs Xs m "{}" m1] r1 cs by simp
  have "\<forall>c \<in> set cs. sq_stopped n E c"
    using ends by (simp add: cs sq_stopped_def sq_stop_request del: not_None_eq)
  from sq_end.tear_all [OF m1 this own1]
  have r2: "released m1 (\<Union> (set Xs)) (fold (\<lambda>c k. snd (sqlite_teardown_conn n E c k)) cs m1)" (is "released m1 _ ?m2") .
  have "held ?m2 = {}" using r2 m1 by (simp add: released_def)
  then have r3: "released ?m2 {} (mutex_unlock (mutex p) (cond_signal (free_cond p) (mutex_lock (mutex p) ?m2)))" (is "released _ _ ?m3")
    by (simp add: lock_signal_unlock)
  have r: "released m (\<Union> (set Xs)) ?m3" using released_trans [OF released_trans [OF r1 r2] r3] by simp
  let ?ids = "[conns_block p, free_cond p, mutex p] @ opt_ids (path p) @ [pool_block p]"
  have eq: "set ?ids = set (sq_pool_ids p)" "distinct ?ids" using ids(1) by (auto simp: sq_pool_ids_def)
  have "set ?ids \<subseteq> live ?m3" using ids(2,3) r unfolding eq(1) by (auto simp: released_def)
  from released_trans [OF r free_all_released [OF eq(2) this]]
  show ?thesis unfolding eq(1) by (simp add: sqlite_pool_destroy_def s cfree_free_all free_all_append)
qed

end
