(* ===== verification/Native_Sqlite.thy ===== *)
theory Native_Sqlite
  imports Sq_Rows Abi_Word
begin

text \<open>
  native_sqlite.c: the ABI version word and random access to a materialised result. Reading
  past one of its arrays is a fault. The last section shows that the accessors return the
  cells the library delivered, and that the eight bytes of a number read back as the number.
\<close>

unbundle bit_operations_syntax

definition NATIVE_SQLITE_ABI_VERSION_MAJOR :: "64 word" where "NATIVE_SQLITE_ABI_VERSION_MAJOR = 1"
definition NATIVE_SQLITE_ABI_VERSION_MINOR :: "64 word" where "NATIVE_SQLITE_ABI_VERSION_MINOR = 2"

definition native_sqlite_abi_version :: "64 word" where
  "native_sqlite_abi_version = push_bit 32 NATIVE_SQLITE_ABI_VERSION_MAJOR OR NATIVE_SQLITE_ABI_VERSION_MINOR"

definition native_sqlite_init_dart_api :: "(string \<Rightarrow> nat) \<Rightarrow> dart_api \<Rightarrow> dl_vars \<Rightarrow> unit + (int \<times> dl_vars)" where
  "native_sqlite_init_dart_api dep data V = Dart_InitializeApiDL dep data V"

section \<open>Result inspection\<close>

definition native_sqlite_row_count :: "native_sqlite_result option \<Rightarrow> int" where
  "native_sqlite_row_count result = (case result of None \<Rightarrow> 0 | Some r \<Rightarrow> int32 (of_nat (sr_row_count r)))"

definition native_sqlite_col_count :: "native_sqlite_result option \<Rightarrow> int" where
  "native_sqlite_col_count result = (case result of None \<Rightarrow> 0 | Some r \<Rightarrow> int (sr_col_count r))"

definition native_sqlite_affected_rows :: "native_sqlite_result option \<Rightarrow> int" where
  "native_sqlite_affected_rows result = (case result of None \<Rightarrow> 0 | Some r \<Rightarrow> sr_affected_rows r)"

definition native_sqlite_col_name :: "native_sqlite_result option \<Rightarrow> int \<Rightarrow> 'w mach \<Rightarrow> string option \<times> 'w mach" where
  "native_sqlite_col_name result col m =
     (case result of None \<Rightarrow> (None, m)
      | Some r \<Rightarrow>
          (if col_names r = None then (None, m)
           else if col < 0 \<or> col \<ge> int (sr_col_count r) then (None, m)
           else (case read_at (block (col_names r)) col m of (v, m1) \<Rightarrow>
             (map_option contents (Option.bind v id), m1))))"

definition cell_index :: "native_sqlite_result \<Rightarrow> int \<Rightarrow> int \<Rightarrow> int" where
  "cell_index r row col = row * int (sr_col_count r) + col"

definition cell_ok :: "native_sqlite_result option \<Rightarrow> int \<Rightarrow> int \<Rightarrow> bool" where
  "cell_ok result row col \<longleftrightarrow>
     (case result of None \<Rightarrow> False
      | Some r \<Rightarrow> row \<ge> 0 \<and> row < int (sr_row_count r) \<and> col \<ge> 0 \<and> col < int (sr_col_count r))"

definition native_sqlite_cell_type :: "native_sqlite_result option \<Rightarrow> int \<Rightarrow> int \<Rightarrow> 'w mach \<Rightarrow> int option \<times> 'w mach" where
  "native_sqlite_cell_type result row col m =
     (if \<not> cell_ok result row col then (Some 5, m)
      else read_at (block (cell_types (the result))) (cell_index (the result) row col) m)"

definition native_sqlite_raw_value ::
  "native_sqlite_result option \<Rightarrow> int \<Rightarrow> int \<Rightarrow> 'w mach \<Rightarrow> string option \<times> 'w mach" where
  "native_sqlite_raw_value result row col m =
     (if \<not> cell_ok result row col then (None, m)
      else (case read_at (block (cell_data (the result))) (cell_index (the result) row col) m of (v, m1) \<Rightarrow>
        (map_option contents (Option.bind v id), m1)))"

definition native_sqlite_raw_length :: "native_sqlite_result option \<Rightarrow> int \<Rightarrow> int \<Rightarrow> 'w mach \<Rightarrow> int option \<times> 'w mach" where
  "native_sqlite_raw_length result row col m =
     (if \<not> cell_ok result row col then (Some 0, m)
      else read_at (block (cell_lens (the result))) (cell_index (the result) row col) m)"

section \<open>Bytes of a number\<close>

text \<open>What the Dart side reads from eight bytes, least significant first.\<close>

definition le_value :: "string \<Rightarrow> 64 word" where
  "le_value bs = of_nat (le_nat bs)"

lemma le_value_le_bytes: "le_value (le_bytes v) = v"
proof -
  have v: "unat v < 2 ^ 64" using unsigned_less [of v] by simp
  have "unat (take_bit 8 (drop_bit (8 * i) v)) = (unat v div 256 ^ i) mod 256" for i
  proof -
    have "unat (take_bit 8 (drop_bit (8 * i) v)) = take_bit 8 (drop_bit (8 * i) (take_bit 64 (unat v)))"
      by (simp only: unsigned_take_bit_eq unsigned_drop_bit_eq) simp
    also have "take_bit 64 (unat v) = unat v" using v by (rule take_bit_nat_eq_self)
    finally show ?thesis by (simp add: take_bit_eq_mod drop_bit_eq_div power_mult)
  qed
  then have "le_bytes v = map (\<lambda>i. char_of (unat v div 256 ^ i)) [0..<8]" by (simp only: le_bytes_def) simp
  then have "le_nat (le_bytes v) = unat v mod 256 ^ 8" by (simp only: le_nat_digits)
  with v show ?thesis by (simp add: le_value_def)
qed

section \<open>The accessors return the cells\<close>

lemma sq_well_index:
  assumes "sq_well r" "cell_ok (Some r) row col"
  shows "nat (cell_index r row col) < length (block (cell_types r))" "nat (cell_index r row col) < length (block (cell_lens r))"
    "nat (cell_index r row col) < length (block (cell_data r))" "0 \<le> cell_index r row col"
    "nat (cell_index r row col) = nat row * sr_col_count r + nat col"
    "nat (cell_index r row col) < sr_row_count r * sr_col_count r"
proof -
  let ?n = "sr_col_count r"
  from assms(2) have b: "0 \<le> row" "nat row < sr_row_count r" "0 \<le> col" "nat col < ?n" by (auto simp: cell_ok_def)
  have "cell_index r row col = int (nat row * ?n + nat col)" using b by (simp add: cell_index_def)
  then show i: "nat (cell_index r row col) = nat row * ?n + nat col" and "0 \<le> cell_index r row col"
    by (simp_all only: nat_int of_nat_0_le_iff)
  have "Suc (nat row) * ?n \<le> sr_row_count r * ?n" using b(2) by (intro mult_le_mono1) simp
  with b(4) show lt: "nat (cell_index r row col) < sr_row_count r * ?n" unfolding i by simp
  then show "nat (cell_index r row col) < length (block (cell_types r))" "nat (cell_index r row col) < length (block (cell_lens r))"
    "nat (cell_index r row col) < length (block (cell_data r))"
    using assms(1) by (auto simp: sq_well_def Let_def)
qed

lemma nth_table:
  assumes "\<forall>rw \<in> set rows. length rw = n" "i < length rows" "j < n"
  shows "concat rows ! (i * n + j) = rows ! i ! j"
  using assms
proof (induction rows arbitrary: i)
  case Nil
  then show ?case by simp
next
  case (Cons rw rows)
  show ?case
  proof (cases i)
    case 0
    with Cons.prems show ?thesis by (simp add: nth_append)
  next
    case (Suc k)
    with Cons.IH [of k] Cons.prems show ?thesis by (simp add: nth_append)
  qed
qed

lemma sq_rows_widths: "sq_rows f E s ncol w = Some (rc, rows, w') \<Longrightarrow> \<forall>rw \<in> set rows. length rw = ncol"
  by (induction f arbitrary: w rc rows w') (auto split: prod.splits if_splits)

lemma table_cells:
  assumes well: "sq_well r" and t: "table_of r = spec_table E h s ncol rows w"
    and widths: "\<forall>rw \<in> set rows. length rw = ncol" and at: "i < length rows" "j < ncol"
  shows "native_sqlite_cell_type (Some r) (int i) (int j) m = (Some (fst (rows ! i ! j)), m)"
    "native_sqlite_raw_length (Some r) (int i) (int j) m = (Some (fst (snd (rows ! i ! j))), m)"
    "native_sqlite_raw_value (Some r) (int i) (int j) m = (snd (snd (rows ! i ! j)), m)"
proof -
  let ?k = "i * ncol + j" and ?n = "sr_row_count r * sr_col_count r"
  from t have dims: "sr_col_count r = ncol" "sr_row_count r = length rows"
    by (simp_all add: table_of_def spec_table_def Let_def)
  from t have "t_types (table_of r) = map fst (concat rows)" "t_lens (table_of r) = map (fst \<circ> snd) (concat rows)"
    "t_data (table_of r) = map (snd \<circ> snd) (concat rows)" by (simp_all add: spec_table_def)
  then have cols: "take ?n (block (cell_types r)) = map fst (concat rows)" "take ?n (block (cell_lens r)) = map (fst \<circ> snd) (concat rows)"
      "map (map_option contents) (take ?n (block (cell_data r))) = map (snd \<circ> snd) (concat rows)"
    by (simp_all add: table_of_def Let_def)
  have ok: "cell_ok (Some r) (int i) (int j)" using at dims by (simp add: cell_ok_def)
  note ix = sq_well_index [OF well ok]
  have k: "nat (cell_index r (int i) (int j)) = ?k" "?k < ?n" using ix(5,6) dims by simp_all
  have cell: "concat rows ! ?k = rows ! i ! j" by (rule nth_table [OF widths at])
  have len: "?k < length (concat rows)" using k(2) arg_cong [OF cols(1), of length] ix(1) k(1) by (simp add: min_def split: if_splits)
  have "block (cell_types r) ! ?k = fst (rows ! i ! j)" "block (cell_lens r) ! ?k = fst (snd (rows ! i ! j))"
    using arg_cong [OF cols(1), of "\<lambda>xs. xs ! ?k"] arg_cong [OF cols(2), of "\<lambda>xs. xs ! ?k"] k(2) len cell by simp_all
  moreover have "map_option contents (block (cell_data r) ! ?k) = snd (snd (rows ! i ! j))"
    using arg_cong [OF cols(3), of "\<lambda>xs. xs ! ?k"] k(2) ix(3) k(1) len cell by simp
  ultimately show "native_sqlite_cell_type (Some r) (int i) (int j) m = (Some (fst (rows ! i ! j)), m)"
    "native_sqlite_raw_length (Some r) (int i) (int j) m = (Some (fst (snd (rows ! i ! j))), m)"
    "native_sqlite_raw_value (Some r) (int i) (int j) m = (snd (snd (rows ! i ! j)), m)"
    using ok ix(1-4) k(1)
    by (simp_all add: native_sqlite_cell_type_def native_sqlite_raw_length_def native_sqlite_raw_value_def read_at_def)
qed

text \<open>Every index is safe on a well-formed result.\<close>

lemma outside_cells:
  "\<not> cell_ok (Some r) row col \<Longrightarrow> native_sqlite_cell_type (Some r) row col m = (Some 5, m) \<and>
   native_sqlite_raw_value (Some r) row col m = (None, m) \<and> native_sqlite_raw_length (Some r) row col m = (Some 0, m)"
  by (simp add: native_sqlite_cell_type_def native_sqlite_raw_length_def native_sqlite_raw_value_def)

end
