(* ===== verification/Sq_Properties.thy ===== *)
theory Sq_Properties
  imports Sq_Pool_Laws Native_Sqlite
begin

text \<open>
  The properties of the SQLite driver. The witnesses run them on \<open>demo_sq\<close>, a library whose
  statements deliver one row: the number 7 and the statement's own text.
\<close>

section \<open>A concrete library\<close>

text \<open>The outside world: the statements prepared so far, and whether the current one has stepped.\<close>

definition demo_sq :: "(bool, string) sq_env" where
  "demo_sq = \<lparr>sqlite3_open_v2 = \<lambda>f w. (0, True, w), sqlite3_exec = \<lambda>h q w. (None, w),
     sqlite3_busy_timeout = \<lambda>h t w. w, sqlite3_close_v2 = \<lambda>h w. w, sqlite3_errmsg = \<lambda>h w. [],
     sqlite3_extended_errcode = \<lambda>h w. 0,
     sqlite3_prepare_v2 = \<lambda>h q w. (let s = takeWhile (\<lambda>b. b \<noteq> CHR '';'') q in (0, Some s, length s, False)),
     sqlite3_column_count = \<lambda>s w. 2, sqlite3_step = \<lambda>s w. (if w then (101, w) else (100, True)),
     sqlite3_column_type = \<lambda>s c w. (if c = 0 then 1 else 3), sqlite3_column_int64 = \<lambda>s c w. 7,
     sqlite3_column_double = \<lambda>s c w. 0, sqlite3_column_blob = \<lambda>s c w. the s,
     sqlite3_column_name = \<lambda>s c w. Some ''n'', sqlite3_changes = \<lambda>h w. 0, sqlite3_finalize = \<lambda>s w. w\<rparr>"

definition sq_mach :: "bool mach" where
  "sq_mach = \<lparr>oom = [], fresh = 5, live = {0, 1, 2, 3, 4}, held = {}, signals = [], fault = False, ext = False\<rparr>"

definition sq_conn :: sqlite_conn where
  "sq_conn = zero_sqlite_conn\<lparr>sq_db := Some 0, worker := 3, slot_mutex := 1, slot_cond := 2\<rparr>"

lemmas sq_demo = sq_mach_def sq_conn_def zero_sqlite_conn_def

lemma sq_conn_own: "sq_own sq_conn sq_mach"
  by (auto simp: sq_own_def sq_slot_ok_def sq_handles_def store_ok_def owned_def ledger_ok_def sq_demo
      intro!: exI [of _ "[]"])

definition sq_state :: "(sqlite_conn, bool) drv_state" where
  "sq_state = \<lparr>st_conn = sq_conn, st_mach = sq_mach, st_pc = At_top, st_accepted = [], st_posted = []\<rparr>"




definition demo_table :: "string \<Rightarrow> sq_table" where
  "demo_table s = \<lparr>t_cols = 2, t_rows = 1, t_affected = 0, t_names = [Some ''n'', Some ''n''], t_types = [1, 3],
     t_lens = [8, int (length s)], t_data = [Some (le_bytes 7), Some s]\<rparr>"




section \<open>The connection\<close>





text \<open>With memory to spare a submission to an idle connection is accepted, and a synchronous call returns.\<close>

lemma sq_query_accepted:
  assumes "oom m = []" "\<not> slot_filled c" "\<not> shutdown_requested c"
  shows "\<exists>c' m'. sqlite_pool_submit_query (Some c) (Some q) port t m = (1, Some c', m') \<and> ext m' = ext m \<and> oom m' = []"
proof -
  obtain s m1 where d: "halloc q m = (Some s, m1)" "oom m1 = []" using halloc_plenty [OF assms(1), of q] by blast
  have x: "ext m1 = ext m" using halloc_frame [OF d(1)] by simp
  have l: "ext (mutex_unlock k (cond_signal j (mutex_lock k m1))) = ext m \<and>
      oom (mutex_unlock k (cond_signal j (mutex_lock k m1))) = []" for k j
    using x d(2) by (simp add: ledger)
  have "sqlite_dup_string (Some q) m = (Some s, m1)" using d(1) by (simp add: sqlite_dup_string_eq dup_string_def)
  with assms(2,3) l show ?thesis by (simp add: sqlite_pool_submit_query_def Let_def)
qed

lemma sq_sync_returns:
  assumes "sq_own c m" "oom m = []" "sq_outcome f E (the (sq_db c)) (Sq_statement, q) (ext m) \<noteq> None"
  shows "\<exists>k c' m'. sqlite_conn_exec_sync f E (Some c) (Some q) m = Some (k, Some c', m')"
proof -
  let ?c = "sqlite_clear_error c" and ?m = "mutex_lock (slot_mutex c) m"
  have "sq_db ?c = sq_db c" by (simp add: sqlite_clear_error_def)
  then have "sqlite_pool_execute_query f E ?c q ?m \<noteq> None"
    using assms(2,3) sq_ownD(2) [OF assms(1)]
    by (intro sq_query_returns) (simp_all add: ledger mutex_lock_def ledger_ok_def del: not_None_eq)
  then show ?thesis by (auto simp: sqlite_conn_exec_sync_def Let_def)
qed

text \<open>C14. Running a statement on the caller's thread and running it through the worker are the
  same: with memory to spare \<open>sqlite_conn_exec_sync\<close> returns the code that the worker would
  post after \<open>sqlite_pool_submit_query\<close>, polling yields the same tables, and after an error
  both leave the results alone.\<close>

theorem sqlite_sync_equals_async:
  assumes "sq_own c m" "oom m = []" "\<not> slot_filled c" "\<not> shutdown_requested c" "CHR 0x00 \<notin> set q"
    and "sq_outcome f E (the (sq_db c)) (Sq_statement, q) (ext m) \<noteq> None"
  shows "\<exists>k c1 m1 c2 m2 c3 m3. sqlite_conn_exec_sync f E (Some c) (Some q) m = Some (k, Some c1, m1) \<and>
    sqlite_pool_submit_query (Some c) (Some q) port t m = (1, Some c2, m2) \<and>
    sqlite_worker_execute f E c2 m2 = Some (k, c3, m3) \<and>
    ((k = 1 \<and> (\<exists>rs. sq_outcome f E (the (sq_db c)) (Sq_statement, q) (ext m) = Some (Some rs) \<and>
        sq_polls (length rs) c1 m1 = map Some rs \<and> sq_polls (length rs) c3 m3 = map Some rs)) \<or>
     (k = 2 \<and> results c1 = results c3 \<and> last_result c1 = last_result c3))"
proof -
  note D = sq_ownD [OF assms(1)]
  have nul: "\<forall>s. Some q = Some s \<longrightarrow> CHR 0x00 \<notin> set s" using assms(5) by simp
  have nh: "slot_mutex c \<notin> held m" using D(3) by simp
  have plenty: "True \<longrightarrow> oom m = []" using assms(2) by simp
  obtain k c1 m1 where sync: "sqlite_conn_exec_sync f E (Some c) (Some q) m = Some (k, Some c1, m1)"
    using sq_sync_returns [OF assms(1,2,6)] by blast
  obtain c2 m2 where sub: "sqlite_pool_submit_query (Some c) (Some q) port t m = (1, Some c2, m2)" and
    m2: "ext m2 = ext m" "oom m2 = []" using sq_query_accepted [OF assms(2-4)] by blast
  from sq_query_cases [OF D(2) nh D(1) nul, of port t] have
    acc: "sq_accepted c m (Sq_statement, q) port t (1, Some c2, m2)" by (auto simp: sub sq_refused_def)
  then have db: "sq_db c2 = sq_db c" by (auto simp: sq_accepted_def)
  from sq_accepted_own [OF assms(1) acc] have c2: "sq_own c2 m2" "slot_filled c2" "sq_slot_request c2 = (Sq_statement, q)"
    "results c2 = results c" "last_result c2 = last_result c" by simp_all
  have "sqlite_worker_execute f E c2 m2 \<noteq> None"
    using assms(6) by (intro sq_execute_returns [OF c2(1,2) m2(2)]) (simp add: c2(3) db m2(1))
  then obtain rc c3 m3 where ex: "sqlite_worker_execute f E c2 m2 = Some (rc, c3, m3)" by auto
  from sq_sync_cases [OF assms(1) plenty sync] assms(3,4) have S: "sq_served f E True c m (Sq_statement, q) k c1 m1" by auto
  have "True \<longrightarrow> oom m2 = []" using m2(2) by simp
  from sq_execute_cases [OF c2(1,2) this ex] have
    W: "sq_served f E True c2 m2 (Sq_statement, q) rc c3 m3" by (simp only: c2(3))
  note own = conjunct1 [OF sq_served_own [OF assms(1) S]] conjunct1 [OF sq_served_own [OF c2(1) W]]
  from S [unfolded sq_served_def] W [unfolded sq_served_def db m2(1)] c2(4,5)
  have "k = rc \<and> ((k = 1 \<and> (\<exists>rs. sq_outcome f E (the (sq_db c)) (Sq_statement, q) (ext m) = Some (Some rs) \<and>
      sq_chain_views c1 rs \<and> sq_chain_views c3 rs)) \<or> (k = 2 \<and> results c1 = results c3 \<and> last_result c1 = last_result c3))"
    by auto
  with sync sub ex sq_polls_views [OF own(1)] sq_polls_views [OF own(2)] show ?thesis by blast
qed

theorem sqlite_sync_equals_async_witness:
  "\<exists>c1 m1. sqlite_conn_exec_sync 2 demo_sq (Some sq_conn) (Some ''A'') sq_mach = Some (1, Some c1, m1) \<and>
     sq_polls 1 c1 m1 = [Some (demo_table ''A'')]"
proof -
  have o: "sq_outcome 2 demo_sq (the (sq_db sq_conn)) (Sq_statement, ''A'') (ext sq_mach) = Some (Some [demo_table ''A''])"
    by (simp add: sq_outcome_def sq_demo demo_sq_def eval_nat_numeral sq_stmt_out_def Let_def spec_table_def
        demo_table_def column_names_def sqlite_codes cell_spec_def)
  have "oom sq_mach = []" "\<not> slot_filled sq_conn" "\<not> shutdown_requested sq_conn" "CHR 0x00 \<notin> set ''A''"
    by (simp_all add: sq_demo)
  note same = sqlite_sync_equals_async [OF sq_conn_own this, of 2 demo_sq 7 0]
  have "sq_outcome 2 demo_sq (the (sq_db sq_conn)) (Sq_statement, ''A'') (ext sq_mach) \<noteq> None" by (simp add: o)
  from same [OF this] obtain k c1 m1 where
    r: "sqlite_conn_exec_sync 2 demo_sq (Some sq_conn) (Some ''A'') sq_mach = Some (k, Some c1, m1)" and
    k: "(k = 1 \<and> (\<exists>rs. sq_outcome 2 demo_sq (the (sq_db sq_conn)) (Sq_statement, ''A'') (ext sq_mach) = Some (Some rs) \<and>
        sq_polls (length rs) c1 m1 = map Some rs)) \<or> k = 2" by blast
  have "sqlite_conn_exec_sync 2 demo_sq (Some sq_conn) (Some ''A'') sq_mach \<noteq> None \<and>
    fst (the (sqlite_conn_exec_sync 2 demo_sq (Some sq_conn) (Some ''A'') sq_mach)) = 1" by code_simp
  with r k o show ?thesis by auto
qed

section \<open>The pool\<close>








section \<open>Reading a result\<close>


definition demo_node :: native_sqlite_result where
  "demo_node = \<lparr>sr_col_count = 2, sr_row_count = 1, sr_affected_rows = 0,
     col_names = Some (Cell 20 [Some (Cell 21 ''n''), Some (Cell 22 ''n'')]), cell_types = Some (Cell 23 [1, 3]),
     cell_lens = Some (Cell 24 [8, 1]), cell_data = Some (Cell 25 [Some (Cell 26 (le_bytes 7)), Some (Cell 27 ''A'')]),
     sr_next = None\<rparr>"


text \<open>C40. The results a connection hands out are well-typed: in every state a connection can
  reach, each stored result has arrays for all its cells and columns, so that no accessor reads
  outside them, whatever row and column it is asked for.\<close>

theorem sqlite_results_typed:
  assumes "drv_start (sq_driver E) sq_own s0" "(drv_step (sq_driver E) sq_call_ok)\<^sup>*\<^sup>* s0 s"
    and "(a, r) \<in> set (results (st_conn s))"
  shows "sq_well r \<and> snd (native_sqlite_cell_type (Some r) row col m) = m \<and>
    snd (native_sqlite_raw_value (Some r) row col m) = m \<and> snd (native_sqlite_raw_length (Some r) row col m) = m \<and>
    snd (native_sqlite_col_name (Some r) col m) = m"
proof -
  have "distinct (sq_store (results (st_conn s)))"
    using sq_ownD(5) [OF sq_drv.always_owned [OF assms(1,2)]] by (simp add: store_ok_def owned_def)
  then have "distinct (sq_node_ids a r)" using assms(3) by (auto simp: store_ids_def distinct_concat_iff)
  then have "sq_well r" by (rule_tac ccontr) (simp add: sq_node_ids_def)
  with sq_well_index [OF this, of row col] show ?thesis
    by (auto simp: native_sqlite_cell_type_def native_sqlite_raw_value_def native_sqlite_raw_length_def
        native_sqlite_col_name_def read_at_def sq_well_def Let_def)
qed

definition sq_kept_state :: "(sqlite_conn, bool) drv_state" where
  "sq_kept_state = sq_state\<lparr>st_conn := sq_conn\<lparr>results := [(28, demo_node)], last_result := Some 28\<rparr>,
     st_mach := sq_mach\<lparr>fresh := 29, live := {0..28}\<rparr>\<rparr>"

theorem sqlite_results_typed_witness:
  "sq_well demo_node \<and> snd (native_sqlite_raw_value (Some demo_node) 9 (-1) sq_mach) = sq_mach"
proof -
  have "sq_own (st_conn sq_kept_state) (st_mach sq_kept_state)"
    by (auto simp: sq_own_def sq_slot_ok_def sq_handles_def store_ok_def owned_def ledger_ok_def sq_kept_state_def
        sq_state_def sq_demo store_ids_def sq_node_ids_def sq_well_def demo_node_def elem_ids_def name_ids_def
        intro!: exI [of _ "[28]"])
  then have "drv_start (sq_driver demo_sq) sq_own sq_kept_state"
    by (simp add: drv_start_def) (simp add: sq_kept_state_def sq_state_def sq_demo)
  moreover have "(28, demo_node) \<in> set (results (st_conn sq_kept_state))" by (simp add: sq_kept_state_def)
  ultimately show ?thesis using sqlite_results_typed [of demo_sq sq_kept_state sq_kept_state 28 demo_node 9 "-1" sq_mach] by simp
qed

end
