(* ===== verification/Mg_Env.thy ===== *)
theory Mg_Env
  imports C_Time C_Strings
begin

text \<open>
  What the MongoDB driver calls outside its sources: libmongoc and libbson. Each call is a
  field of \<open>mg_env\<close> over an abstract outside world \<open>'w\<close>. A BSON document is its bytes. A
  collection is known to the library by client, database and name, a cursor by a token \<open>'u\<close>.
  As documented: the reply of a write or command is initialised whether it fails or not,
  \<open>mongoc_client_get_collection\<close> and \<open>mongoc_collection_find_with_opts\<close> never return NULL, and
  a BSON document is shorter than 2^31 bytes.

  \<open>bson_valid\<close> tells whether \<open>bson_init_static\<close> accepts the given bytes; a \<open>bson_t\<close> that it
  did not accept is uninitialised, and passing it on is a fault.
\<close>

type_synonym mg_error = "string \<times> int"
type_synonym mg_ns = "nat \<times> string \<times> string"

record ('w, 'u) mg_env =
  bson_valid :: "string \<Rightarrow> bool"
  mongoc_init :: "'w \<Rightarrow> 'w"
  mongoc_uri_new_with_error :: "string \<Rightarrow> 'w \<Rightarrow> bool \<times> 'w"
  mongoc_uri_set_max_pool_size :: "nat \<Rightarrow> int \<Rightarrow> 'w \<Rightarrow> 'w"
  mongoc_uri_destroy :: "nat \<Rightarrow> 'w \<Rightarrow> 'w"
  mongoc_client_pool_new :: "nat \<Rightarrow> 'w \<Rightarrow> bool \<times> 'w"
  mongoc_client_pool_destroy :: "nat \<Rightarrow> 'w \<Rightarrow> 'w"
  mongoc_client_pool_pop :: "nat \<Rightarrow> 'w \<Rightarrow> bool \<times> 'w"
  mongoc_client_pool_push :: "nat \<Rightarrow> nat \<Rightarrow> 'w \<Rightarrow> 'w"
  mongoc_client_get_collection :: "mg_ns \<Rightarrow> 'w \<Rightarrow> 'w"
  mongoc_collection_destroy :: "mg_ns \<Rightarrow> 'w \<Rightarrow> 'w"
  mongoc_collection_find_with_opts :: "mg_ns \<Rightarrow> string \<Rightarrow> string option \<Rightarrow> 'w \<Rightarrow> 'u \<times> 'w"
  mongoc_cursor_next :: "'u \<Rightarrow> 'w \<Rightarrow> string option \<times> 'w"
  mongoc_cursor_error :: "'u \<Rightarrow> 'w \<Rightarrow> mg_error option"
  mongoc_cursor_destroy :: "'u \<Rightarrow> 'w \<Rightarrow> 'w"
  mongoc_collection_insert_one :: "mg_ns \<Rightarrow> string \<Rightarrow> 'w \<Rightarrow> mg_error option \<times> string \<times> 'w"
  mongoc_collection_update_one :: "mg_ns \<Rightarrow> string \<Rightarrow> string \<Rightarrow> 'w \<Rightarrow> mg_error option \<times> string \<times> 'w"
  mongoc_collection_delete_one :: "mg_ns \<Rightarrow> string \<Rightarrow> 'w \<Rightarrow> mg_error option \<times> string \<times> 'w"
  mongoc_collection_insert_many :: "mg_ns \<Rightarrow> string list \<Rightarrow> bool \<Rightarrow> 'w \<Rightarrow> mg_error option \<times> string \<times> 'w"
  mongoc_client_command_simple :: "nat \<Rightarrow> string \<Rightarrow> string \<Rightarrow> 'w \<Rightarrow> mg_error option \<times> string \<times> 'w"

text \<open>
  The handles the library opens and closes are entered in the ledger, the reply of a write or
  command too. A NULL database or collection name makes the library abort the process.
\<close>

definition mg_get_collection ::
  "('w, 'u) mg_env \<Rightarrow> nat \<Rightarrow> string cell option \<Rightarrow> string cell option \<Rightarrow> 'w mach \<Rightarrow> mg_ns cell \<times> 'w mach" where
  "mg_get_collection E h d cn m =
     (case (d, cn) of
        (Some d', Some cn') \<Rightarrow>
          (let ns = (h, contents d', contents cn')
           in rnew ns (m\<lparr>ext := mongoc_client_get_collection E ns (ext m)\<rparr>))
      | _ \<Rightarrow> rnew (h, [], []) (m\<lparr>fault := True\<rparr>))"

definition mg_collection_destroy :: "('w, 'u) mg_env \<Rightarrow> mg_ns cell \<Rightarrow> 'w mach \<Rightarrow> 'w mach" where
  "mg_collection_destroy E coll m = rfree (addr coll) (m\<lparr>ext := mongoc_collection_destroy E (contents coll) (ext m)\<rparr>)"

definition mg_find_with_opts ::
  "('w, 'u) mg_env \<Rightarrow> mg_ns \<Rightarrow> string \<Rightarrow> string option \<Rightarrow> 'w mach \<Rightarrow> 'u cell \<times> 'w mach" where
  "mg_find_with_opts E ns flt opts m =
     (case mongoc_collection_find_with_opts E ns flt opts (ext m) of (u, w) \<Rightarrow> rnew u (m\<lparr>ext := w\<rparr>))"

definition mg_cursor_destroy :: "('w, 'u) mg_env \<Rightarrow> 'u cell \<Rightarrow> 'w mach \<Rightarrow> 'w mach" where
  "mg_cursor_destroy E cur m = rfree (addr cur) (m\<lparr>ext := mongoc_cursor_destroy E (contents cur) (ext m)\<rparr>)"

definition mg_reply :: "mg_error option \<times> string \<times> 'w \<Rightarrow> 'w mach \<Rightarrow> mg_error option \<times> string cell \<times> 'w mach" where
  "mg_reply res m = (case res of (err, body, w) \<Rightarrow> (case rnew body (m\<lparr>ext := w\<rparr>) of (c, m1) \<Rightarrow> (err, c, m1)))"

text \<open>\<open>bson_init_static\<close> over a buffer of the slot, its outcome not looked at.\<close>

definition mg_static :: "('w, 'u) mg_env \<Rightarrow> string cell option \<Rightarrow> int \<Rightarrow> 'w mach \<Rightarrow> string \<times> 'w mach" where
  "mg_static E p len m =
     (case p of
        None \<Rightarrow> ([], m\<lparr>fault := True\<rparr>)
      | Some c \<Rightarrow>
          (case read_array (nat len) (contents c) m of (bs, m1) \<Rightarrow>
             if bson_valid E bs then (bs, m1) else ([], m1\<lparr>fault := True\<rparr>)))"

section \<open>Laws\<close>

lemma mg_get_collection_some:
  "mg_get_collection E h (Some d) (Some cn) m = (coll, m') \<Longrightarrow> acquired m [addr coll] m' \<and>
   contents coll = (h, contents d, contents cn) \<and>
   ext m' = mongoc_client_get_collection E (h, contents d, contents cn) (ext m) \<and> oom m' = oom m"
  by (auto simp: mg_get_collection_def rnew_def acquired_def Let_def)

lemma mg_find_acquired:
  "mg_find_with_opts E ns flt opts m = (cur, m') \<Longrightarrow> acquired m [addr cur] m' \<and>
   mongoc_collection_find_with_opts E ns flt opts (ext m) = (contents cur, ext m') \<and> oom m' = oom m"
  by (auto simp: mg_find_with_opts_def rnew_def acquired_def split: prod.splits)

lemma mg_reply_acquired:
  "mg_reply (err, body, w) m = (err', c, m') \<Longrightarrow> acquired m [addr c] m' \<and> err' = err \<and> contents c = body \<and>
   ext m' = w \<and> oom m' = oom m"
  by (auto simp: mg_reply_def rnew_def acquired_def)

lemma mg_static_valid:
  "nat len \<le> length (contents c) \<Longrightarrow> bson_valid E (take (nat len) (contents c)) \<Longrightarrow>
   mg_static E (Some c) len m = (take (nat len) (contents c), m)"
  by (simp add: mg_static_def read_array_def)

end
