(* ===== verification/Mg_Conn.thy ===== *)
theory Mg_Conn
  imports Mg_Env Result_Chain
begin

text \<open>
  One MongoDB connection: \<open>struct mongo_conn\<close> and \<open>struct native_mongo_result\<close> of
  mongo_pool_internal.h, and the operations of mongo_pool.c and native_mongo.c on them. The
  slot carries a typed operation: its kind, database, collection and up to two BSON
  documents. \<open>mg_client_pool\<close> is the \<open>client_pool\<close> that \<open>conn->pool\<close> leads to. Result nodes
  are kept in \<open>results\<close>.
\<close>

record native_mongo_result =
  mg_data :: "string cell"
  mg_len :: int
  mg_next :: "nat option"

record mongo_conn =
  mg_client :: "nat option"
  mg_client_pool :: nat
  mg_index :: int
  in_use :: bool
  worker :: nat
  slot_mutex :: nat
  slot_cond :: nat
  slot_filled :: bool
  op_kind :: int
  mg_db :: "string cell option"
  mg_coll :: "string cell option"
  doc1 :: "string cell option"
  doc1_len :: int
  doc2 :: "string cell option"
  doc2_len :: int
  doc_count :: int
  bulk_ordered :: int
  port_id :: int
  timeout_ms :: int
  results :: "(nat \<times> native_mongo_result) list"
  last_result :: "nat option"
  last_error :: string
  last_error_code :: int
  shutdown_requested :: bool

text \<open>\<open>enum mongo_op\<close>.\<close>

definition MONGO_OP_FIND :: int where "MONGO_OP_FIND = 1"
definition MONGO_OP_INSERT_ONE :: int where "MONGO_OP_INSERT_ONE = 2"
definition MONGO_OP_UPDATE_ONE :: int where "MONGO_OP_UPDATE_ONE = 3"
definition MONGO_OP_DELETE_ONE :: int where "MONGO_OP_DELETE_ONE = 4"
definition MONGO_OP_COMMAND :: int where "MONGO_OP_COMMAND = 5"
definition MONGO_OP_INSERT_MANY :: int where "MONGO_OP_INSERT_MANY = 6"

lemmas mongo_ops = MONGO_OP_FIND_def MONGO_OP_INSERT_ONE_def MONGO_OP_UPDATE_ONE_def MONGO_OP_DELETE_ONE_def
  MONGO_OP_COMMAND_def MONGO_OP_INSERT_MANY_def

lemma mongo_op_neq [simp]:
  "MONGO_OP_FIND \<noteq> MONGO_OP_INSERT_ONE" "MONGO_OP_FIND \<noteq> MONGO_OP_UPDATE_ONE" "MONGO_OP_FIND \<noteq> MONGO_OP_DELETE_ONE" "MONGO_OP_FIND \<noteq> MONGO_OP_COMMAND" "MONGO_OP_FIND \<noteq> MONGO_OP_INSERT_MANY"
  "MONGO_OP_INSERT_ONE \<noteq> MONGO_OP_FIND" "MONGO_OP_INSERT_ONE \<noteq> MONGO_OP_UPDATE_ONE" "MONGO_OP_INSERT_ONE \<noteq> MONGO_OP_DELETE_ONE" "MONGO_OP_INSERT_ONE \<noteq> MONGO_OP_COMMAND" "MONGO_OP_INSERT_ONE \<noteq> MONGO_OP_INSERT_MANY"
  "MONGO_OP_UPDATE_ONE \<noteq> MONGO_OP_FIND" "MONGO_OP_UPDATE_ONE \<noteq> MONGO_OP_INSERT_ONE" "MONGO_OP_UPDATE_ONE \<noteq> MONGO_OP_DELETE_ONE" "MONGO_OP_UPDATE_ONE \<noteq> MONGO_OP_COMMAND" "MONGO_OP_UPDATE_ONE \<noteq> MONGO_OP_INSERT_MANY"
  "MONGO_OP_DELETE_ONE \<noteq> MONGO_OP_FIND" "MONGO_OP_DELETE_ONE \<noteq> MONGO_OP_INSERT_ONE" "MONGO_OP_DELETE_ONE \<noteq> MONGO_OP_UPDATE_ONE" "MONGO_OP_DELETE_ONE \<noteq> MONGO_OP_COMMAND" "MONGO_OP_DELETE_ONE \<noteq> MONGO_OP_INSERT_MANY"
  "MONGO_OP_COMMAND \<noteq> MONGO_OP_FIND" "MONGO_OP_COMMAND \<noteq> MONGO_OP_INSERT_ONE" "MONGO_OP_COMMAND \<noteq> MONGO_OP_UPDATE_ONE" "MONGO_OP_COMMAND \<noteq> MONGO_OP_DELETE_ONE" "MONGO_OP_COMMAND \<noteq> MONGO_OP_INSERT_MANY"
  "MONGO_OP_INSERT_MANY \<noteq> MONGO_OP_FIND" "MONGO_OP_INSERT_MANY \<noteq> MONGO_OP_INSERT_ONE" "MONGO_OP_INSERT_MANY \<noteq> MONGO_OP_UPDATE_ONE" "MONGO_OP_INSERT_MANY \<noteq> MONGO_OP_DELETE_ONE" "MONGO_OP_INSERT_MANY \<noteq> MONGO_OP_COMMAND"
  by (simp_all add: mongo_ops)

section \<open>Results\<close>

definition native_mongo_clear_result :: "nat \<Rightarrow> native_mongo_result \<Rightarrow> 'w mach \<Rightarrow> 'w mach" where
  "native_mongo_clear_result a r m = rfree a (rfree (addr (mg_data r)) m)"

definition mongo_free_result_chain ::
  "nat option \<Rightarrow> (nat \<times> native_mongo_result) list \<Rightarrow> 'w mach \<Rightarrow> (nat \<times> native_mongo_result) list \<times> 'w mach" where
  "mongo_free_result_chain = free_chain mg_next native_mongo_clear_result"

definition native_mongo_poll_result ::
  "mongo_conn option \<Rightarrow> 'w mach \<Rightarrow> (nat \<times> native_mongo_result) option \<times> mongo_conn option \<times> 'w mach" where
  "native_mongo_poll_result conn m =
     (case conn of
        None \<Rightarrow> (None, conn, m)
      | Some c \<Rightarrow>
          (let (r, head, st, m1) = poll_head mg_next (last_result c) (results c) m
           in (r, Some (c\<lparr>results := st, last_result := head\<rparr>), m1)))"

definition native_mongo_last_error :: "mongo_conn option \<Rightarrow> string" where
  "native_mongo_last_error conn = (case conn of None \<Rightarrow> [] | Some c \<Rightarrow> last_error c)"

definition native_mongo_last_error_code :: "mongo_conn option \<Rightarrow> int" where
  "native_mongo_last_error_code conn = (case conn of None \<Rightarrow> 0 | Some c \<Rightarrow> last_error_code c)"

section \<open>The slot\<close>

definition mongo_dup_string :: "string option \<Rightarrow> 'w mach \<Rightarrow> string cell option \<times> 'w mach" where
  "mongo_dup_string s m = (case s of None \<Rightarrow> (None, m) | Some b \<Rightarrow> halloc b m)"

lemma mongo_dup_string_eq: "mongo_dup_string = dup_string"
  by (intro ext) (simp add: mongo_dup_string_def dup_string_def)

definition mongo_dup_bytes :: "string option \<Rightarrow> int \<Rightarrow> 'w mach \<Rightarrow> string cell option \<times> 'w mach" where
  "mongo_dup_bytes src len m =
     (case src of
        None \<Rightarrow> (None, m)
      | Some bs \<Rightarrow>
          (if len \<le> 0 then (None, m)
           else (case halloc () m of
               (None, m1) \<Rightarrow> (None, m1)
             | (Some blk, m1) \<Rightarrow>
                 (case read_array (nat len) bs m1 of (xs, m2) \<Rightarrow> (Some (Cell (addr blk) xs), m2)))))"

definition mongo_pool_free_slot_payload :: "mongo_conn \<Rightarrow> 'w mach \<Rightarrow> mongo_conn \<times> 'w mach" where
  "mongo_pool_free_slot_payload c m =
     (c\<lparr>mg_db := None, mg_coll := None, doc1 := None, doc1_len := 0, doc2 := None, doc2_len := 0,
        doc_count := 0, bulk_ordered := 0, op_kind := 0, port_id := 0, timeout_ms := 0\<rparr>,
      cfree (doc2 c) (cfree (doc1 c) (cfree (mg_coll c) (cfree (mg_db c) m))))"

section \<open>Submissions\<close>

definition submit_op ::
  "mongo_conn option \<Rightarrow> int \<Rightarrow> string option \<Rightarrow> string option \<Rightarrow> string option \<Rightarrow> int \<Rightarrow> string option \<Rightarrow> int \<Rightarrow>
   int \<Rightarrow> int \<Rightarrow> int \<Rightarrow> int \<Rightarrow> 'w mach \<Rightarrow> int \<times> mongo_conn option \<times> 'w mach" where
  "submit_op conn kind db coll d1 d1_len d2 d2_len cnt ordered port t m =
     (case (conn, db, d1) of
        (Some c, Some _, Some _) \<Rightarrow>
          (if d1_len \<le> 0 then (0, conn, m)
           else
             (let (dbc, m1) = mongo_dup_string db m;
                  (cc, m2) = (if coll \<noteq> None then mongo_dup_string coll m1 else (None, m1));
                  (b1, m3) = mongo_dup_bytes d1 d1_len m2;
                  (b2, m4) = (if d2 \<noteq> None \<and> d2_len > 0 then mongo_dup_bytes d2 d2_len m3 else (None, m3));
                  drop_copies = (\<lambda>k. cfree b2 (cfree b1 (cfree cc (cfree dbc k))))
              in if dbc = None \<or> b1 = None \<or> (coll \<noteq> None \<and> cc = None) \<or> (d2 \<noteq> None \<and> d2_len > 0 \<and> b2 = None)
                 then (0, conn, drop_copies m4)
                 else
                   (let m5 = mutex_lock (slot_mutex c) m4 in
                    if slot_filled c \<or> shutdown_requested c then
                      (0, conn, drop_copies (mutex_unlock (slot_mutex c) m5))
                    else
                      (1, Some (c\<lparr>slot_filled := True, op_kind := kind, mg_db := dbc, mg_coll := cc, doc1 := b1,
                              doc1_len := d1_len, doc2 := b2, doc2_len := (if b2 \<noteq> None then d2_len else 0),
                              doc_count := cnt, bulk_ordered := ordered, port_id := port, timeout_ms := t\<rparr>),
                       mutex_unlock (slot_mutex c) (cond_signal (slot_cond c) m5)))))
      | _ \<Rightarrow> (0, conn, m))"

definition mongo_pool_submit_find where
  "mongo_pool_submit_find conn db coll flt flt_len opts opts_len port t m =
     submit_op conn MONGO_OP_FIND db coll flt flt_len opts opts_len 0 0 port t m"

definition mongo_pool_submit_insert_one where
  "mongo_pool_submit_insert_one conn db coll doc len port t m =
     submit_op conn MONGO_OP_INSERT_ONE db coll doc len None 0 0 0 port t m"

definition mongo_pool_submit_update_one where
  "mongo_pool_submit_update_one conn db coll sel sel_len upd upd_len port t m =
     submit_op conn MONGO_OP_UPDATE_ONE db coll sel sel_len upd upd_len 0 0 port t m"

definition mongo_pool_submit_delete_one where
  "mongo_pool_submit_delete_one conn db coll sel sel_len port t m =
     submit_op conn MONGO_OP_DELETE_ONE db coll sel sel_len None 0 0 0 port t m"

definition mongo_pool_submit_command where
  "mongo_pool_submit_command conn db cmd cmd_len port t m =
     submit_op conn MONGO_OP_COMMAND db None cmd cmd_len None 0 0 0 port t m"

definition mongo_pool_submit_insert_many ::
  "mongo_conn option \<Rightarrow> string option \<Rightarrow> string option \<Rightarrow> string option \<Rightarrow> int \<Rightarrow> int \<Rightarrow> int \<Rightarrow> int \<Rightarrow> int \<Rightarrow>
   'w mach \<Rightarrow> int \<times> mongo_conn option \<times> 'w mach" where
  "mongo_pool_submit_insert_many conn db coll docs tot cnt ordered port t m =
     (if cnt \<le> 0 then (0, conn, m)
      else submit_op conn MONGO_OP_INSERT_MANY db coll docs tot None 0 cnt ordered port t m)"

end
