(* ===== verification/Mg_Worker.thy ===== *)
theory Mg_Worker
  imports Mg_Conn Driver_Machine
begin

text \<open>
  The MongoDB worker thread, mongo_pool_worker.c: results, the four ways to run an operation
  and one round of \<open>mongo_pool_worker_main\<close>. libmongoc blocks, so only the loop over the
  cursor takes fuel; \<open>None\<close> is a thread still draining it. Offsets into an insert-many blob are
  32-bit signed numbers: an addition that overflows is a fault, and wraps.
\<close>

definition MG_PORT_OK :: int where "MG_PORT_OK = 1"
definition MG_PORT_ABORTED :: int where "MG_PORT_ABORTED = 2"
definition MONGO_ERR_BUF :: nat where "MONGO_ERR_BUF = 512"

definition mongo_set_error :: "mg_error option \<Rightarrow> mongo_conn \<Rightarrow> mongo_conn" where
  "mongo_set_error err conn =
     (case err of
        Some (msg, code) \<Rightarrow> conn\<lparr>last_error := snprintf MONGO_ERR_BUF msg, last_error_code := code\<rparr>
      | None \<Rightarrow> conn\<lparr>last_error := snprintf MONGO_ERR_BUF ''unknown error'', last_error_code := 0\<rparr>)"

definition make_result :: "string \<Rightarrow> 'w mach \<Rightarrow> (nat \<times> native_mongo_result) option \<times> 'w mach" where
  "make_result bs m =
     (case halloc () m of
        (None, m1) \<Rightarrow> (None, m1)
      | (Some w, m1) \<Rightarrow>
          (case halloc bs m1 of
             (None, m2) \<Rightarrow> (None, rfree (addr w) m2)
           | (Some d, m2) \<Rightarrow> (Some (addr w, \<lparr>mg_data = d, mg_len = int (length bs), mg_next = None\<rparr>), m2)))"

definition store_single :: "string \<Rightarrow> mongo_conn \<Rightarrow> 'w mach \<Rightarrow> int \<times> mongo_conn \<times> 'w mach" where
  "store_single reply conn m =
     (case make_result reply m of
        (None, m1) \<Rightarrow> (MG_PORT_ABORTED, conn, m1)
      | (Some (a, nd), m1) \<Rightarrow>
          (MG_PORT_OK, conn\<lparr>results := AList.update a nd (results conn), last_result := Some a\<rparr>, m1))"

section \<open>find\<close>

text \<open>The loop over the cursor: whether memory lasted, the nodes, the chain's head.\<close>

fun find_loop ::
  "nat \<Rightarrow> ('w, 'u) mg_env \<Rightarrow> 'u \<Rightarrow> (nat \<times> native_mongo_result) list \<Rightarrow> nat option \<Rightarrow> nat option \<Rightarrow> 'w mach \<Rightarrow>
   (bool \<times> (nat \<times> native_mongo_result) list \<times> nat option \<times> 'w mach) option" where
  "find_loop 0 E cur st head tail m = None"
| "find_loop (Suc n) E cur st head tail m =
     (case mongoc_cursor_next E cur (ext m) of
        (None, w) \<Rightarrow> Some (True, st, head, m\<lparr>ext := w\<rparr>)
      | (Some doc, w) \<Rightarrow>
          (case make_result doc (m\<lparr>ext := w\<rparr>) of
             (None, m1) \<Rightarrow> (let (st1, m2) = mongo_free_result_chain head st m1 in Some (False, st1, None, m2))
           | (Some (a, nd), m1) \<Rightarrow>
               (let (head1, tail1, st1, m2) = link_node (\<lambda>p nd. nd\<lparr>mg_next := p\<rparr>) head tail a nd st m1
                in find_loop n E cur st1 head1 tail1 m2)))"

definition find_end ::
  "('w, 'u) mg_env \<Rightarrow> 'u \<Rightarrow> mongo_conn \<Rightarrow> bool \<Rightarrow> (nat \<times> native_mongo_result) list \<Rightarrow> nat option \<Rightarrow> 'w mach
    \<Rightarrow> int \<times> mongo_conn \<times> 'w mach" where
  "find_end E cur c lasted st head m =
     (let (status, c1, st1, head1, m1) =
            (if \<not> lasted then (MG_PORT_ABORTED, c, st, None, m)
             else (case mongoc_cursor_error E cur (ext m) of
                 None \<Rightarrow> (MG_PORT_OK, c, st, head, m)
               | Some err \<Rightarrow>
                   (let (st1, m1) = mongo_free_result_chain head st m
                    in (MG_PORT_ABORTED, mongo_set_error (Some err) c, st1, None, m1))))
      in (status, c1\<lparr>results := st1, last_result := head1\<rparr>, m1))"

definition mongo_execute_find ::
  "nat \<Rightarrow> ('w, 'u) mg_env \<Rightarrow> mongo_conn \<Rightarrow> 'w mach \<Rightarrow> (int \<times> mongo_conn \<times> 'w mach) option" where
  "mongo_execute_find n E c m =
     (let (coll, m1) = mg_get_collection E (the (mg_client c)) (mg_db c) (mg_coll c) m;
          (flt, m2) = mg_static E (doc1 c) (doc1_len c) m1;
          (opts, m3) = (if doc2 c \<noteq> None \<and> doc2_len c > 0
                        then (case mg_static E (doc2 c) (doc2_len c) m2 of (bs, m3) \<Rightarrow> (Some bs, m3)) else (None, m2));
          (cur, m4) = mg_find_with_opts E (contents coll) flt opts m3
      in case find_loop n E (contents cur) (results c) None None m4 of
           None \<Rightarrow> None
         | Some (lasted, st, head, m5) \<Rightarrow>
             (let (status, c1, m6) = find_end E (contents cur) c lasted st head m5
              in Some (status, c1, mg_collection_destroy E coll (mg_cursor_destroy E cur m6))))"

section \<open>Writes and commands\<close>

text \<open>The reply's end: an error on the connection, or a result of one document.\<close>

definition finish_reply :: "mg_error option \<Rightarrow> string cell \<Rightarrow> mongo_conn \<Rightarrow> 'w mach \<Rightarrow> int \<times> mongo_conn \<times> 'w mach" where
  "finish_reply err reply c m =
     (let (status, c1, m1) =
            (case err of
               Some _ \<Rightarrow> (MG_PORT_ABORTED, mongo_set_error err c, m)
             | None \<Rightarrow> store_single (contents reply) c m)
      in (status, c1, rfree (addr reply) m1))"

definition mongo_execute_write ::
  "('w, 'u) mg_env \<Rightarrow> mongo_conn \<Rightarrow> 'w mach \<Rightarrow> int \<times> mongo_conn \<times> 'w mach" where
  "mongo_execute_write E c m =
     (let (coll, m1) = mg_get_collection E (the (mg_client c)) (mg_db c) (mg_coll c) m;
          (d1, m2) = mg_static E (doc1 c) (doc1_len c) m1;
          ns = contents coll;
          (err, reply, m3) =
            (if op_kind c = MONGO_OP_INSERT_ONE then mg_reply (mongoc_collection_insert_one E ns d1 (ext m2)) m2
             else if op_kind c = MONGO_OP_UPDATE_ONE then
               (case mg_static E (doc2 c) (doc2_len c) m2 of (d2, m3) \<Rightarrow>
                  mg_reply (mongoc_collection_update_one E ns d1 d2 (ext m3)) m3)
             else mg_reply (mongoc_collection_delete_one E ns d1 (ext m2)) m2);
          (status, c1, m4) = finish_reply err reply c m3
      in (status, c1, mg_collection_destroy E coll m4))"

definition mongo_execute_command ::
  "('w, 'u) mg_env \<Rightarrow> mongo_conn \<Rightarrow> 'w mach \<Rightarrow> int \<times> mongo_conn \<times> 'w mach" where
  "mongo_execute_command E c m =
     (let (cmd, m1) = mg_static E (doc1 c) (doc1_len c) m;
          (name, m2) = (case mg_db c of None \<Rightarrow> ([], m1\<lparr>fault := True\<rparr>) | Some d \<Rightarrow> (contents d, m1));
          (err, reply, m3) = mg_reply (mongoc_client_command_simple E (the (mg_client c)) name cmd (ext m2)) m2
      in finish_reply err reply c m3)"

section \<open>insert_many\<close>

definition i32_add :: "int \<Rightarrow> int \<Rightarrow> 'w mach \<Rightarrow> int \<times> 'w mach" where
  "i32_add a b m =
     (signed_take_bit 31 (a + b), (if - (2 ^ 31) \<le> a + b \<and> a + b < 2 ^ 31 then m else m\<lparr>fault := True\<rparr>))"

definition read_slice :: "int \<Rightarrow> int \<Rightarrow> string \<Rightarrow> 'w mach \<Rightarrow> string \<times> 'w mach" where
  "read_slice off len bs m =
     (take (nat len) (drop (nat off) bs),
      (if 0 \<le> off \<and> off + len \<le> int (length bs) then m else m\<lparr>fault := True\<rparr>))"

text \<open>An \<open>int32_t\<close> in four bytes.\<close>

definition le_int32 :: "string \<Rightarrow> int" where
  "le_int32 bs = signed_take_bit 31 (int (le_nat bs))"

text \<open>The slicing loop: whether every document was found, the offset reached, the documents.\<close>

fun slice_docs ::
  "nat \<Rightarrow> ('w, 'u) mg_env \<Rightarrow> string \<Rightarrow> int \<Rightarrow> int \<Rightarrow> string list \<Rightarrow> 'w mach \<Rightarrow> bool \<times> int \<times> string list \<times> 'w mach" where
  "slice_docs 0 E blob tot off ds m = (True, off, ds, m)"
| "slice_docs (Suc k) E blob tot off ds m =
     (let (e, m1) = i32_add off 4 m in
      if e > tot then (False, off, ds, m1)
      else let (pre, m2) = read_slice off 4 blob m1; len = le_int32 pre in
        if len < 5 then (False, off, ds, m2)
        else let (e1, m3) = i32_add off len m2 in
          if e1 > tot then (False, off, ds, m3)
          else let (doc, m4) = read_slice off len blob m3 in
            if \<not> bson_valid E doc then (False, off, ds, m4)
            else slice_docs k E blob tot e1 (ds @ [doc]) m4)"

definition insert_docs ::
  "('w, 'u) mg_env \<Rightarrow> mg_ns \<Rightarrow> mongo_conn \<Rightarrow> 'w mach \<Rightarrow> int \<times> mongo_conn \<times> 'w mach" where
  "insert_docs E ns c m =
     (let blob = (case doc1 c of None \<Rightarrow> [] | Some d \<Rightarrow> contents d);
          (valid, off, ds, m1) = slice_docs (nat (doc_count c)) E blob (doc1_len c) 0 [] m
      in if \<not> valid \<or> off \<noteq> doc1_len c then
           (MG_PORT_ABORTED,
            c\<lparr>last_error := snprintf MONGO_ERR_BUF ''insert_many: malformed BSON blob (doc_count/length mismatch)'',
              last_error_code := 0\<rparr>, m1)
         else
           (let (err, reply, m2) = mg_reply (mongoc_collection_insert_many E ns ds (bulk_ordered c \<noteq> 0) (ext m1)) m1;
                (status, c1) = (case err of None \<Rightarrow> (MG_PORT_OK, c)
                                | Some _ \<Rightarrow> (MG_PORT_ABORTED, mongo_set_error err c));
                (stored, c2, m3) = store_single (contents reply) c1 m2
            in (if stored = MG_PORT_ABORTED then MG_PORT_ABORTED else status, c2, rfree (addr reply) m3)))"

definition mongo_execute_insert_many ::
  "('w, 'u) mg_env \<Rightarrow> mongo_conn \<Rightarrow> 'w mach \<Rightarrow> int \<times> mongo_conn \<times> 'w mach" where
  "mongo_execute_insert_many E c m =
     (let (coll, m1) = mg_get_collection E (the (mg_client c)) (mg_db c) (mg_coll c) m;
          (docs, m2) = halloc () m1;
          (ptrs, m3) = halloc () m2;
          (status, c1, m4) =
            (if docs = None \<or> ptrs = None then (MG_PORT_ABORTED, mongo_set_error None c, m3)
             else insert_docs E (contents coll) c m3)
      in (status, c1, mg_collection_destroy E coll (cfree ptrs (cfree docs m4))))"

section \<open>One round of the worker\<close>

definition mongo_clear_error :: "mongo_conn \<Rightarrow> mongo_conn" where
  "mongo_clear_error conn = conn\<lparr>last_error := [], last_error_code := 0\<rparr>"

definition mongo_worker_execute ::
  "nat \<Rightarrow> ('w, 'u) mg_env \<Rightarrow> mongo_conn \<Rightarrow> 'w mach \<Rightarrow> (int \<times> mongo_conn \<times> 'w mach) option" where
  "mongo_worker_execute n E c m =
     (let c1 = mongo_clear_error c in
      if op_kind c = MONGO_OP_FIND then mongo_execute_find n E c1 m
      else if op_kind c = MONGO_OP_COMMAND then Some (mongo_execute_command E c1 m)
      else if op_kind c = MONGO_OP_INSERT_MANY then Some (mongo_execute_insert_many E c1 m)
      else Some (mongo_execute_write E c1 m))"

definition mongo_worker_clear :: "mongo_conn \<Rightarrow> 'w mach \<Rightarrow> mongo_conn \<times> 'w mach" where
  "mongo_worker_clear c m =
     (let m1 = mutex_lock (slot_mutex c) m;
          (c1, m2) = mongo_pool_free_slot_payload c m1
      in (c1\<lparr>slot_filled := False\<rparr>, mutex_unlock (slot_mutex c) (cond_signal (slot_cond c) m2)))"

text \<open>What is left of the worker's thread once shutdown has been requested.\<close>

definition mongo_worker_end ::
  "nat \<Rightarrow> ('w, 'u) mg_env \<Rightarrow> mongo_conn \<Rightarrow> 'w mach \<Rightarrow> (mongo_conn \<times> 'w mach) option" where
  "mongo_worker_end n E c m =
     (case worker_choose (slot_filled c) (shutdown_requested c) of
        Serve \<Rightarrow>
          (case mongo_worker_execute n E c (mutex_unlock (slot_mutex c) (mutex_lock (slot_mutex c) m)) of
             None \<Rightarrow> None
           | Some (status, c1, m1) \<Rightarrow> Some (mongo_worker_clear c1 m1))
      | _ \<Rightarrow> Some (c, m))"

end
