(* ===== verification/Mg_Slices.thy ===== *)
theory Mg_Slices
  imports Mg_Worker
begin

text \<open>
  Slicing an insert-many blob. \<open>bson_split\<close> is the specification: \<open>k\<close> documents back to back,
  each as long as its first four bytes say, and nothing behind them. \<open>slices_fit\<close> tells
  whether the loop's 32-bit offsets stay in range; they do for every blob that does split.
\<close>

section \<open>Specification\<close>

fun bson_split :: "(string \<Rightarrow> bool) \<Rightarrow> nat \<Rightarrow> string \<Rightarrow> string list option" where
  "bson_split ok 0 bs = (if bs = [] then Some [] else None)"
| "bson_split ok (Suc k) bs =
     (if length bs < 4 then None
      else let len = le_int32 (take 4 bs) in
        if len < 5 \<or> int (length bs) < len \<or> \<not> ok (take (nat len) bs) then None
        else map_option (Cons (take (nat len) bs)) (bson_split ok k (drop (nat len) bs)))"

fun slices_fit :: "(string \<Rightarrow> bool) \<Rightarrow> nat \<Rightarrow> int \<Rightarrow> string \<Rightarrow> bool" where
  "slices_fit ok 0 off bs = True"
| "slices_fit ok (Suc k) off bs =
     (off + 4 < 2 ^ 31 \<and>
      (4 \<le> length bs \<longrightarrow>
        (let len = le_int32 (take 4 bs) in
         5 \<le> len \<longrightarrow> off + len < 2 ^ 31 \<and>
           (len \<le> int (length bs) \<longrightarrow> ok (take (nat len) bs) \<longrightarrow> slices_fit ok k (off + len) (drop (nat len) bs)))))"

text \<open>A document whose length prefix is right.\<close>

definition sound_doc :: "(string \<Rightarrow> bool) \<Rightarrow> string \<Rightarrow> bool" where
  "sound_doc ok d \<longleftrightarrow> 5 \<le> length d \<and> le_int32 (take 4 d) = int (length d) \<and> ok d"

lemma bson_split_concat:
  "\<forall>d \<in> set ds. sound_doc ok d \<Longrightarrow> bson_split ok (length ds) (concat ds) = Some ds"
  by (induction ds) (auto simp: sound_doc_def Let_def)

lemma bson_split_sound:
  "bson_split ok k bs = Some ds \<Longrightarrow> concat ds = bs \<and> length ds = k \<and> (\<forall>d \<in> set ds. sound_doc ok d)"
proof (induction k arbitrary: bs ds)
  case 0
  then show ?case by (simp split: if_splits)
next
  case (Suc k)
  let ?len = "le_int32 (take 4 bs)"
  from Suc.prems obtain ds' where ds: "ds = take (nat ?len) bs # ds'" "bson_split ok k (drop (nat ?len) bs) = Some ds'"
    and len: "5 \<le> ?len" "?len \<le> int (length bs)" "ok (take (nat ?len) bs)"
    by (auto simp: Let_def split: if_splits)
  have "nat ?len \<le> length bs" "min 4 (nat ?len) = 4" using len by linarith+
  then have "length (take (nat ?len) bs) = nat ?len" "take 4 (take (nat ?len) bs) = take 4 bs"
    by (simp_all only: length_take take_take min_absorb2)
  with Suc.IH [OF ds(2)] len show ?case by (simp add: ds(1) sound_doc_def)
qed

section \<open>32-bit offsets\<close>

lemma i32_add_exact: "- (2 ^ 31) \<le> a + b \<Longrightarrow> a + b < 2 ^ 31 \<Longrightarrow> i32_add a b m = (a + b, m)"
  by (simp add: i32_add_def signed_take_bit_int_eq_self)

lemma i32_add_overflow: "2 ^ 31 \<le> a + b \<Longrightarrow> fault (snd (i32_add a b m))"
  by (simp add: i32_add_def)

lemma le_int32_range: "- (2 ^ 31) \<le> le_int32 bs" "le_int32 bs < 2 ^ 31"
  using signed_take_bit_int_greater_eq_minus_exp [of 31 "int (le_nat bs)"]
    signed_take_bit_int_less_exp [of 31 "int (le_nat bs)"] by (simp_all add: le_int32_def)

lemma bson_split_fits:
  "bson_split ok k bs = Some ds \<Longrightarrow> 0 \<le> off \<Longrightarrow> off + int (length bs) < 2 ^ 31 \<Longrightarrow> slices_fit ok k off bs"
proof (induction k arbitrary: bs ds off)
  case 0
  then show ?case by simp
next
  case (Suc k)
  define len where "len = le_int32 (take 4 bs)"
  from Suc.prems(1) obtain ds' where ds: "bson_split ok k (drop (nat len) bs) = Some ds'"
    and l: "4 \<le> length bs" "5 \<le> len" "len \<le> int (length bs)"
    by (auto simp: len_def Let_def split: if_splits)
  have "int (length (drop (nat len) bs)) = int (length bs) - len" using l by simp
  then have "slices_fit ok k (off + len) (drop (nat len) bs)"
    using Suc.prems(2,3) l by (intro Suc.IH [OF ds]) linarith+
  moreover have "off + 4 < 2 ^ 31" "off + len < 2 ^ 31" using Suc.prems(2,3) l by linarith+
  ultimately show ?case by (simp add: len_def [symmetric] Let_def)
qed

lemma read_slice_inside:
  "0 \<le> off \<Longrightarrow> off + len \<le> int (length bs) \<Longrightarrow> read_slice off len bs m = (take (nat len) (drop (nat off) bs), m)"
  by (simp add: read_slice_def)

text \<open>The loop is the specification, without a fault, as long as the offsets fit.\<close>

lemma slice_docs_turn:
  assumes fit: "slices_fit (bson_valid E) (Suc k) off (drop (nat off) blob)" and off: "0 \<le> off" "off \<le> int (length blob)"
  shows "slice_docs (Suc k) E blob (int (length blob)) off ds m =
    (let bs = drop (nat off) blob; len = le_int32 (take 4 bs) in
     if length bs < 4 \<or> len < 5 \<or> int (length bs) < len \<or> \<not> bson_valid E (take (nat len) bs) then (False, off, ds, m)
     else slice_docs k E blob (int (length blob)) (off + len) (ds @ [take (nat len) bs]) m)"
proof -
  let ?tot = "int (length blob)" and ?bs = "drop (nat off) blob"
  let ?len = "le_int32 (take 4 ?bs)"
  have e: "i32_add off 4 m = (off + 4, m)" using assms by (intro i32_add_exact) simp_all
  have lbs: "int (length ?bs) = ?tot - off" using off by simp
  consider "off + 4 > ?tot" | "\<not> off + 4 > ?tot" "?len < 5" | "\<not> off + 4 > ?tot" "\<not> ?len < 5" by blast
  then show ?thesis
  proof cases
    case 1
    then have "length ?bs < 4" using lbs by linarith
    with 1 e show ?thesis by (simp add: Let_def)
  next
    case 2
    with e show ?thesis using off by (simp add: read_slice_inside Let_def)
  next
    case 3
    then have four: "\<not> length ?bs < 4" using lbs by linarith
    with 3 fit have "off + ?len < 2 ^ 31" by (auto simp: Let_def not_less)
    then have e1: "i32_add off ?len m = (off + ?len, m)" using 3 off by (intro i32_add_exact) simp_all
    have "off + ?len > ?tot \<longleftrightarrow> int (length ?bs) < ?len" using lbs by linarith
    with 3 four e e1 off show ?thesis by (simp add: read_slice_inside Let_def)
  qed
qed

lemma slice_docs_split:
  "slices_fit (bson_valid E) k off (drop (nat off) blob) \<Longrightarrow> 0 \<le> off \<Longrightarrow> off \<le> int (length blob) \<Longrightarrow>
   \<exists>v off' xs. slice_docs k E blob (int (length blob)) off ds m = (v, off', ds @ xs, m) \<and>
     bson_split (bson_valid E) k (drop (nat off) blob) = (if v \<and> off' = int (length blob) then Some xs else None)"
proof (induction k arbitrary: off ds)
  case 0
  then have "(length blob \<le> nat off) = (off = int (length blob))" by linarith
  then show ?case by (intro exI [of _ True] exI [of _ off] exI [of _ "[]"]) simp
next
  case (Suc k)
  let ?tot = "int (length blob)" and ?bs = "drop (nat off) blob"
  let ?len = "le_int32 (take 4 ?bs)"
  note turn = slice_docs_turn [OF Suc.prems, of ds m]
  show ?case
  proof (cases "length ?bs < 4 \<or> ?len < 5 \<or> int (length ?bs) < ?len \<or> \<not> bson_valid E (take (nat ?len) ?bs)")
    case True
    then have "slice_docs (Suc k) E blob ?tot off ds m = (False, off, ds @ [], m)" unfolding turn Let_def by simp
    moreover have "bson_split (bson_valid E) (Suc k) ?bs = None" using True by (auto simp: Let_def)
    ultimately show ?thesis
      by (intro exI [of _ False] exI [of _ off] exI [of _ "[]"]) (simp del: slice_docs.simps bson_split.simps)
  next
    case False
    have d: "drop (nat (off + ?len)) blob = drop (nat ?len) ?bs"
      using Suc.prems(2) False by (simp add: nat_add_distrib add.commute)
    have "slices_fit (bson_valid E) k (off + ?len) (drop (nat (off + ?len)) blob)"
      using Suc.prems(1) False unfolding d by (auto simp: Let_def not_less simp del: drop_drop length_drop)
    from Suc.IH [OF this, of "ds @ [take (nat ?len) ?bs]"] Suc.prems(2,3) False obtain v off' xs where
      ih: "slice_docs k E blob ?tot (off + ?len) (ds @ [take (nat ?len) ?bs]) m = (v, off', (ds @ [take (nat ?len) ?bs]) @ xs, m)"
        "bson_split (bson_valid E) k (drop (nat ?len) ?bs) = (if v \<and> off' = ?tot then Some xs else None)"
      unfolding d by auto
    have "slice_docs (Suc k) E blob ?tot off ds m = (v, off', ds @ (take (nat ?len) ?bs # xs), m)"
      using False ih(1) unfolding turn Let_def by simp
    moreover have "bson_split (bson_valid E) (Suc k) ?bs = (if v \<and> off' = ?tot then Some (take (nat ?len) ?bs # xs) else None)"
      using False ih(2) by (simp add: Let_def)
    ultimately show ?thesis by blast
  qed
qed

text \<open>Otherwise an addition overflows.\<close>

lemma slice_docs_fault: "fault m \<Longrightarrow> fault (snd (snd (snd (slice_docs k E blob tot off ds m))))"
proof (induction k arbitrary: off ds m)
  case (Suc k)
  then show ?case by (simp add: i32_add_def read_slice_def Let_def)
qed simp

lemma slice_docs_overflow:
  "\<not> slices_fit (bson_valid E) k off (drop (nat off) blob) \<Longrightarrow> 0 \<le> off \<Longrightarrow> off \<le> int (length blob) \<Longrightarrow>
   int (length blob) < 2 ^ 31 \<Longrightarrow> fault (snd (snd (snd (slice_docs k E blob (int (length blob)) off ds m))))"
proof (induction k arbitrary: off ds)
  case 0
  then show ?case by simp
next
  case (Suc k)
  let ?tot = "int (length blob)" and ?bs = "drop (nat off) blob"
  let ?len = "le_int32 (take 4 ?bs)"
  have lbs: "int (length ?bs) = ?tot - off" using Suc.prems by simp
  show ?case
  proof (cases "off + 4 < 2 ^ 31")
    case False
    then show ?thesis using Suc.prems(2) by (simp add: i32_add_def read_slice_def Let_def slice_docs_fault)
  next
    case True
    have e: "i32_add off 4 m = (off + 4, m)" using True Suc.prems(2) by (intro i32_add_exact) simp_all
    have four: "4 \<le> length ?bs" and l5: "5 \<le> ?len"
      using Suc.prems(1) True by (auto simp: Let_def)
    then have in4: "off + 4 \<le> ?tot" using lbs by linarith
    have pre: "read_slice off 4 blob m = (take 4 ?bs, m)" using in4 Suc.prems(2) by (simp add: read_slice_inside)
    show ?thesis
    proof (cases "off + ?len < 2 ^ 31")
      case False
      then have "fault (snd (i32_add off ?len m))" by (intro i32_add_overflow) simp
      with e pre in4 l5 show ?thesis
        by (cases "i32_add off ?len m") (simp add: read_slice_def Let_def slice_docs_fault)
    next
      case fit: True
      have e1: "i32_add off ?len m = (off + ?len, m)" using l5 fit Suc.prems(2) by (intro i32_add_exact) simp_all
      from Suc.prems(1) True fit have le: "?len \<le> int (length ?bs)" and ok: "bson_valid E (take (nat ?len) ?bs)"
        and more: "\<not> slices_fit (bson_valid E) k (off + ?len) (drop (nat ?len) ?bs)" by (auto simp: Let_def)
      have inside: "off + ?len \<le> ?tot" using le lbs by linarith
      have doc: "read_slice off ?len blob m = (take (nat ?len) ?bs, m)"
        using inside Suc.prems(2) l5 by (simp add: read_slice_inside)
      have "drop (nat (off + ?len)) blob = drop (nat ?len) ?bs"
        using Suc.prems(2) l5 by (simp add: nat_add_distrib add.commute)
      with Suc.IH [of "off + ?len" "ds @ [take (nat ?len) ?bs]"] more Suc.prems(2,4) l5 inside e pre in4 e1 doc ok
      show ?thesis by (simp add: Let_def)
    qed
  qed
qed

end
