(* ===== verification/Mg_Laws.thy ===== *)
theory Mg_Laws
  imports Mg_Slices
begin

text \<open>
  The MongoDB connection's invariant, the submissions and the clearing of the slot. A call is
  usable when its BSON arguments are what libbson accepts and the collection is named.
\<close>

abbreviation mg_node_ids :: "nat \<Rightarrow> native_mongo_result \<Rightarrow> nat list" where
  "mg_node_ids a nd \<equiv> [addr (mg_data nd), a]"

abbreviation mg_store where "mg_store \<equiv> store_ids mg_node_ids"

text \<open>What a client reads from a result.\<close>

definition mg_view :: "native_mongo_result \<Rightarrow> string \<times> int" where
  "mg_view nd = (contents (mg_data nd), mg_len nd)"

interpretation mg_res: result_nodes mg_next "\<lambda>p nd. nd\<lparr>mg_next := p\<rparr>" mg_node_ids native_mongo_clear_result mg_view
  by unfold_locales (simp_all add: native_mongo_clear_result_def mg_view_def)

section \<open>The invariant\<close>

definition mg_handles :: "mongo_conn \<Rightarrow> nat list" where
  "mg_handles c = [the (mg_client c), worker c, slot_mutex c, slot_cond c]"

definition mg_payload :: "mongo_conn \<Rightarrow> nat list" where
  "mg_payload c = opt_ids (mg_db c) @ opt_ids (mg_coll c) @ opt_ids (doc1 c) @ opt_ids (doc2 c)"

text \<open>A buffer of the slot that libbson accepts.\<close>

definition holds_bson :: "('w, 'u) mg_env \<Rightarrow> string cell option \<Rightarrow> int \<Rightarrow> bool" where
  "holds_bson E p len \<longleftrightarrow> (\<exists>d. p = Some d \<and> int (length (contents d)) = len \<and> bson_valid E (contents d))"

definition slot_bytes :: "string cell option \<Rightarrow> string" where
  "slot_bytes p = (case p of None \<Rightarrow> [] | Some d \<Rightarrow> contents d)"

lemma slot_bytes_simps [simp]: "slot_bytes None = []" "slot_bytes (Some d) = contents d"
  by (simp_all add: slot_bytes_def)

lemma holds_bson_static: "holds_bson E p len \<Longrightarrow> mg_static E p len m = (slot_bytes p, m)"
  by (auto simp: holds_bson_def mg_static_def read_array_def)

definition mg_runnable :: "('w, 'u) mg_env \<Rightarrow> mongo_conn \<Rightarrow> bool" where
  "mg_runnable E c \<longleftrightarrow> mg_db c \<noteq> None \<and> (op_kind c \<noteq> MONGO_OP_COMMAND \<longrightarrow> mg_coll c \<noteq> None) \<and>
     (op_kind c \<noteq> MONGO_OP_INSERT_MANY \<longrightarrow> holds_bson E (doc1 c) (doc1_len c)) \<and>
     (op_kind c = MONGO_OP_FIND \<longrightarrow> doc2 c \<noteq> None \<longrightarrow> doc2_len c > 0 \<longrightarrow> holds_bson E (doc2 c) (doc2_len c)) \<and>
     (op_kind c = MONGO_OP_UPDATE_ONE \<longrightarrow> holds_bson E (doc2 c) (doc2_len c)) \<and>
     (op_kind c = MONGO_OP_INSERT_MANY \<longrightarrow> (\<exists>d. doc1 c = Some d \<and> doc1_len c = int (length (contents d)) \<and>
        slices_fit (bson_valid E) (nat (doc_count c)) 0 (contents d)))"

definition mg_slot_ok :: "('w, 'u) mg_env \<Rightarrow> mongo_conn \<Rightarrow> bool" where
  "mg_slot_ok E c \<longleftrightarrow> mg_client c \<noteq> None \<and> (if slot_filled c then mg_runnable E c else mg_payload c = [])"

abbreviation mg_kept :: "nat list \<Rightarrow> mongo_conn \<Rightarrow> 'w mach \<Rightarrow> bool" where
  "mg_kept pre c m \<equiv> store_ok mg_next mg_node_ids pre (results c) (last_result c) m"

definition mg_own :: "('w, 'u) mg_env \<Rightarrow> mongo_conn \<Rightarrow> 'w mach \<Rightarrow> bool" where
  "mg_own E c m \<longleftrightarrow> mg_slot_ok E c \<and> held m = {} \<and> mg_kept (mg_handles c @ mg_payload c) c m"

text \<open>Two connections that differ in their results and errors only.\<close>

definition mg_core :: "mongo_conn \<Rightarrow> mongo_conn" where
  "mg_core c = c\<lparr>results := [], last_result := None, last_error := [], last_error_code := 0\<rparr>"

definition mg_same :: "mongo_conn \<Rightarrow> mongo_conn \<Rightarrow> bool" where
  "mg_same c c' \<longleftrightarrow> mg_core c' = mg_core c"

lemma mg_same_simps [simp]: "mg_same c c" "mg_same c (c\<lparr>results := rs\<rparr>)" "mg_same c (c\<lparr>last_result := lr\<rparr>)"
  "mg_same c (c\<lparr>results := rs, last_result := lr\<rparr>)" "mg_same c (c\<lparr>last_error := s, last_error_code := e\<rparr>)"
  by (simp_all add: mg_same_def mg_core_def)

lemma mg_same_trans: "mg_same c d \<Longrightarrow> mg_same d e \<Longrightarrow> mg_same c e"
  by (simp add: mg_same_def)

lemma mg_same_fields:
  assumes "mg_same c c'"
  shows "mg_client c' = mg_client c" "worker c' = worker c" "slot_mutex c' = slot_mutex c" "slot_cond c' = slot_cond c"
    "slot_filled c' = slot_filled c" "port_id c' = port_id c" "shutdown_requested c' = shutdown_requested c"
    "mg_handles c' = mg_handles c" "mg_payload c' = mg_payload c"
    "mg_client_pool c' = mg_client_pool c"
  using assms by (cases c, cases c', simp add: mg_same_def mg_core_def mg_handles_def mg_payload_def)+

lemma mg_same_slot: "mg_same c c' \<Longrightarrow> mg_slot_ok E c' = mg_slot_ok E c"
  by (cases c, cases c', simp add: mg_same_def mg_core_def mg_slot_ok_def mg_runnable_def mg_payload_def)

lemma mg_own_same:
  assumes "mg_same c c'" "mg_slot_ok E c" "held m = {}" "mg_kept (mg_handles c @ mg_payload c) c' m"
  shows "mg_own E c' m"
  using assms(2-4) mg_same_fields [OF assms(1)] mg_same_slot [OF assms(1), of E] by (simp add: mg_own_def)

lemma mg_ownD:
  assumes "mg_own E c m"
  shows "mg_slot_ok E c" "ledger_ok m" "held m = {}" "\<not> fault m" "mg_kept (mg_handles c @ mg_payload c) c m"
    "distinct (map fst (results c))"
  using assms by (simp_all add: mg_own_def store_ok_def owned_def)

lemma mg_own_acquired: "mg_own E c m \<Longrightarrow> acquired m [] m' \<Longrightarrow> mg_own E c m'"
  using acquired_nil [of m m'] by (auto simp: mg_own_def released_def [of m "{}" m'] intro: store_ok_acquired)

lemma mg_own_released: "mg_own E c m \<Longrightarrow> released m {} m' \<Longrightarrow> mg_own E c m'"
  by (auto simp: mg_own_def released_def [of m "{}"] intro: store_ok_quiet)

section \<open>Calls and requests\<close>

datatype mg_call =
    Mg_find "string option" "string option" "string option" int "string option" int
  | Mg_insert_one "string option" "string option" "string option" int
  | Mg_update_one "string option" "string option" "string option" int "string option" int
  | Mg_delete_one "string option" "string option" "string option" int
  | Mg_command "string option" "string option" int
  | Mg_insert_many "string option" "string option" "string option" int int int

definition mg_submit :: "mg_call \<Rightarrow> int \<Rightarrow> int \<Rightarrow> mongo_conn \<Rightarrow> 'w mach \<Rightarrow> int \<times> mongo_conn option \<times> 'w mach" where
  "mg_submit call port t c m =
     (case call of
        Mg_find db cn f fl d dl \<Rightarrow> mongo_pool_submit_find (Some c) db cn f fl d dl port t m
      | Mg_insert_one db cn d dl \<Rightarrow> mongo_pool_submit_insert_one (Some c) db cn d dl port t m
      | Mg_update_one db cn s sl u ul \<Rightarrow> mongo_pool_submit_update_one (Some c) db cn s sl u ul port t m
      | Mg_delete_one db cn s sl \<Rightarrow> mongo_pool_submit_delete_one (Some c) db cn s sl port t m
      | Mg_command db d dl \<Rightarrow> mongo_pool_submit_command (Some c) db d dl port t m
      | Mg_insert_many db cn ds tot cnt ord \<Rightarrow> mongo_pool_submit_insert_many (Some c) db cn ds tot cnt ord port t m)"

text \<open>The arguments \<open>submit_op\<close> gets.\<close>

record mg_args =
  a_kind :: int
  a_db :: "string option"
  a_coll :: "string option"
  a_d1 :: "string option"
  a_l1 :: int
  a_d2 :: "string option"
  a_l2 :: int
  a_cnt :: int
  a_ord :: int

fun mg_args_of :: "mg_call \<Rightarrow> mg_args" where
  "mg_args_of (Mg_find db cn f fl d dl) = \<lparr>a_kind = MONGO_OP_FIND, a_db = db, a_coll = cn, a_d1 = f, a_l1 = fl,
     a_d2 = d, a_l2 = dl, a_cnt = 0, a_ord = 0\<rparr>"
| "mg_args_of (Mg_insert_one db cn d dl) = \<lparr>a_kind = MONGO_OP_INSERT_ONE, a_db = db, a_coll = cn, a_d1 = d, a_l1 = dl,
     a_d2 = None, a_l2 = 0, a_cnt = 0, a_ord = 0\<rparr>"
| "mg_args_of (Mg_update_one db cn s sl u ul) = \<lparr>a_kind = MONGO_OP_UPDATE_ONE, a_db = db, a_coll = cn, a_d1 = s, a_l1 = sl,
     a_d2 = u, a_l2 = ul, a_cnt = 0, a_ord = 0\<rparr>"
| "mg_args_of (Mg_delete_one db cn s sl) = \<lparr>a_kind = MONGO_OP_DELETE_ONE, a_db = db, a_coll = cn, a_d1 = s, a_l1 = sl,
     a_d2 = None, a_l2 = 0, a_cnt = 0, a_ord = 0\<rparr>"
| "mg_args_of (Mg_command db d dl) = \<lparr>a_kind = MONGO_OP_COMMAND, a_db = db, a_coll = None, a_d1 = d, a_l1 = dl,
     a_d2 = None, a_l2 = 0, a_cnt = 0, a_ord = 0\<rparr>"
| "mg_args_of (Mg_insert_many db cn ds tot cnt ord) = \<lparr>a_kind = MONGO_OP_INSERT_MANY, a_db = db, a_coll = cn, a_d1 = ds,
     a_l1 = tot, a_d2 = None, a_l2 = 0, a_cnt = cnt, a_ord = ord\<rparr>"

definition submit_args :: "mg_args \<Rightarrow> int \<Rightarrow> int \<Rightarrow> mongo_conn \<Rightarrow> 'w mach \<Rightarrow> int \<times> mongo_conn option \<times> 'w mach" where
  "submit_args a port t c m = submit_op (Some c) (a_kind a) (a_db a) (a_coll a) (a_d1 a) (a_l1 a) (a_d2 a) (a_l2 a)
     (a_cnt a) (a_ord a) port t m"

lemma mg_submit_args:
  "mg_submit call port t c m = submit_args (mg_args_of call) port t c m \<or> mg_submit call port t c m = (0, Some c, m)"
  by (cases call) (simp_all add: mg_submit_def submit_args_def mongo_pool_submit_find_def mongo_pool_submit_insert_one_def
      mongo_pool_submit_update_one_def mongo_pool_submit_delete_one_def mongo_pool_submit_command_def
      mongo_pool_submit_insert_many_def)

text \<open>The bytes a buffer argument stands for, and what usable arguments are.\<close>

definition arg_bytes :: "string option \<Rightarrow> int \<Rightarrow> string" where
  "arg_bytes p len = take (nat len) (the p)"

definition arg_bson :: "('w, 'u) mg_env \<Rightarrow> string option \<Rightarrow> int \<Rightarrow> bool" where
  "arg_bson E p len \<longleftrightarrow> p \<noteq> None \<and> 0 < len \<longrightarrow> bson_valid E (arg_bytes p len)"

definition mg_usable :: "('w, 'u) mg_env \<Rightarrow> mg_args \<Rightarrow> bool" where
  "mg_usable E a \<longleftrightarrow>
     (\<forall>b. a_d1 a = Some b \<longrightarrow> nat (a_l1 a) \<le> length b) \<and> (\<forall>b. a_d2 a = Some b \<longrightarrow> nat (a_l2 a) \<le> length b) \<and>
     (a_kind a \<noteq> MONGO_OP_COMMAND \<longrightarrow> a_coll a \<noteq> None) \<and>
     (if a_kind a = MONGO_OP_INSERT_MANY
      then a_d1 a \<noteq> None \<longrightarrow> slices_fit (bson_valid E) (nat (a_cnt a)) 0 (arg_bytes (a_d1 a) (a_l1 a))
      else arg_bson E (a_d1 a) (a_l1 a)) \<and>
     arg_bson E (a_d2 a) (a_l2 a) \<and> (a_kind a = MONGO_OP_UPDATE_ONE \<longrightarrow> a_d2 a \<noteq> None \<and> 0 < a_l2 a)"

definition mg_call_ok :: "('w, 'u) mg_env \<Rightarrow> mg_call \<Rightarrow> bool" where
  "mg_call_ok E call \<longleftrightarrow> mg_usable E (mg_args_of call)"

text \<open>What the worker is to do: the operation with its documents as bytes.\<close>

datatype mg_request =
    Find mg_ns string "string option"
  | Insert_one mg_ns string
  | Update_one mg_ns string string
  | Delete_one mg_ns string
  | Command nat string string
  | Insert_many mg_ns int string bool

definition mg_request_of :: "nat \<Rightarrow> mg_args \<Rightarrow> mg_request" where
  "mg_request_of h a =
     (let ns = (h, the (a_db a), the (a_coll a)); d1 = arg_bytes (a_d1 a) (a_l1 a); d2 = arg_bytes (a_d2 a) (a_l2 a) in
      if a_kind a = MONGO_OP_FIND then Find ns d1 (if a_d2 a \<noteq> None \<and> 0 < a_l2 a then Some d2 else None)
      else if a_kind a = MONGO_OP_COMMAND then Command h (the (a_db a)) d1
      else if a_kind a = MONGO_OP_INSERT_MANY then Insert_many ns (a_cnt a) d1 (a_ord a \<noteq> 0)
      else if a_kind a = MONGO_OP_INSERT_ONE then Insert_one ns d1
      else if a_kind a = MONGO_OP_UPDATE_ONE then Update_one ns d1 d2
      else Delete_one ns d1)"

definition mg_slot_request :: "mongo_conn \<Rightarrow> mg_request" where
  "mg_slot_request c =
     (let h = the (mg_client c); ns = (h, slot_bytes (mg_db c), slot_bytes (mg_coll c)); d1 = slot_bytes (doc1 c) in
      if op_kind c = MONGO_OP_FIND then Find ns d1 (if doc2 c \<noteq> None \<and> doc2_len c > 0 then Some (slot_bytes (doc2 c)) else None)
      else if op_kind c = MONGO_OP_COMMAND then Command h (slot_bytes (mg_db c)) d1
      else if op_kind c = MONGO_OP_INSERT_MANY then Insert_many ns (doc_count c) d1 (bulk_ordered c \<noteq> 0)
      else if op_kind c = MONGO_OP_INSERT_ONE then Insert_one ns d1
      else if op_kind c = MONGO_OP_UPDATE_ONE then Update_one ns d1 (slot_bytes (doc2 c))
      else Delete_one ns d1)"

section \<open>Submitting\<close>

definition mg_refused :: "mongo_conn \<Rightarrow> 'w mach \<Rightarrow> int \<times> mongo_conn option \<times> 'w mach \<Rightarrow> bool" where
  "mg_refused c m res \<longleftrightarrow> (\<exists>m'. res = (0, Some c, m') \<and> acquired m [] m')"

text \<open>Accepted: the slot holds copies of the arguments, newly allocated.\<close>

definition copies :: "mg_args \<Rightarrow> string cell option \<Rightarrow> string cell option \<Rightarrow> string cell option \<Rightarrow> string cell option \<Rightarrow> bool" where
  "copies a dbc cc b1 b2 \<longleftrightarrow> dbc \<noteq> None \<and> a_db a = map_option contents dbc \<and> a_coll a = map_option contents cc \<and>
     map_option contents b1 = Some (arg_bytes (a_d1 a) (a_l1 a)) \<and> a_d1 a \<noteq> None \<and> 0 < a_l1 a \<and>
     map_option contents b2 = (if a_d2 a \<noteq> None \<and> 0 < a_l2 a then Some (arg_bytes (a_d2 a) (a_l2 a)) else None)"

definition mg_accepted ::
  "mongo_conn \<Rightarrow> 'w mach \<Rightarrow> mg_args \<Rightarrow> int \<Rightarrow> int \<Rightarrow> int \<times> mongo_conn option \<times> 'w mach \<Rightarrow> bool" where
  "mg_accepted c m a port t res \<longleftrightarrow> (\<exists>dbc cc b1 b2 m'. res =
     (1, Some (c\<lparr>slot_filled := True, op_kind := a_kind a, mg_db := dbc, mg_coll := cc, doc1 := b1, doc1_len := a_l1 a,
        doc2 := b2, doc2_len := (if b2 \<noteq> None then a_l2 a else 0), doc_count := a_cnt a, bulk_ordered := a_ord a,
        port_id := port, timeout_ms := t\<rparr>), m') \<and>
     acquired m (opt_ids dbc @ opt_ids cc @ opt_ids b1 @ opt_ids b2) m' \<and> copies a dbc cc b1 b2 \<and>
     \<not> slot_filled c \<and> \<not> shutdown_requested c)"

lemma dup_string_law:
  "dup_string s m = (r, m') \<Longrightarrow> acquired m (opt_ids r) m' \<and> (r \<noteq> None \<longrightarrow> map_option contents r = s) \<and> (s = None \<longrightarrow> r = None)"
  by (cases s; cases r) (auto simp: dup_string_def dest: halloc_None halloc_Some)

lemma dup_bytes_law:
  assumes "mongo_dup_bytes src len m = (r, m')" "\<forall>b. src = Some b \<longrightarrow> nat len \<le> length b"
  shows "acquired m (opt_ids r) m' \<and> (r \<noteq> None \<longrightarrow> src \<noteq> None \<and> 0 < len \<and> map_option contents r = Some (arg_bytes src len))"
  using assms by (auto simp: mongo_dup_bytes_def arg_bytes_def read_array_enough dest: halloc_None halloc_Some
      split: option.splits if_splits prod.splits)

lemma submit_op_cases:
  assumes ok: "ledger_ok m" and nh: "slot_mutex c \<notin> held m"
    and l1: "\<forall>b. a_d1 a = Some b \<longrightarrow> nat (a_l1 a) \<le> length b" and l2: "\<forall>b. a_d2 a = Some b \<longrightarrow> nat (a_l2 a) \<le> length b"
    and run: "submit_args a port t c m = res"
  shows "mg_refused c m res \<or> mg_accepted c m a port t res"
proof (cases "a_db a = None \<or> a_d1 a = None \<or> a_l1 a \<le> 0")
  case True
  with run show ?thesis by (auto simp: mg_refused_def submit_args_def submit_op_def split: option.splits)
next
  case False
  let ?two = "a_d2 a \<noteq> None \<and> 0 < a_l2 a"
  obtain dbc m1 where d: "dup_string (a_db a) m = (dbc, m1)" by (cases "dup_string (a_db a) m")
  obtain cc m2 where cc: "(if a_coll a \<noteq> None then dup_string (a_coll a) m1 else (None, m1)) = (cc, m2)"
    by (cases "if a_coll a \<noteq> None then dup_string (a_coll a) m1 else (None, m1)")
  obtain b1 m3 where b1: "mongo_dup_bytes (a_d1 a) (a_l1 a) m2 = (b1, m3)" by (cases "mongo_dup_bytes (a_d1 a) (a_l1 a) m2")
  obtain b2 m4 where b2: "(if ?two then mongo_dup_bytes (a_d2 a) (a_l2 a) m3 else (None, m3)) = (b2, m4)"
    by (cases "if ?two then mongo_dup_bytes (a_d2 a) (a_l2 a) m3 else (None, m3)")
  let ?ids = "opt_ids dbc @ opt_ids cc @ opt_ids b1 @ opt_ids b2"
  have 1: "acquired m (opt_ids dbc) m1" "dbc \<noteq> None \<longrightarrow> map_option contents dbc = a_db a"
    using dup_string_law [OF d] by blast+
  have 2: "acquired m1 (opt_ids cc) m2" "a_coll a = None \<or> cc \<noteq> None \<longrightarrow> map_option contents cc = a_coll a"
    using cc dup_string_law [of "a_coll a" m1 cc m2] by (auto split: if_splits)
  have 3: "acquired m2 (opt_ids b1) m3" "b1 \<noteq> None \<longrightarrow> map_option contents b1 = Some (arg_bytes (a_d1 a) (a_l1 a))"
    using dup_bytes_law [OF b1 l1] by blast+
  have 4: "acquired m3 (opt_ids b2) m4"
    "?two \<longrightarrow> b2 \<noteq> None \<longrightarrow> map_option contents b2 = Some (arg_bytes (a_d2 a) (a_l2 a))" "\<not> ?two \<longrightarrow> b2 = None"
    using b2 dup_bytes_law [OF _ l2, of m3 b2 m4] by (auto split: if_splits)
  have acq: "acquired m ?ids m4" using acquired_trans [OF 1(1) acquired_trans [OF 2(1) acquired_trans [OF 3(1) 4(1)]]] by simp
  define missing where "missing \<longleftrightarrow> dbc = None \<or> b1 = None \<or> (a_coll a \<noteq> None \<and> cc = None) \<or> (?two \<and> b2 = None)"
  let ?drop = "\<lambda>k. cfree b2 (cfree b1 (cfree cc (cfree dbc k)))"
  have drop: "acquired m [] (?drop k)" if "acquired m ?ids k" for k
  proof -
    have "?drop k = free_all ?ids k" by (simp add: cfree_free_all free_all_append)
    with acquired_free_every [OF ok that, of ?ids] that show ?thesis by (simp add: acquired_def)
  qed
  have nh4: "slot_mutex c \<notin> held m4" using acq nh by (simp add: acquired_def)
  have r: "res = (if missing then (0, Some c, ?drop m4)
      else if slot_filled c \<or> shutdown_requested c then (0, Some c, ?drop (mutex_unlock (slot_mutex c) (mutex_lock (slot_mutex c) m4)))
      else (1, Some (c\<lparr>slot_filled := True, op_kind := a_kind a, mg_db := dbc, mg_coll := cc, doc1 := b1, doc1_len := a_l1 a,
        doc2 := b2, doc2_len := (if b2 \<noteq> None then a_l2 a else 0), doc_count := a_cnt a, bulk_ordered := a_ord a,
        port_id := port, timeout_ms := t\<rparr>), mutex_unlock (slot_mutex c) (cond_signal (slot_cond c) (mutex_lock (slot_mutex c) m4))))"
    using run False d cc b1 b2 unfolding submit_args_def submit_op_def mongo_dup_string_eq missing_def
    by (auto simp: Let_def split: option.splits)
  show ?thesis
  proof (cases "missing \<or> slot_filled c \<or> shutdown_requested c")
    case True
    have "acquired m ?ids (mutex_unlock (slot_mutex c) (mutex_lock (slot_mutex c) m4))"
      using acquired_trans [OF acq lock_refused [OF nh4]] by simp
    with True r drop acq show ?thesis by (auto simp: mg_refused_def)
  next
    case go: False
    have "acquired m4 [] (mutex_unlock (slot_mutex c) (cond_signal (slot_cond c) (mutex_lock (slot_mutex c) m4)))"
      using lock_unlock [OF nh4, of "[]" "cond_signal (slot_cond c) (mutex_lock (slot_mutex c) m4)"] by simp
    from acquired_trans [OF acq this]
    have "acquired m ?ids (mutex_unlock (slot_mutex c) (cond_signal (slot_cond c) (mutex_lock (slot_mutex c) m4)))" by simp
    moreover have "copies a dbc cc b1 b2"
      using go False 1(2) 2(2) 3(2) 4(2,3) by (auto simp: missing_def copies_def)
    ultimately show ?thesis using go r unfolding mg_accepted_def
      by (intro disjI2 exI [of _ dbc] exI [of _ cc] exI [of _ b1] exI [of _ b2]
          exI [of _ "mutex_unlock (slot_mutex c) (cond_signal (slot_cond c) (mutex_lock (slot_mutex c) m4))"] conjI) simp_all
  qed
qed

lemma mg_submit_cases:
  assumes own: "mg_own E c m" and ok: "mg_call_ok E call"
  shows "mg_refused c m (mg_submit call port t c m) \<or> mg_accepted c m (mg_args_of call) port t (mg_submit call port t c m)"
proof -
  note D = mg_ownD [OF own]
  have nh: "slot_mutex c \<notin> held m" using D(3) by simp
  have "\<forall>b. a_d1 (mg_args_of call) = Some b \<longrightarrow> nat (a_l1 (mg_args_of call)) \<le> length b"
    "\<forall>b. a_d2 (mg_args_of call) = Some b \<longrightarrow> nat (a_l2 (mg_args_of call)) \<le> length b"
    using ok by (simp_all add: mg_call_ok_def mg_usable_def)
  from submit_op_cases [OF D(2) nh this refl, of port t] mg_submit_args [of call port t c m] show ?thesis
    by (auto simp: mg_refused_def)
qed

lemma arg_bytes_length: "nat len \<le> length b \<Longrightarrow> 0 < len \<Longrightarrow> int (length (arg_bytes (Some b) len)) = len"
  by (simp add: arg_bytes_def min_def)

lemma copies_bytes:
  assumes "copies a dbc cc b1 b2"
  shows "slot_bytes dbc = the (a_db a)" "a_coll a \<noteq> None \<Longrightarrow> slot_bytes cc = the (a_coll a)"
    "slot_bytes b1 = arg_bytes (a_d1 a) (a_l1 a)" "(b2 \<noteq> None) = (a_d2 a \<noteq> None \<and> 0 < a_l2 a)"
    "b2 \<noteq> None \<Longrightarrow> slot_bytes b2 = arg_bytes (a_d2 a) (a_l2 a)" "dbc \<noteq> None" "(cc \<noteq> None) = (a_coll a \<noteq> None)"
    "b1 \<noteq> None"
  using assms by (auto simp: copies_def split: if_splits)

lemma mg_accepted_runnable:
  assumes us: "mg_usable E a" and cp: "copies a dbc cc b1 b2"
    and c: "op_kind c = a_kind a" "mg_db c = dbc" "mg_coll c = cc" "doc1 c = b1" "doc1_len c = a_l1 a" "doc2 c = b2"
      "doc2_len c = (if b2 \<noteq> None then a_l2 a else 0)" "doc_count c = a_cnt a" "bulk_ordered c = a_ord a"
  shows "mg_runnable E c \<and> mg_slot_request c = mg_request_of (the (mg_client c)) a"
proof -
  note B = copies_bytes [OF cp]
  from cp obtain x where x: "a_d1 a = Some x" "0 < a_l1 a" by (auto simp: copies_def)
  from B(8) obtain d where d: "b1 = Some d" by auto
  have len1: "int (length (contents d)) = a_l1 a" and bs1: "contents d = arg_bytes (a_d1 a) (a_l1 a)"
    using us x B(3) arg_bytes_length [of "a_l1 a" x] by (simp_all add: mg_usable_def d)
  have 2: "holds_bson E b2 (a_l2 a)" if two: "b2 \<noteq> None"
  proof -
    from two obtain e where e: "b2 = Some e" by auto
    from two B(4) obtain y where y: "a_d2 a = Some y" "0 < a_l2 a" by auto
    have "int (length (arg_bytes (a_d2 a) (a_l2 a))) = a_l2 a" using us y by (simp add: mg_usable_def arg_bytes_length)
    moreover have "bson_valid E (arg_bytes (a_d2 a) (a_l2 a))" using us y by (simp add: mg_usable_def arg_bson_def)
    ultimately show ?thesis using B(5) two e by (simp add: holds_bson_def)
  qed
  have coll: "a_kind a \<noteq> MONGO_OP_COMMAND \<Longrightarrow> cc \<noteq> None \<and> slot_bytes cc = the (a_coll a)"
    using us B(2,7) by (auto simp: mg_usable_def)
  have two: "a_kind a = MONGO_OP_UPDATE_ONE \<Longrightarrow> b2 \<noteq> None" using us B(4) by (simp add: mg_usable_def)
  have "a_kind a \<noteq> MONGO_OP_INSERT_MANY \<Longrightarrow> holds_bson E b1 (a_l1 a)"
    using us x len1 bs1 by (auto simp: mg_usable_def arg_bson_def holds_bson_def d)
  moreover have "a_kind a = MONGO_OP_INSERT_MANY \<Longrightarrow> slices_fit (bson_valid E) (nat (a_cnt a)) 0 (contents d)"
    using us x by (simp add: mg_usable_def bs1)
  ultimately have "mg_runnable E c"
    using 2 two coll B(6) len1 by (auto simp: mg_runnable_def c d)
  moreover have "mg_slot_request c = mg_request_of (the (mg_client c)) a"
    using coll two B(1,3,4,5) by (auto simp: mg_slot_request_def mg_request_of_def c Let_def)
  ultimately show ?thesis by blast
qed

lemma mg_accepted_own:
  assumes own: "mg_own E c m" and us: "mg_usable E a" and acc: "mg_accepted c m a port t (k, Some c', m')"
  shows "mg_own E c' m' \<and> k = 1 \<and> \<not> slot_filled c \<and> \<not> shutdown_requested c \<and> slot_filled c' \<and>
    port_id c' = port \<and> \<not> shutdown_requested c' \<and> mg_slot_request c' = mg_request_of (the (mg_client c)) a \<and>
    results c' = results c \<and> last_result c' = last_result c \<and> acquired m (mg_payload c') m' \<and> mg_client c' = mg_client c"
proof -
  from acc obtain dbc cc b1 b2 where c': "c' = c\<lparr>slot_filled := True, op_kind := a_kind a, mg_db := dbc, mg_coll := cc,
        doc1 := b1, doc1_len := a_l1 a, doc2 := b2, doc2_len := (if b2 \<noteq> None then a_l2 a else 0), doc_count := a_cnt a,
        bulk_ordered := a_ord a, port_id := port, timeout_ms := t\<rparr>"
    and acq: "acquired m (opt_ids dbc @ opt_ids cc @ opt_ids b1 @ opt_ids b2) m'" and cp: "copies a dbc cc b1 b2"
    and free: "\<not> slot_filled c" "\<not> shutdown_requested c" "k = 1"
    by (auto simp: mg_accepted_def)
  note D = mg_ownD [OF own]
  have run: "mg_runnable E c' \<and> mg_slot_request c' = mg_request_of (the (mg_client c')) a"
    by (rule mg_accepted_runnable [OF us cp]) (simp_all add: c')
  have pay: "mg_payload c' = opt_ids dbc @ opt_ids cc @ opt_ids b1 @ opt_ids b2" by (simp add: c' mg_payload_def)
  have "mg_payload c = []" using D(1) free(1) by (simp add: mg_slot_ok_def)
  then have "mg_kept (mg_handles c @ mg_payload c') c m'"
    using D(5) by (intro store_ok_acquired [OF _ acq]) (simp_all add: pay)
  moreover have "held m' = {}" using D(3) acq by (simp add: acquired_def)
  moreover have "mg_client c' = mg_client c" "mg_handles c' = mg_handles c" "results c' = results c"
    "last_result c' = last_result c" "slot_filled c'" "port_id c' = port" "shutdown_requested c' = shutdown_requested c"
    by (simp_all add: c' mg_handles_def)
  ultimately show ?thesis using run free D(1) acq by (simp add: mg_own_def mg_slot_ok_def pay)
qed

lemma mg_clear_law:
  assumes own: "mg_own E c m" and run: "mongo_worker_clear c m = (c', m')"
  shows "mg_own E c' m' \<and> \<not> slot_filled c' \<and> shutdown_requested c' = shutdown_requested c \<and>
    released m (set (mg_payload c)) m' \<and> results c' = results c \<and> last_result c' = last_result c \<and>
    mg_handles c' = mg_handles c \<and> mg_client_pool c' = mg_client_pool c \<and> oom m' = oom m"
proof -
  note D = mg_ownD [OF own]
  let ?l = "mutex_lock (slot_mutex c) m" and ?ids = "mg_payload c"
  have c': "c' = c\<lparr>mg_db := None, mg_coll := None, doc1 := None, doc1_len := 0, doc2 := None, doc2_len := 0,
        doc_count := 0, bulk_ordered := 0, op_kind := 0, port_id := 0, timeout_ms := 0, slot_filled := False\<rparr>"
    and m': "m' = mutex_unlock (slot_mutex c) (cond_signal (slot_cond c) (free_all ?ids ?l))"
    using run by (auto simp: mongo_worker_clear_def mongo_pool_free_slot_payload_def cfree_free_all free_all_append
        mg_payload_def Let_def)
  have ids: "distinct ?ids" "set ?ids \<subseteq> live m"
    using store_ok_owned [OF D(5)] by (auto simp: owned_def)
  have f: "free_all ?ids ?l = ?l\<lparr>live := live m - set ?ids\<rparr>"
    using free_all_live [of ?ids ?l] ids by (simp add: ledger)
  have rel: "released m (set ?ids) m'"
    unfolding m' f using D(3) by (simp add: released_def mutex_unlock_def mutex_lock_def cond_signal_def)
  have "mg_kept (?ids @ mg_handles c) c m" by (rule store_ok_mset [OF D(5)]) simp
  from store_ok_released [OF this rel] D(1,3) rel have "mg_own E c' m'"
    by (simp add: mg_own_def c' mg_handles_def mg_slot_ok_def mg_payload_def released_def)
  moreover have "oom m' = oom m" by (simp add: m' ledger)
  ultimately show ?thesis using rel by (simp add: c' mg_handles_def)
qed

end
