(* ===== verification/Mg_Worker_Laws.thy ===== *)
theory Mg_Worker_Laws
  imports Mg_Laws
begin

text \<open>
  Each operation of the MongoDB worker against its outcome: what the server would answer and
  which documents are left for the client, whatever allocations fail on the way.
\<close>

section \<open>Outcomes\<close>

fun mg_docs :: "nat \<Rightarrow> ('w, 'u) mg_env \<Rightarrow> 'u \<Rightarrow> 'w \<Rightarrow> (string list \<times> 'w) option" where
  "mg_docs 0 E cur w = None"
| "mg_docs (Suc n) E cur w =
     (case mongoc_cursor_next E cur w of
        (None, w1) \<Rightarrow> Some ([], w1)
      | (Some d, w1) \<Rightarrow> map_option (\<lambda>(ds, w2). (d # ds, w2)) (mg_docs n E cur w1))"

text \<open>The server's error, if any, and the documents for the client; \<open>None\<close>: none new.\<close>

type_synonym mg_result = "mg_error option \<times> string list option"

definition one_reply :: "mg_error option \<times> string \<times> 'w \<Rightarrow> mg_result" where
  "one_reply r = (case r of (err, reply, w) \<Rightarrow> (err, if err = None then Some [reply] else None))"

definition malformed_blob :: mg_error where
  "malformed_blob = (''insert_many: malformed BSON blob (doc_count/length mismatch)'', 0)"

fun mg_outcome :: "nat \<Rightarrow> ('w, 'u) mg_env \<Rightarrow> mg_request \<Rightarrow> 'w \<Rightarrow> mg_result option" where
  "mg_outcome n E (Find ns flt opts) w =
     (case mongoc_collection_find_with_opts E ns flt opts (mongoc_client_get_collection E ns w) of (cur, w1) \<Rightarrow>
        (case mg_docs n E cur w1 of
           None \<Rightarrow> None
         | Some (ds, w2) \<Rightarrow>
             Some (case mongoc_cursor_error E cur w2 of None \<Rightarrow> (None, Some ds) | Some e \<Rightarrow> (Some e, Some []))))"
| "mg_outcome n E (Insert_one ns d) w =
     Some (one_reply (mongoc_collection_insert_one E ns d (mongoc_client_get_collection E ns w)))"
| "mg_outcome n E (Update_one ns s u) w =
     Some (one_reply (mongoc_collection_update_one E ns s u (mongoc_client_get_collection E ns w)))"
| "mg_outcome n E (Delete_one ns s) w =
     Some (one_reply (mongoc_collection_delete_one E ns s (mongoc_client_get_collection E ns w)))"
| "mg_outcome n E (Command h db cmd) w = Some (one_reply (mongoc_client_command_simple E h db cmd w))"
| "mg_outcome n E (Insert_many ns cnt blob ordered) w =
     Some (case bson_split (bson_valid E) (nat cnt) blob of
        None \<Rightarrow> (Some malformed_blob, None)
      | Some ds \<Rightarrow>
          (case mongoc_collection_insert_many E ns ds ordered (mongoc_client_get_collection E ns w) of
             (err, reply, w1) \<Rightarrow> (err, Some [reply])))"

definition doc_view :: "string \<Rightarrow> string \<times> int" where
  "doc_view d = (d, int (length d))"

definition mg_views :: "mongo_conn \<Rightarrow> string list \<Rightarrow> bool" where
  "mg_views c ds \<longleftrightarrow> (\<exists>as. chain_at mg_next (map_of (results c)) (last_result c) as \<and> distinct as \<and>
     map (mg_view \<circ> snd) (chain_nodes (results c) as) = map doc_view ds)"

definition shows_error :: "mg_error \<Rightarrow> mongo_conn \<Rightarrow> bool" where
  "shows_error e c \<longleftrightarrow> last_error c = snprintf MONGO_ERR_BUF (fst e) \<and> last_error_code c = snd e"

lemma set_error_simps [simp]:
  "results (mongo_set_error e c) = results c" "last_result (mongo_set_error e c) = last_result c"
  "mg_same c (mongo_set_error e c)" "shows_error x (mongo_set_error (Some x) c)"
  "(mongo_set_error e c)\<lparr>results := results c, last_result := last_result c\<rparr> = mongo_set_error e c"
  by (simp_all add: mongo_set_error_def shows_error_def split: option.splits prod.splits)

text \<open>
  What an operation does to the connection: code 1 with the documents; code 2 with the
  results as they were; or code 2 with new ones, none at all when memory ran out. \<open>b\<close>: there
  is memory to spare.
\<close>

definition mg_ran :: "bool \<Rightarrow> mongo_conn \<Rightarrow> 'w mach \<Rightarrow> int \<times> mongo_conn \<times> 'w mach \<Rightarrow> mg_result option \<Rightarrow> bool" where
  "mg_ran b c m res out \<longleftrightarrow> (case res of (rc, c', m') \<Rightarrow> (b \<longrightarrow> oom m' = []) \<and> mg_same c c' \<and>
     grown mg_next mg_node_ids (results c) m (results c') (last_result c') m' \<and>
     ((rc = 1 \<and> last_error c' = last_error c \<and> last_error_code c' = last_error_code c \<and>
        (\<exists>ds. out = Some (None, Some ds) \<and> mg_views c' ds)) \<or>
      (rc = 2 \<and> results c' = results c \<and> last_result c' = last_result c \<and> acquired m [] m' \<and>
        (b \<longrightarrow> (\<exists>e. out = Some (Some e, None) \<and> shows_error e c'))) \<or>
      (rc = 2 \<and> (\<exists>ds. mg_views c' ds \<and> (ds = [] \<and> \<not> b \<or> (\<exists>e. out = Some (Some e, Some ds) \<and> shows_error e c'))))))"

lemma MG_PORT_simps [simp]: "MG_PORT_OK = 1" "MG_PORT_ABORTED = 2"
  by (simp_all add: MG_PORT_OK_def MG_PORT_ABORTED_def)

section \<open>Handles opened and closed around an operation\<close>

lemma bracket_acquired:
  assumes ok: "ledger_ok m" and a: "acquired m hs m1" and xs: "acquired m1 xs m2" and zs: "set zs = set hs" "distinct zs"
  shows "acquired m xs (free_all zs m2)"
proof -
  have "acquired m (xs @ hs) m2"
    using acquired_trans [OF a xs] by (rule acquired_perm) (use acquired_trans [OF a xs] in \<open>auto simp: acquired_def\<close>)
  from acquired_drop [OF ok this zs] show ?thesis .
qed

lemma bracket_grown:
  assumes ok: "ledger_ok m" and a: "acquired m hs m1" and zs: "set zs = set hs" "distinct zs"
    and g: "grown mg_next mg_node_ids st m1 st' p m2"
  shows "grown mg_next mg_node_ids st m st' p (free_all zs m2)"
proof -
  from g obtain xs where "acquired m1 xs m2" "mset (mg_store st') = mset (mg_store st) + mset xs"
    unfolding grown_def by blast
  with bracket_acquired [OF ok a _ zs] have "\<exists>xs. acquired m xs (free_all zs m2) \<and> mset (mg_store st') = mset (mg_store st) + mset xs"
    by blast
  with g show ?thesis unfolding grown_def by blast
qed

lemma bracket_all_ran:
  assumes ok: "ledger_ok m" and a: "acquired m hs m1" and zs: "set zs = set hs" "distinct zs"
    and r: "mg_ran b c m1 (rc, c', m2) out"
  shows "mg_ran b c m (rc, c', free_all zs (m2\<lparr>ext := w\<rparr>)) out"
proof -
  have "acquired m1 [] m2 \<Longrightarrow> acquired m [] (free_all zs (m2\<lparr>ext := w\<rparr>))"
    using bracket_acquired [OF ok a _ zs, of "[]" "m2\<lparr>ext := w\<rparr>"] by simp
  moreover have "grown mg_next mg_node_ids st m1 st' p m2 \<Longrightarrow> grown mg_next mg_node_ids st m st' p (free_all zs (m2\<lparr>ext := w\<rparr>))" for st st' p
    using bracket_grown [OF ok a zs, of st st' p "m2\<lparr>ext := w\<rparr>"] by simp
  ultimately show ?thesis using r unfolding mg_ran_def prod.case by (simp add: free_all_frame) blast
qed

lemma bracket_ran:
  assumes "ledger_ok m" "acquired m [h] m1" "mg_ran b c m1 (rc, c', m2) out"
  shows "mg_ran b c m (rc, c', rfree h (m2\<lparr>ext := w\<rparr>)) out"
  using bracket_all_ran [OF assms(1,2) _ _ assms(3), of "[h]" w] by simp

lemma bracket_kept: "mg_kept pre c m \<Longrightarrow> acquired m [h] m1 \<Longrightarrow> mg_kept (h # pre) c m1"
  by (rule store_ok_acquired) (assumption, assumption, simp)

lemma kept_ledger: "mg_kept pre c m \<Longrightarrow> ledger_ok m"
  by (simp add: store_ok_def owned_def)

section \<open>One result\<close>

lemma make_result_law:
  assumes ok: "ledger_ok m" and run: "make_result bs m = (r, m')"
  shows "ext m' = ext m \<and> (oom m = [] \<longrightarrow> oom m' = [] \<and> r \<noteq> None) \<and>
    (case r of None \<Rightarrow> acquired m [] m'
     | Some (a, nd) \<Rightarrow> acquired m (mg_node_ids a nd) m' \<and> mg_next nd = None \<and> mg_view nd = doc_view bs)"
proof -
  obtain w m1 where w: "halloc () m = (w, m1)" by (cases "halloc () m")
  show ?thesis
  proof (cases w)
    case None
    with run w halloc_None [of "()" m m1] halloc_frame [OF w] halloc_plenty [of m "()"] show ?thesis
      by (auto simp: make_result_def)
  next
    case (Some c)
    obtain d m2 where d: "halloc bs m1 = (d, m2)" by (cases "halloc bs m1")
    note a1 = conjunct1 [OF halloc_Some [OF w [unfolded Some]]]
    have o: "oom m = [] \<Longrightarrow> oom m1 = []" using halloc_plenty [of m "()"] w by auto
    show ?thesis
    proof (cases d)
      case None
      have "acquired m1 [] m2" using d None by (auto dest: halloc_None)
      from bracket_acquired [OF ok a1 this, of "[addr c]"] run w d Some None o halloc_plenty [of m1 bs] halloc_frame [OF w] halloc_frame [OF d]
      show ?thesis by (auto simp: make_result_def ledger)
    next
      case data: (Some e)
      note h = halloc_Some [OF d [unfolded data]]
      have "acquired m [addr e, addr c] m2"
        using acquired_trans [OF a1 conjunct1 [OF h]] by (rule acquired_perm) (use acquired_trans [OF a1 conjunct1 [OF h]] in \<open>auto simp: acquired_def\<close>)
      with run w d Some data o halloc_plenty [of m1 bs] halloc_frame [OF w] halloc_frame [OF d] h show ?thesis
        by (auto simp: make_result_def mg_view_def doc_view_def)
    qed
  qed
qed

text \<open>Storing a reply.\<close>

lemma store_single_law:
  assumes ok: "mg_kept pre c m" and run: "store_single reply c m = (rc, c', m')"
  shows "ext m' = ext m \<and> c' = c\<lparr>results := results c', last_result := last_result c'\<rparr> \<and> (oom m = [] \<longrightarrow> oom m' = [] \<and> rc = 1) \<and>
    grown mg_next mg_node_ids (results c) m (results c') (last_result c') m' \<and>
    (rc = 1 \<and> mg_views c' [reply] \<or> rc = 2 \<and> c' = c \<and> acquired m [] m')"
proof -
  obtain r m1 where r: "make_result reply m = (r, m1)" by (cases "make_result reply m")
  note l = make_result_law [OF kept_ledger [OF ok] r]
  show ?thesis
  proof (cases r)
    case None
    with run r have "rc = 2" "c' = c" "m' = m1" by (simp_all add: store_single_def)
    with l None grown_same [OF ok, of m1] show ?thesis by simp
  next
    case (Some x)
    obtain a nd where x: "x = (a, nd)" by (cases x)
    with run r Some have e: "rc = 1" "m' = m1" "c' = c\<lparr>results := AList.update a nd (results c), last_result := Some a\<rparr>"
      by (simp_all add: store_single_def)
    have nd: "acquired m (mg_node_ids a nd) m1" "mg_next nd = None" "mg_view nd = doc_view reply" using l Some x by simp_all
    have "map_of (AList.update a nd (results c)) a = Some nd" by (simp add: update_conv')
    with nd have "mg_views c' [reply]" unfolding mg_views_def e(3) by (intro exI [of _ "[a]"]) simp
    with mg_res.grown_put [OF ok nd(1,2)] e l Some show ?thesis by simp
  qed
qed

section \<open>find\<close>

text \<open>The loop: the documents linked behind those that are there, or everything given back.\<close>

lemma find_loop_cases:
  assumes own: "owned (pre @ mg_store st0) m0"
  shows "mg_res.building st0 st head tail news \<Longrightarrow> acquired m0 (mg_store news) m \<Longrightarrow>
   find_loop n E cur st head tail m = Some (lasted, st', head', m') \<Longrightarrow>
   (oom m = [] \<longrightarrow> oom m' = []) \<and>
   (if lasted then
      (\<exists>tail' news' ds. mg_res.building st0 st' head' tail' news' \<and> acquired m0 (mg_store news') m' \<and>
         mg_docs n E cur (ext m) = Some (ds, ext m') \<and>
         map (mg_view \<circ> snd) news' = map (mg_view \<circ> snd) news @ map doc_view ds)
    else st' = st0 \<and> head' = None \<and> acquired m0 [] m' \<and> oom m \<noteq> [])"
proof (induction n arbitrary: st head tail news m)
  case 0
  then show ?case by simp
next
  case (Suc n)
  note b = Suc.prems(1) and acq = Suc.prems(2) and run = Suc.prems(3)
  obtain d w where nx: "mongoc_cursor_next E cur (ext m) = (d, w)" by (cases "mongoc_cursor_next E cur (ext m)")
  show ?case
  proof (cases d)
    case None
    with run nx have e: "lasted" "st' = st" "head' = head" "m' = m\<lparr>ext := w\<rparr>" by auto
    have "mg_docs (Suc n) E cur (ext m) = Some ([], w)" using nx None by simp
    with b acq e show ?thesis by (auto simp del: mg_docs.simps intro!: exI [of _ tail] exI [of _ news])
  next
    case (Some doc)
    have led: "ledger_ok (m\<lparr>ext := w\<rparr>)" using acquired_ledger_ok [OF _ acq] own by (simp add: owned_def)
    obtain r m1 where r: "make_result doc (m\<lparr>ext := w\<rparr>) = (r, m1)" by (cases "make_result doc (m\<lparr>ext := w\<rparr>)")
    note l = make_result_law [OF led r]
    show ?thesis
    proof (cases r)
      case None
      obtain st1 m2 where f: "mongo_free_result_chain head st m1 = (st1, m2)" by (cases "mongo_free_result_chain head st m1")
      have a1: "acquired m0 (mg_store news @ []) m1" using acquired_trans [OF acq, of "[]" m1] l None by simp
      have "free_chain mg_next native_mongo_clear_result head st (free_all [] m1) = (st1, m2)"
        using f by (simp add: mongo_free_result_chain_def)
      from mg_res.built_abort [OF b own a1 this] run nx Some r None f l show ?thesis by auto
    next
      case node: (Some x)
      obtain a nd where x: "x = (a, nd)" by (cases x)
      with l node have nd: "acquired m (mg_node_ids a nd) m1" "mg_next nd = None" "mg_view nd = doc_view doc" by simp_all
      have "acquired m0 (mg_store news @ mg_node_ids a nd) m1" using acquired_trans [OF acq nd(1)] .
      from mg_res.built_link [OF b own this nd(2)] obtain head1 st1 news1 where
        k: "link_node (\<lambda>p nd. nd\<lparr>mg_next := p\<rparr>) head tail a nd st m1 = (head1, Some a, st1, m1)"
          "mg_res.building st0 st1 head1 (Some a) news1"
          "map (mg_view \<circ> snd) news1 = map (mg_view \<circ> snd) news @ [mg_view nd]" "acquired m0 (mg_store news1) m1"
        by blast
      have go: "find_loop n E cur st1 head1 (Some a) m1 = Some (lasted, st', head', m')"
        using run nx Some r node x k(1) by simp
      have o: "oom m = [] \<longrightarrow> oom m1 = []" and x1: "ext m1 = w" using l by simp_all
      have s: "mg_docs (Suc n) E cur (ext m) = map_option (\<lambda>(ds, w2). (doc # ds, w2)) (mg_docs n E cur w)"
        using nx Some by simp
      note ih = Suc.IH [OF k(2,4) go]
      show ?thesis
      proof (cases lasted)
        case True
        with ih x1 obtain tail' news' ds where h: "mg_res.building st0 st' head' tail' news'" "acquired m0 (mg_store news') m'"
          "mg_docs n E cur w = Some (ds, ext m')" "map (mg_view \<circ> snd) news' = map (mg_view \<circ> snd) news1 @ map doc_view ds"
          by auto
        have "mg_docs (Suc n) E cur (ext m) = Some (doc # ds, ext m')" by (simp only: s h(3)) simp
        moreover have "map (mg_view \<circ> snd) news' = map (mg_view \<circ> snd) news @ map doc_view (doc # ds)"
          by (simp only: h(4) k(3) nd(3)) simp
        ultimately show ?thesis using True ih o h(1,2) by auto
      qed (use ih o in auto)
    qed
  qed
qed

lemma find_loop_returns:
  "mg_docs n E cur (ext m) \<noteq> None \<Longrightarrow> ledger_ok m \<Longrightarrow> find_loop n E cur st head tail m \<noteq> None"
proof (induction n arbitrary: st head tail m)
  case 0
  then show ?case by simp
next
  case (Suc n)
  obtain d w where nx: "mongoc_cursor_next E cur (ext m) = (d, w)" by (cases "mongoc_cursor_next E cur (ext m)")
  show ?case
  proof (cases d)
    case (Some doc)
    obtain r m1 where r: "make_result doc (m\<lparr>ext := w\<rparr>) = (r, m1)" by (cases "make_result doc (m\<lparr>ext := w\<rparr>)")
    have led: "ledger_ok (m\<lparr>ext := w\<rparr>)" using Suc.prems(2) by simp
    note l = make_result_law [OF led r]
    show ?thesis
    proof (cases r)
      case node: (Some x)
      obtain a nd where x: "x = (a, nd)" by (cases x)
      have m1: "ext m1 = w" "ledger_ok m1" using l node x acquired_ledger_ok [OF led, of _ m1] by auto
      obtain h1 t1 s1 m2 where k: "link_node (\<lambda>p nd. nd\<lparr>mg_next := p\<rparr>) head tail a nd st m1 = (h1, t1, s1, m2)"
        by (cases "link_node (\<lambda>p nd. nd\<lparr>mg_next := p\<rparr>) head tail a nd st m1")
      then have m2: "ext m2 = w" "ledger_ok m2"
        using m1 by (auto simp: link_node_def Let_def ledger_ok_def split: option.splits)
      have "mg_docs n E cur (ext m2) \<noteq> None" using Suc.prems(1) nx Some m2 by (auto split: option.splits)
      from Suc.IH [OF this m2(2)] show ?thesis using nx Some r node x k by simp
    qed (cases "mongo_free_result_chain head st m1", simp add: nx Some r Let_def)
  qed (simp add: nx)
qed

lemma mg_views_nothing: "results c' = st \<Longrightarrow> last_result c' = None \<Longrightarrow> mg_views c' []"
  by (auto simp: mg_views_def intro!: exI [of _ "[]"])

lemma grown_nothing:
  "distinct (map fst st) \<Longrightarrow> acquired m [] m' \<Longrightarrow> grown mg_next mg_node_ids st m st None m'"
  unfolding grown_def by (intro conjI exI [of _ "[]"]) simp_all

lemma mg_coll_acquired:
  assumes "mg_get_collection E h (mg_db c) (mg_coll c) m = (coll, m1)" "mg_db c \<noteq> None" "mg_coll c \<noteq> None"
  shows "acquired m [addr coll] m1" "contents coll = (h, slot_bytes (mg_db c), slot_bytes (mg_coll c))"
    "ext m1 = mongoc_client_get_collection E (contents coll) (ext m)" "oom m1 = oom m"
  using assms mg_get_collection_some [of E h "the (mg_db c)" "the (mg_coll c)" m coll m1] by auto

lemma mg_find_start:
  assumes run0: "mg_runnable E c" "op_kind c = MONGO_OP_FIND"
  obtains coll m1 cur m4 where "acquired m [addr coll] m1" "acquired m1 [addr cur] m4" "oom m4 = oom m"
    "\<And>n. mg_outcome n E (mg_slot_request c) (ext m) =
      (case mg_docs n E (contents cur) (ext m4) of None \<Rightarrow> None
       | Some (ds, w2) \<Rightarrow> Some (case mongoc_cursor_error E (contents cur) w2 of None \<Rightarrow> (None, Some ds) | Some e \<Rightarrow> (Some e, Some [])))"
    "\<And>n. mongo_execute_find n E c m =
      (case find_loop n E (contents cur) (results c) None None m4 of None \<Rightarrow> None
       | Some (lasted, st, head, m5) \<Rightarrow>
           (case find_end E (contents cur) c lasted st head m5 of (status, c1, m6) \<Rightarrow>
              Some (status, c1, mg_collection_destroy E coll (mg_cursor_destroy E cur m6))))"
proof -
  let ?h = "the (mg_client c)" and ?opts = "if doc2 c \<noteq> None \<and> doc2_len c > 0 then Some (slot_bytes (doc2 c)) else None"
  obtain coll m1 where g: "mg_get_collection E ?h (mg_db c) (mg_coll c) m = (coll, m1)" by (cases "mg_get_collection E ?h (mg_db c) (mg_coll c) m")
  have some: "mg_db c \<noteq> None" "mg_coll c \<noteq> None" "holds_bson E (doc1 c) (doc1_len c)"
    and two: "doc2 c \<noteq> None \<Longrightarrow> doc2_len c > 0 \<Longrightarrow> holds_bson E (doc2 c) (doc2_len c)"
    using run0 by (simp_all add: mg_runnable_def)
  note C = mg_coll_acquired [OF g some(1,2)]
  have d2: "(if doc2 c \<noteq> None \<and> doc2_len c > 0
      then (case mg_static E (doc2 c) (doc2_len c) m1 of (bs, m3) \<Rightarrow> (Some bs, m3)) else (None, m1)) = (?opts, m1)"
    using two by (auto simp: holds_bson_static)
  obtain cur m4 where f: "mg_find_with_opts E (contents coll) (slot_bytes (doc1 c)) ?opts m1 = (cur, m4)"
    by (cases "mg_find_with_opts E (contents coll) (slot_bytes (doc1 c)) ?opts m1")
  note F = mg_find_acquired [OF f]
  show ?thesis
  proof (rule that [OF C(1)])
    show "acquired m1 [addr cur] m4" "oom m4 = oom m" using F C(4) by simp_all
  next
    fix n
    show "mg_outcome n E (mg_slot_request c) (ext m) =
      (case mg_docs n E (contents cur) (ext m4) of None \<Rightarrow> None
       | Some (ds, w2) \<Rightarrow> Some (case mongoc_cursor_error E (contents cur) w2 of None \<Rightarrow> (None, Some ds) | Some e \<Rightarrow> (Some e, Some [])))"
      using F C(2,3) run0(2) by (simp add: mg_slot_request_def Let_def)
  next
    fix n
    show "mongo_execute_find n E c m =
      (case find_loop n E (contents cur) (results c) None None m4 of None \<Rightarrow> None
       | Some (lasted, st, head, m5) \<Rightarrow>
           (case find_end E (contents cur) c lasted st head m5 of (status, c1, m6) \<Rightarrow>
              Some (status, c1, mg_collection_destroy E coll (mg_cursor_destroy E cur m6))))"
      unfolding mongo_execute_find_def g holds_bson_static [OF some(3)] Let_def prod.case d2 f ..
  qed
qed

text \<open>What the end of the drain makes of the loop's chain.\<close>

lemma find_end_ran:
  assumes kept: "mg_kept pre c m" and b: "b \<longrightarrow> oom m = []"
    and l: "find_loop n E cur (results c) None None m = Some (lasted, st, head, m1)"
    and out: "out = (case mg_docs n E cur (ext m) of None \<Rightarrow> None
       | Some (ds, w2) \<Rightarrow> Some (case mongoc_cursor_error E cur w2 of None \<Rightarrow> (None, Some ds) | Some e \<Rightarrow> (Some e, Some [])))"
  shows "mg_ran b c m (find_end E cur c lasted st head m1) out"
proof -
  have own: "owned (pre @ mg_store (results c)) m" and dist: "distinct (map fst (results c))"
    using kept by (simp_all add: store_ok_def)
  have acq0: "acquired m (mg_store []) m" by simp
  note L = find_loop_cases [OF own mg_res.building_start [OF dist] acq0 l]
  show ?thesis
  proof (cases lasted)
    case False
    with L have e: "st = results c" "head = None" "acquired m [] m1" "oom m \<noteq> []" by auto
    let ?c = "c\<lparr>results := results c, last_result := None\<rparr>"
    have "mg_ran b c m (2, ?c, m1) out"
      using grown_nothing [OF dist e(3)] e(4) b mg_views_nothing [of ?c "results c"] by (auto simp: mg_ran_def)
    with False e show ?thesis by (simp add: find_end_def)
  next
    case True
    with L obtain tl news ds where e: "mg_res.building (results c) st head tl news" "acquired m (mg_store news) m1"
      "mg_docs n E cur (ext m) = Some (ds, ext m1)" "map (mg_view \<circ> snd) news = map doc_view ds" "oom m = [] \<longrightarrow> oom m1 = []"
      by auto
    show ?thesis
    proof (cases "mongoc_cursor_error E cur (ext m1)")
      case None
      let ?c = "c\<lparr>results := st, last_result := head\<rparr>"
      have "chain_at mg_next (map_of st) head (map fst news)" using e(1) unfolding mg_res.building_def by blast
      then have "mg_views ?c ds" unfolding mg_views_def
        using e(4) mg_res.building_nodes [OF e(1)] mg_res.building_distinct [OF e(1)]
        by (intro exI [of _ "map fst news"]) simp
      moreover have "out = Some (None, Some ds)" using out e(3) None by simp
      ultimately have "mg_ran b c m (1, ?c, m1) out"
        using mg_res.grown_built [OF e(1,2)] b e(5) by (auto simp: mg_ran_def)
      with True None show ?thesis by (simp add: find_end_def)
    next
      case (Some err)
      obtain st1 m2 where fr: "mongo_free_result_chain head st m1 = (st1, m2)" by (cases "mongo_free_result_chain head st m1")
      have a: "acquired m (mg_store news @ []) m1" using e(2) by simp
      have "free_chain mg_next native_mongo_clear_result head st (free_all [] m1) = (st1, m2)"
        using fr by (simp add: mongo_free_result_chain_def)
      from mg_res.built_abort [OF e(1) own a this] have ab: "st1 = results c" "acquired m [] m2" "oom m2 = oom m1" by simp_all
      let ?c = "(mongo_set_error (Some err) c)\<lparr>results := results c, last_result := None\<rparr>"
      have "out = Some (Some err, Some [])" using out e(3) Some by simp
      moreover have "mg_same c ?c" by (rule mg_same_trans [OF set_error_simps(3) mg_same_simps(4)])
      moreover have "shows_error err ?c" using set_error_simps(4) [of err c] by (simp add: shows_error_def)
      ultimately have "mg_ran b c m (2, ?c, m2) out"
        using grown_nothing [OF dist ab(2)] ab(3) b e(5) mg_views_nothing [of ?c "results c"]
        by (auto simp: mg_ran_def)
      with True Some fr ab show ?thesis by (simp add: find_end_def)
    qed
  qed
qed

lemma mg_find_ran:
  assumes ok: "mg_kept pre c m" and run0: "mg_runnable E c" "op_kind c = MONGO_OP_FIND" and b: "b \<longrightarrow> oom m = []"
    and run: "mongo_execute_find n E c m = Some res"
  shows "mg_ran b c m res (mg_outcome n E (mg_slot_request c) (ext m))"
proof -
  obtain coll m1 cur m4 where s: "acquired m [addr coll] m1" "acquired m1 [addr cur] m4" "oom m4 = oom m"
    and out: "mg_outcome n E (mg_slot_request c) (ext m) =
      (case mg_docs n E (contents cur) (ext m4) of None \<Rightarrow> None
       | Some (ds, w2) \<Rightarrow> Some (case mongoc_cursor_error E (contents cur) w2 of None \<Rightarrow> (None, Some ds) | Some e \<Rightarrow> (Some e, Some [])))"
    and code: "mongo_execute_find n E c m =
      (case find_loop n E (contents cur) (results c) None None m4 of None \<Rightarrow> None
       | Some (lasted, st, head, m5) \<Rightarrow>
           (case find_end E (contents cur) c lasted st head m5 of (status, c1, m6) \<Rightarrow>
              Some (status, c1, mg_collection_destroy E coll (mg_cursor_destroy E cur m6))))"
    by (rule mg_find_start [OF run0, of m]) metis
  note k1 = bracket_kept [OF ok s(1)]
  from run code obtain lasted st head m5 where l: "find_loop n E (contents cur) (results c) None None m4 = Some (lasted, st, head, m5)"
    by (auto split: option.splits)
  obtain rc c' m6 where e: "find_end E (contents cur) c lasted st head m5 = (rc, c', m6)" by (cases "find_end E (contents cur) c lasted st head m5")
  have "b \<longrightarrow> oom m4 = []" using b s(3) by simp
  from find_end_ran [OF bracket_kept [OF k1 s(2)] this l out] e
  have "mg_ran b c m4 (rc, c', m6) (mg_outcome n E (mg_slot_request c) (ext m))" by simp
  note ran = bracket_ran [OF kept_ledger [OF ok] s(1) bracket_ran [OF kept_ledger [OF k1] s(2) this]]
  have "res = (rc, c', mg_collection_destroy E coll (mg_cursor_destroy E cur m6))" using run code l e by simp
  with ran show ?thesis by (simp only: mg_collection_destroy_def mg_cursor_destroy_def)
qed

section \<open>Writes and commands\<close>

lemma mg_ran_abort:
  assumes ok: "mg_kept pre c m" and acq: "acquired m [] m'" and b: "b \<longrightarrow> oom m' = []"
    and e: "mg_same c c'" "results c' = results c" "last_result c' = last_result c"
    and out: "b \<longrightarrow> (\<exists>e. out = Some (Some e, None) \<and> shows_error e c')"
  shows "mg_ran b c m (2, c', m') out"
  using grown_same [OF ok acq] acq b e out by (simp add: mg_ran_def)

lemma finish_reply_ran:
  assumes ok: "mg_kept pre c m0" and acq: "acquired m0 [addr reply] m" and b: "b \<longrightarrow> oom m = []"
    and run: "finish_reply err reply c m = (rc, c', m')"
  shows "mg_ran b c m0 (rc, c', m') (Some (one_reply (err, contents reply, w)))"
proof -
  note k1 = bracket_kept [OF ok acq]
  have r: "mg_ran b c m0 (rc, c', rfree (addr reply) m1) out" if "mg_ran b c m (rc, c', m1) out" for m1 out
    using bracket_ran [OF kept_ledger [OF ok] acq that, of "ext m1"] by simp
  show ?thesis
  proof (cases err)
    case (Some e)
    with run have c': "rc = 2" "c' = mongo_set_error err c" "m' = rfree (addr reply) m" by (simp_all add: finish_reply_def)
    have "mg_ran b c m (2, mongo_set_error err c, m) (Some (one_reply (err, contents reply, w)))"
      using b by (intro mg_ran_abort [OF k1]) (simp_all add: one_reply_def Some)
    with r c' show ?thesis by blast
  next
    case None
    obtain st c1 m1 where s: "store_single (contents reply) c m = (st, c1, m1)" by (cases "store_single (contents reply) c m")
    with run None have c': "rc = st" "c' = c1" "m' = rfree (addr reply) m1" by (simp_all add: finish_reply_def)
    note l = store_single_law [OF k1 s]
    have "mg_ran b c m (st, c1, m1) (Some (one_reply (err, contents reply, w)))"
    proof (cases "st = 1")
      case True
      with l have c1: "c1 = c\<lparr>results := results c1, last_result := last_result c1\<rparr>" and v: "mg_views c1 [contents reply]" by auto
      have "mg_same c c1" "last_error c1 = last_error c" "last_error_code c1 = last_error_code c" by (subst c1, simp)+
      with True l v b show ?thesis by (auto simp: mg_ran_def one_reply_def None)
    next
      case False
      with l b have "st = 2" "c1 = c" "acquired m [] m1" "\<not> b" by auto
      with k1 show ?thesis by (auto intro: mg_ran_abort)
    qed
    with r c' show ?thesis by blast
  qed
qed

lemma mg_command_ran:
  assumes ok: "mg_kept pre c m" and run0: "mg_runnable E c" "op_kind c = MONGO_OP_COMMAND" and b: "b \<longrightarrow> oom m = []"
  shows "mg_ran b c m (mongo_execute_command E c m) (mg_outcome n E (mg_slot_request c) (ext m))"
proof -
  from run0 obtain d where db: "mg_db c = Some d" and h: "holds_bson E (doc1 c) (doc1_len c)" by (auto simp: mg_runnable_def)
  then have d1: "mg_static E (doc1 c) (doc1_len c) m = (slot_bytes (doc1 c), m)"
    by (simp add: holds_bson_static)
  obtain err body w where r: "mongoc_client_command_simple E (the (mg_client c)) (contents d) (slot_bytes (doc1 c)) (ext m) = (err, body, w)"
    by (cases "mongoc_client_command_simple E (the (mg_client c)) (contents d) (slot_bytes (doc1 c)) (ext m)")
  obtain err' reply m1 where g: "mg_reply (err, body, w) m = (err', reply, m1)" by (cases "mg_reply (err, body, w) m")
  note R = mg_reply_acquired [OF g]
  obtain rc c' m2 where f: "finish_reply err reply c m1 = (rc, c', m2)" by (cases "finish_reply err reply c m1")
  have "b \<longrightarrow> oom m1 = []" using R b by simp
  from finish_reply_ran [OF ok conjunct1 [OF R] this f, of w] d1 r g f R run0 db show ?thesis
    by (simp add: mongo_execute_command_def mg_slot_request_def Let_def)
qed

lemma mg_write_ran:
  assumes ok: "mg_kept pre c m" and run0: "mg_runnable E c" and b: "b \<longrightarrow> oom m = []"
    and kind: "op_kind c \<noteq> MONGO_OP_FIND" "op_kind c \<noteq> MONGO_OP_COMMAND" "op_kind c \<noteq> MONGO_OP_INSERT_MANY"
  shows "mg_ran b c m (mongo_execute_write E c m) (mg_outcome n E (mg_slot_request c) (ext m))"
proof -
  let ?h = "the (mg_client c)"
  obtain coll m1 where g: "mg_get_collection E ?h (mg_db c) (mg_coll c) m = (coll, m1)" by (cases "mg_get_collection E ?h (mg_db c) (mg_coll c) m")
  have some: "mg_db c \<noteq> None" "mg_coll c \<noteq> None" "holds_bson E (doc1 c) (doc1_len c)"
    and two: "op_kind c = MONGO_OP_UPDATE_ONE \<Longrightarrow> holds_bson E (doc2 c) (doc2_len c)"
    using run0 kind by (simp_all add: mg_runnable_def)
  note C = mg_coll_acquired [OF g some(1,2)]
  have d1: "mg_static E (doc1 c) (doc1_len c) m1 = (slot_bytes (doc1 c), m1)"
    using some(3) by (simp add: holds_bson_static)
  have d2: "op_kind c = MONGO_OP_UPDATE_ONE \<Longrightarrow> mg_static E (doc2 c) (doc2_len c) m1 = (slot_bytes (doc2 c), m1)"
    using two by (simp add: holds_bson_static)
  let ?call = "if op_kind c = MONGO_OP_INSERT_ONE then mongoc_collection_insert_one E (contents coll) (slot_bytes (doc1 c)) (ext m1)
    else if op_kind c = MONGO_OP_UPDATE_ONE then mongoc_collection_update_one E (contents coll) (slot_bytes (doc1 c)) (slot_bytes (doc2 c)) (ext m1)
    else mongoc_collection_delete_one E (contents coll) (slot_bytes (doc1 c)) (ext m1)"
  obtain err body w where r: "?call = (err, body, w)" by (cases ?call)
  obtain err' reply m3 where y: "mg_reply (err, body, w) m1 = (err', reply, m3)" by (cases "mg_reply (err, body, w) m1")
  note R = mg_reply_acquired [OF y]
  obtain rc c' m4 where f: "finish_reply err reply c m3 = (rc, c', m4)" by (cases "finish_reply err reply c m3")
  have bo: "b \<longrightarrow> oom m3 = []" using R C(4) b by simp
  have ran: "mongo_execute_write E c m = (rc, c', mg_collection_destroy E coll m4)"
    using g d1 d2 r y f R unfolding mongo_execute_write_def by (auto split: if_splits)
  have out: "mg_outcome n E (mg_slot_request c) (ext m) = Some (one_reply (err, contents reply, w))"
    using C(2,3) r R kind by (auto simp: mg_slot_request_def Let_def split: if_splits)
  from finish_reply_ran [OF bracket_kept [OF ok C(1)] conjunct1 [OF R] bo f, of w]
  have "mg_ran b c m1 (rc, c', m4) (Some (one_reply (err, contents reply, w)))" .
  from bracket_ran [OF kept_ledger [OF ok] C(1) this] show ?thesis
    unfolding ran out mg_collection_destroy_def .
qed

section \<open>insert_many\<close>

text \<open>The malformed blob's error, and the reply that is kept whether the insertion fails or not.\<close>

lemma insert_reply_ran:
  assumes ok: "mg_kept pre c m0" and acq: "acquired m0 [addr reply] m" and b: "b \<longrightarrow> oom m = []"
    and c1: "c1 = (case err of None \<Rightarrow> c | Some e \<Rightarrow> mongo_set_error err c)"
    and s: "store_single (contents reply) c1 m = (stored, c2, m1)"
  shows "mg_ran b c m0 (if stored = 2 then 2 else case err of None \<Rightarrow> 1 | Some e \<Rightarrow> 2, c2, rfree (addr reply) m1)
    (Some (err, Some [contents reply]))"
proof -
  note k1 = bracket_kept [OF ok acq]
  have same: "results c1 = results c" "last_result c1 = last_result c" "mg_same c c1" "err = None \<longrightarrow> c1 = c"
    "\<forall>e. err = Some e \<longrightarrow> shows_error e c1"
    unfolding c1 by (simp_all split: option.split)
  from k1 same have k2: "mg_kept (addr reply # pre) c1 m" by simp
  note l = store_single_law [OF k2 s]
  have "mg_ran b c m (if stored = 2 then 2 else case err of None \<Rightarrow> 1 | Some e \<Rightarrow> 2, c2, m1) (Some (err, Some [contents reply]))"
  proof (cases "stored = 1")
    case True
    with l have c2: "c2 = c1\<lparr>results := results c2, last_result := last_result c2\<rparr>" and v: "mg_views c2 [contents reply]" by auto
    have e: "last_error c2 = last_error c1" "last_error_code c2 = last_error_code c1" by (subst c2, simp)+
    have "mg_same c1 c2" by (subst c2, simp)
    then have "mg_same c c2" by (rule mg_same_trans [OF same(3)])
    with True l v b same e show ?thesis by (cases err) (auto simp: mg_ran_def shows_error_def)
  next
    case False
    with l b have f: "stored = 2" "c2 = c1" "acquired m [] m1" "\<not> b" by auto
    with k1 same show ?thesis by (auto intro!: mg_ran_abort)
  qed
  from bracket_ran [OF kept_ledger [OF ok] acq this, of "ext m1"] show ?thesis by simp
qed

lemma insert_docs_ran:
  assumes ok: "mg_kept pre c m" and run0: "mg_runnable E c" "op_kind c = MONGO_OP_INSERT_MANY" and b: "b \<longrightarrow> oom m = []"
    and ns: "ns = (the (mg_client c), slot_bytes (mg_db c), slot_bytes (mg_coll c))"
    and out: "out = mg_outcome n E (mg_slot_request c) w0" "ext m = mongoc_client_get_collection E ns w0"
  shows "mg_ran b c m (insert_docs E ns c m) out"
proof -
  let ?ok = "bson_valid E" and ?k = "nat (doc_count c)"
  from run0 obtain d where some: "doc1 c = Some d" "doc1_len c = int (length (contents d))"
    and fit: "slices_fit ?ok ?k 0 (drop (nat 0) (contents d))"
    by (auto simp: mg_runnable_def)
  from slice_docs_split [OF fit, of "[]" m] obtain v off xs where
    sl: "slice_docs ?k E (contents d) (int (length (contents d))) 0 [] m = (v, off, xs, m)"
    and sp: "bson_split ?ok ?k (contents d) = (if v \<and> off = int (length (contents d)) then Some xs else None)"
    by auto
  have req: "mg_slot_request c = Insert_many ns (doc_count c) (contents d) (bulk_ordered c \<noteq> 0)"
    using run0(2) some(1) by (simp add: mg_slot_request_def Let_def ns)
  show ?thesis
  proof (cases "v \<and> off = doc1_len c")
    case bad: False
    let ?c = "c\<lparr>last_error := snprintf MONGO_ERR_BUF ''insert_many: malformed BSON blob (doc_count/length mismatch)'', last_error_code := 0\<rparr>"
    have "out = Some (Some malformed_blob, None)" using bad sp some(2) by (auto simp: out req)
    moreover have "shows_error malformed_blob ?c" by (simp add: shows_error_def malformed_blob_def)
    ultimately have "mg_ran b c m (2, ?c, m) out" using b by (intro mg_ran_abort [OF ok]) auto
    then show ?thesis using bad sl some by (auto simp: insert_docs_def Let_def)
  next
    case good: True
    obtain err body w where r: "mongoc_collection_insert_many E ns xs (bulk_ordered c \<noteq> 0) (ext m) = (err, body, w)"
      by (cases "mongoc_collection_insert_many E ns xs (bulk_ordered c \<noteq> 0) (ext m)")
    obtain err' reply m2 where y: "mg_reply (err, body, w) m = (err', reply, m2)" by (cases "mg_reply (err, body, w) m")
    note R = mg_reply_acquired [OF y]
    let ?c1 = "case err of None \<Rightarrow> c | Some e \<Rightarrow> mongo_set_error err c"
    obtain stored c2 m3 where s: "store_single (contents reply) ?c1 m2 = (stored, c2, m3)" by (cases "store_single (contents reply) ?c1 m2")
    have o: "out = Some (err, Some [contents reply])" using good sp some(2) r out(2) R by (simp add: out(1) req)
    have "b \<longrightarrow> oom m2 = []" using R b by simp
    note ran = insert_reply_ran [OF ok conjunct1 [OF R] this refl s]
    have "insert_docs E ns c m = (if stored = 2 then 2 else case err of None \<Rightarrow> 1 | Some e \<Rightarrow> 2, c2, rfree (addr reply) m3)"
      using good sl some r y R s by (cases err) (auto simp: insert_docs_def Let_def)
    with ran show ?thesis by (simp only: o)
  qed
qed

lemma mg_many_destroy:
  "mg_collection_destroy E coll (cfree ptrs (cfree docs k)) =
     free_all (opt_ids docs @ opt_ids ptrs @ [addr coll]) (k\<lparr>ext := mongoc_collection_destroy E (contents coll) (ext k)\<rparr>)"
  by (simp add: mg_collection_destroy_def cfree_free_all free_all_append free_all_frame free_all_ext_update rfree_ext_update)

lemma mg_insert_many_ran:
  assumes ok: "mg_kept pre c m" and run0: "mg_runnable E c" "op_kind c = MONGO_OP_INSERT_MANY" and b: "b \<longrightarrow> oom m = []"
  shows "mg_ran b c m (mongo_execute_insert_many E c m) (mg_outcome n E (mg_slot_request c) (ext m))"
proof -
  let ?h = "the (mg_client c)" and ?out = "mg_outcome n E (mg_slot_request c) (ext m)"
  obtain coll m1 where g: "mg_get_collection E ?h (mg_db c) (mg_coll c) m = (coll, m1)" by (cases "mg_get_collection E ?h (mg_db c) (mg_coll c) m")
  from run0 have "mg_db c \<noteq> None" "mg_coll c \<noteq> None" by (auto simp: mg_runnable_def)
  note C = mg_coll_acquired [OF g this]
  obtain docs m2 where h1: "halloc () m1 = (docs, m2)" by (cases "halloc () m1")
  obtain ptrs m3 where h2: "halloc () m2 = (ptrs, m3)" by (cases "halloc () m2")
  let ?hs = "[addr coll] @ opt_ids docs @ opt_ids ptrs" and ?zs = "opt_ids docs @ opt_ids ptrs @ [addr coll]"
  have a: "acquired m1 (opt_ids docs) m2" "acquired m2 (opt_ids ptrs) m3"
    using h1 h2 by (cases docs; cases ptrs; auto dest: halloc_None halloc_Some)+
  have acq: "acquired m ?hs m3" using acquired_trans [OF acquired_trans [OF C(1) a(1)] a(2)] by simp
  have zs: "set ?zs = set ?hs" "distinct ?zs" using acq by (auto simp: acquired_def)
  have plenty: "b \<longrightarrow> oom m3 = [] \<and> docs \<noteq> None \<and> ptrs \<noteq> None"
    using b C(4) halloc_plenty [of m1 "()"] halloc_plenty [of m2 "()"] h1 h2 by auto
  have x3: "ext m3 = ext m1" using halloc_frame [OF h1] halloc_frame [OF h2] by simp
  have k3: "mg_kept (?hs @ pre) c m3" by (rule store_ok_acquired [OF ok acq]) simp
  let ?body = "if docs = None \<or> ptrs = None then (MG_PORT_ABORTED, mongo_set_error None c, m3) else insert_docs E (contents coll) c m3"
  obtain rc c1 m4 where body: "?body = (rc, c1, m4)" by (cases ?body)
  have "mg_ran b c m3 ?body ?out"
  proof (cases "docs = None \<or> ptrs = None")
    case True
    with plenty show ?thesis by (auto intro!: mg_ran_abort [OF k3])
  next
    case False
    have "mg_ran b c m3 (insert_docs E (contents coll) c m3) ?out"
      using plenty x3 C(3) by (intro insert_docs_ran [OF k3 run0 _ C(2) refl]) simp_all
    with False show ?thesis by auto
  qed
  then have "mg_ran b c m3 (rc, c1, m4) ?out" unfolding body .
  from bracket_all_ran [OF kept_ledger [OF ok] acq zs this] show ?thesis
    using g h1 h2 body by (simp add: mongo_execute_insert_many_def mg_many_destroy)
qed

end
