(* ===== verification/Mg_Machine.thy ===== *)
theory Mg_Machine
  imports Mg_Worker_Laws
begin

text \<open>
  The MongoDB driver against the shared contract \<open>driver_laws\<close>: one request of the worker,
  stopping, polling, and the clients' calls.
\<close>

section \<open>The worker's request\<close>

lemma mg_clear_error_simps [simp]:
  "results (mongo_clear_error c) = results c" "last_result (mongo_clear_error c) = last_result c"
  "mg_same c (mongo_clear_error c)" "mg_runnable E (mongo_clear_error c) = mg_runnable E c"
  "mg_slot_request (mongo_clear_error c) = mg_slot_request c" "op_kind (mongo_clear_error c) = op_kind c"
  "last_error (mongo_clear_error c) = []" "last_error_code (mongo_clear_error c) = 0"
  by (simp_all add: mongo_clear_error_def mg_runnable_def mg_slot_request_def Let_def)

lemma mg_execute_ran:
  assumes own: "mg_own E c m" and full: "slot_filled c" and b: "b \<longrightarrow> oom m = []"
    and run: "mongo_worker_execute n E c m = Some res"
  shows "mg_ran b (mongo_clear_error c) m res (mg_outcome n E (mg_slot_request c) (ext m))"
proof -
  let ?c = "mongo_clear_error c"
  note D = mg_ownD [OF own]
  have rn: "mg_runnable E ?c" using D(1) full by (simp add: mg_slot_ok_def)
  have k: "mg_kept (mg_handles c @ mg_payload c) ?c m" using D(5) by simp
  from run consider
    (1) "op_kind c = MONGO_OP_FIND" "mongo_execute_find n E ?c m = Some res"
    | (2) "op_kind c = MONGO_OP_COMMAND" "mongo_execute_command E ?c m = res"
    | (3) "op_kind c = MONGO_OP_INSERT_MANY" "mongo_execute_insert_many E ?c m = res"
    | (4) "op_kind c \<noteq> MONGO_OP_FIND" "op_kind c \<noteq> MONGO_OP_COMMAND" "op_kind c \<noteq> MONGO_OP_INSERT_MANY"
        "mongo_execute_write E ?c m = res"
    by (auto simp: mongo_worker_execute_def Let_def split: if_splits)
  then show ?thesis
  proof cases
    case 1
    with mg_find_ran [OF k rn _ b 1(2)] show ?thesis by simp
  next
    case 2
    with mg_command_ran [OF k rn _ b, of n] show ?thesis by simp
  next
    case 3
    with mg_insert_many_ran [OF k rn _ b, of n] show ?thesis by simp
  next
    case 4
    with mg_write_ran [OF k rn b, of n] show ?thesis by simp
  qed
qed

lemma mg_execute_law:
  assumes own: "mg_own E c m" and full: "slot_filled c" and run: "mongo_worker_execute n E c m = Some (rc, c', m')"
  shows "mg_own E c' m' \<and> mg_same c c' \<and> (rc = 1 \<or> rc = 2)"
proof -
  note D = mg_ownD [OF own]
  have "False \<longrightarrow> oom m = []" by simp
  from mg_execute_ran [OF own full this run] have s: "mg_same (mongo_clear_error c) c'" and rc: "rc = 1 \<or> rc = 2"
    and g: "grown mg_next mg_node_ids (results c) m (results c') (last_result c') m'"
    unfolding mg_ran_def prod.case mg_clear_error_simps by blast+
  have same: "mg_same c c'" by (rule mg_same_trans [OF mg_clear_error_simps(3) s])
  have "held m' = {}" using g D(3) by (auto simp: grown_def acquired_def)
  from mg_own_same [OF same D(1) this grown_store_ok [OF D(5) g]] same rc show ?thesis by simp
qed

lemma mg_execute_returns:
  assumes own: "mg_own E c m" and full: "slot_filled c"
    and ends: "mg_outcome n E (mg_slot_request c) (ext m) \<noteq> None"
  shows "mongo_worker_execute n E c m \<noteq> None"
proof (cases "op_kind c = MONGO_OP_FIND")
  case False
  then show ?thesis by (simp add: mongo_worker_execute_def Let_def del: not_None_eq)
next
  case True
  let ?c = "mongo_clear_error c"
  note D = mg_ownD [OF own]
  have rn: "mg_runnable E c" using D(1) full by (simp add: mg_slot_ok_def)
  have rq: "mg_runnable E ?c" "op_kind ?c = MONGO_OP_FIND" "mg_slot_request ?c = mg_slot_request c" "results ?c = results c"
    using rn True by (simp_all add: mongo_clear_error_def mg_runnable_def mg_slot_request_def)
  obtain coll m1 cur m4 where s: "acquired m [addr coll] m1" "acquired m1 [addr cur] m4"
    and out: "mg_outcome n E (mg_slot_request ?c) (ext m) =
      (case mg_docs n E (contents cur) (ext m4) of None \<Rightarrow> None
       | Some (ds, w2) \<Rightarrow> Some (case mongoc_cursor_error E (contents cur) w2 of None \<Rightarrow> (None, Some ds) | Some e \<Rightarrow> (Some e, Some [])))"
    and code: "mongo_execute_find n E ?c m =
      (case find_loop n E (contents cur) (results ?c) None None m4 of None \<Rightarrow> None
       | Some (lasted, st, head, m5) \<Rightarrow>
           (case find_end E (contents cur) ?c lasted st head m5 of (status, c1, m6) \<Rightarrow>
              Some (status, c1, mg_collection_destroy E coll (mg_cursor_destroy E cur m6))))"
    by (rule mg_find_start [OF rq(1,2), of m]) metis
  have led: "ledger_ok m4" by (rule acquired_ledger_ok [OF acquired_ledger_ok [OF D(2) s(1)] s(2)])
  have "mg_docs n E (contents cur) (ext m4) \<noteq> None"
    using ends out unfolding rq(3) by (simp split: option.splits)
  from find_loop_returns [OF this led] obtain x where "find_loop n E (contents cur) (results ?c) None None m4 = Some x" by blast
  then have "mongo_execute_find n E ?c m \<noteq> None" unfolding code by (cases x) (simp split: prod.split)
  with True show ?thesis by (simp add: mongo_worker_execute_def)
qed

section \<open>Stops and polls\<close>

definition mongo_signal_stop :: "mongo_conn \<Rightarrow> 'w mach \<Rightarrow> 'w mach" where
  "mongo_signal_stop c m =
     mutex_unlock (slot_mutex c) (cond_signal (slot_cond c) (mutex_lock (slot_mutex c) m))"

definition mg_stop :: "mongo_conn \<Rightarrow> 'w mach \<Rightarrow> mongo_conn \<times> 'w mach" where
  "mg_stop c m = (let c' = c\<lparr>shutdown_requested := True\<rparr> in (c', mongo_signal_stop c' m))"

lemma mg_stop_released: "held m = {} \<Longrightarrow> released m {} (mongo_signal_stop c m)"
  by (simp add: mongo_signal_stop_def lock_signal_unlock)

lemma mg_stop_slot: "mg_slot_ok E (c\<lparr>shutdown_requested := True\<rparr>) = mg_slot_ok E c"
  by (simp add: mg_slot_ok_def mg_runnable_def mg_payload_def)

lemma mg_stop_own: "mg_own E c m \<Longrightarrow> mg_own E (c\<lparr>shutdown_requested := True\<rparr>) m"
  unfolding mg_own_def mg_stop_slot by (simp add: mg_payload_def mg_handles_def)

lemma mg_stop_law:
  assumes own: "mg_own E c m" and run: "mg_stop c m = (c', m')"
  shows "mg_own E c' m' \<and> slot_filled c' = slot_filled c \<and> port_id c' = port_id c \<and> shutdown_requested c'"
proof -
  have c': "c' = c\<lparr>shutdown_requested := True\<rparr>" "m' = mongo_signal_stop c' m"
    using run by (auto simp: mg_stop_def Let_def)
  from mg_own_released [OF mg_stop_own [OF own] mg_stop_released] mg_ownD(3) [OF own] c' show ?thesis by simp
qed

definition mg_client_step :: "mongo_conn \<Rightarrow> 'w mach \<Rightarrow> (mongo_conn \<times> 'w mach) list" where
  "mg_client_step c m =
     (case native_mongo_poll_result (Some c) m of
        (Some (a, nd), Some c', m') \<Rightarrow> [(c', m'), (c', native_mongo_clear_result a nd m')]
      | (None, Some c', m') \<Rightarrow> [(c', m')]
      | (_, None, m') \<Rightarrow> [])"

lemma mg_poll_own:
  assumes own: "mg_own E c m" and poll: "native_mongo_poll_result (Some c) m = (r, Some c', m')"
  shows "mg_same c c' \<and> mg_own E c' m' \<and> m' = m \<and> (case r of None \<Rightarrow> True
    | Some (a, nd) \<Rightarrow> mg_own E c' (native_mongo_clear_result a nd m'))"
proof -
  note D = mg_ownD [OF own]
  let ?pre = "mg_handles c @ mg_payload c"
  obtain hd st m1 where p: "poll_head mg_next (last_result c) (results c) m = (r, hd, st, m1)" and
    c': "c' = c\<lparr>results := st, last_result := hd\<rparr>" "m' = m1"
    using poll by (auto simp: native_mongo_poll_result_def split: prod.splits)
  from mg_res.store_poll [OF D(5) p] have q: "m1 = m" "store_ok mg_next mg_node_ids ?pre st hd m"
    "case r of None \<Rightarrow> st = results c | Some (a, nd) \<Rightarrow> owned (mg_node_ids a nd @ ?pre @ mg_store st) m"
    by blast+
  have same: "mg_same c c'" by (simp add: c')
  have "mg_own E c' m" using q(2) c' by (intro mg_own_same [OF same D(1,3)]) simp
  moreover have "mg_own E c' (native_mongo_clear_result a nd m)" if r: "r = Some (a, nd)" for a nd
  proof -
    from q(3) r have o: "owned (mg_node_ids a nd @ ?pre @ mg_store st) m" by simp
    have f: "native_mongo_clear_result a nd m = free_all (mg_node_ids a nd) m" by (rule mg_res.clear_law [OF o])
    from q(2) owned_free [OF o] have "store_ok mg_next mg_node_ids ?pre st hd (free_all (mg_node_ids a nd) m)"
      by (simp add: store_ok_def)
    then show ?thesis unfolding f using c' D(3) by (intro mg_own_same [OF same D(1)]) (simp_all add: ledger)
  qed
  ultimately show ?thesis using same q(1) c'(2) by (auto split: option.split)
qed

lemma mg_client_law:
  assumes own: "mg_own E c m" and step: "(c', m') \<in> set (mg_client_step c m)"
  shows "mg_own E c' m' \<and> mg_same c c'"
proof -
  obtain r d m1 where p: "native_mongo_poll_result (Some c) m = (r, d, m1)" by (cases "native_mongo_poll_result (Some c) m")
  then obtain d' where d: "d = Some d'" by (auto simp: native_mongo_poll_result_def split: prod.splits)
  from mg_poll_own [OF own p [unfolded d]] step p d show ?thesis
    by (auto simp: mg_client_step_def split: option.splits)
qed

section \<open>The driver\<close>

text \<open>MongoDB has no cancellation.\<close>

definition mg_driver :: "('w, 'u) mg_env \<Rightarrow> (mg_call, mongo_conn, 'w) driver" where
  "mg_driver E =
     \<lparr>d_filled = slot_filled, d_port = port_id, d_stopping = shutdown_requested,
      d_submit = mg_submit, d_stop = mg_stop, d_cancel = (\<lambda>c m. m),
      d_client = mg_client_step, d_execute = (\<lambda>n. mongo_worker_execute n E), d_clear = mongo_worker_clear\<rparr>"

lemma mg_driver_simps [simp]:
  "d_filled (mg_driver E) = slot_filled" "d_port (mg_driver E) = port_id"
  "d_stopping (mg_driver E) = shutdown_requested" "d_submit (mg_driver E) = mg_submit"
  "d_stop (mg_driver E) = mg_stop" "d_cancel (mg_driver E) c m = m"
  "d_client (mg_driver E) = mg_client_step" "d_execute (mg_driver E) n = mongo_worker_execute n E"
  "d_clear (mg_driver E) = mongo_worker_clear"
  by (simp_all add: mg_driver_def)

interpretation mg_drv: driver_laws "mg_driver E" "mg_call_ok E" "mg_own E"
  for E :: "('w, 'u) mg_env"
proof unfold_locales
  fix c c' :: mongo_conn and m m' :: "'w mach" and call port t k n st
  assume own: "mg_own E c m"
  have view: "mg_same c c' \<Longrightarrow> same_view (mg_driver E) c c'"
    using mg_same_fields [of c c'] by (simp add: same_view_def)
  show "mg_own E c' m' \<and> (k = 0 \<and> same_view (mg_driver E) c c' \<or>
      k = 1 \<and> \<not> d_filled (mg_driver E) c \<and> \<not> d_stopping (mg_driver E) c \<and> d_filled (mg_driver E) c' \<and>
      d_port (mg_driver E) c' = port \<and> \<not> d_stopping (mg_driver E) c')"
    if ok: "mg_call_ok E call" and run: "d_submit (mg_driver E) call port t c m = (k, Some c', m')"
  proof -
    have us: "mg_usable E (mg_args_of call)" using ok by (simp add: mg_call_ok_def)
    from mg_submit_cases [OF own ok, of port t] run consider
      "mg_refused c m (k, Some c', m')" | "mg_accepted c m (mg_args_of call) port t (k, Some c', m')" by auto
    then show ?thesis
    proof cases
      case 1
      with mg_own_acquired [OF own] show ?thesis by (auto simp: mg_refused_def)
    next
      case 2
      from mg_accepted_own [OF own us 2] show ?thesis by simp
    qed
  qed
  show "mg_own E c' m' \<and> d_filled (mg_driver E) c' = d_filled (mg_driver E) c \<and>
      d_port (mg_driver E) c' = d_port (mg_driver E) c \<and> d_stopping (mg_driver E) c'"
    if "d_stop (mg_driver E) c m = (c', m')"
    using mg_stop_law [OF own, of c' m'] that by simp
  show "mg_own E c (d_cancel (mg_driver E) c m)" using own by simp
  show "mg_own E c' m' \<and> same_view (mg_driver E) c c'"
    if "(c', m') \<in> set (d_client (mg_driver E) c m)"
    using mg_client_law [OF own, of c' m'] that view by simp
  show "mg_own E c' m' \<and> same_view (mg_driver E) c c' \<and> (st = 1 \<or> st = 2)"
    if "d_filled (mg_driver E) c" "d_execute (mg_driver E) n c m = Some (st, c', m')"
    using mg_execute_law [OF own, of n st c' m'] view that by simp
  show "mg_own E c' m' \<and> \<not> d_filled (mg_driver E) c' \<and> d_stopping (mg_driver E) c' = d_stopping (mg_driver E) c"
    if "d_clear (mg_driver E) c m = (c', m')"
    using mg_clear_law [OF own, of c' m'] that by simp
qed

section \<open>Polling drains the chain in order\<close>

fun mg_polls :: "nat \<Rightarrow> mongo_conn \<Rightarrow> 'w mach \<Rightarrow> (string \<times> int) option list" where
  "mg_polls 0 c m = []"
| "mg_polls (Suc k) c m =
     (case native_mongo_poll_result (Some c) m of
        (r, Some c', m') \<Rightarrow> map_option (\<lambda>(a, nd). mg_view nd) r # mg_polls k c' m'
      | (r, None, m') \<Rightarrow> [])"

lemma mg_polls_all:
  "mg_polls k c m = map (map_option (\<lambda>(a, nd). mg_view nd)) (mg_res.poll_all k (last_result c) (results c) m)"
proof (induction k arbitrary: c m)
  case 0
  then show ?case by simp
next
  case (Suc k)
  obtain r hd st m1 where p: "poll_head mg_next (last_result c) (results c) m = (r, hd, st, m1)"
    by (cases "poll_head mg_next (last_result c) (results c) m") auto
  with Suc.IH [of "c\<lparr>results := st, last_result := hd\<rparr>" m1] show ?case
    by (simp add: native_mongo_poll_result_def)
qed

lemma mg_polls_views:
  assumes "mg_own E c m" "mg_views c ds"
  shows "mg_polls (length ds) c m = map (Some \<circ> doc_view) ds"
proof -
  from assms(2) obtain as where as: "chain_at mg_next (map_of (results c)) (last_result c) as" "distinct as"
    "map (mg_view \<circ> snd) (chain_nodes (results c) as) = map doc_view ds"
    by (auto simp: mg_views_def)
  have "length ds = length as" using arg_cong [OF as(3), of length] by (simp add: chain_nodes_def)
  then have "mg_polls (length ds) c m = map (Some \<circ> (mg_view \<circ> snd)) (chain_nodes (results c) as)"
    using mg_res.poll_all_chain [OF as(1,2) mg_ownD(6) [OF assms(1)], of m]
    by (simp add: mg_polls_all case_prod_beta' comp_def)
  then show ?thesis using as(3) by (metis map_map)
qed

end
