(* ===== verification/Mg_Pool.thy ===== *)
theory Mg_Pool
  imports Mg_Machine Pool_Life Lease_Contract
begin

text \<open>
  The MongoDB pool of mongo_pool.c: creation with its rollback, destruction, acquire and
  release. Every connection holds a client popped from the library's own client pool. A
  connection handle is its index in \<open>conns\<close>; \<open>pthread_join\<close> is the end of the worker's
  thread, \<open>mongo_worker_end\<close> with enough fuel for the request it still serves.
\<close>

record mongo_pool =
  pool_block :: nat
  client_pool :: nat
  uri :: nat
  max_size :: int
  default_acquire_timeout_ms :: int
  conns_block :: nat
  conns :: "mongo_conn list"
  mutex :: nat
  free_cond :: nat
  shutting_down :: bool

definition mongo_deadline_from_ms :: "timespec \<Rightarrow> int \<Rightarrow> timespec" where
  "mongo_deadline_from_ms now delta_ms =
     (let s = tv_sec now + delta_ms sdiv 1000;
          ns = tv_nsec now + (delta_ms smod 1000) * 1000000
      in if ns \<ge> 1000000000 then \<lparr>tv_sec = s + 1, tv_nsec = ns - 1000000000\<rparr>
         else \<lparr>tv_sec = s, tv_nsec = ns\<rparr>)"

lemma mongo_deadline_from_ms_eq: "mongo_deadline_from_ms = deadline_from_ms"
  by (intro ext) (simp add: mongo_deadline_from_ms_def deadline_from_ms_def Let_def)

text \<open>\<open>init_mongoc_library\<close>, once per process: \<open>once\<close> tells whether it has run.\<close>

definition init_mongoc_library :: "('w, 'u) mg_env \<Rightarrow> bool \<Rightarrow> 'w mach \<Rightarrow> 'w mach" where
  "init_mongoc_library E once m = (if once then m else m\<lparr>ext := mongoc_init E (ext m)\<rparr>)"

text \<open>The handles the library opens and closes for a pool, entered in the ledger.\<close>

definition mg_opened :: "bool \<times> 'w \<Rightarrow> 'w mach \<Rightarrow> nat option \<times> 'w mach" where
  "mg_opened r m = (case r of (got, w) \<Rightarrow>
     if got then (case rnew () (m\<lparr>ext := w\<rparr>) of (c, m1) \<Rightarrow> (Some (addr c), m1)) else (None, m\<lparr>ext := w\<rparr>))"

definition mg_push :: "('w, 'u) mg_env \<Rightarrow> nat \<Rightarrow> nat \<Rightarrow> 'w mach \<Rightarrow> 'w mach" where
  "mg_push E cp h m = rfree h (m\<lparr>ext := mongoc_client_pool_push E cp h (ext m)\<rparr>)"

definition mg_uri_destroy :: "('w, 'u) mg_env \<Rightarrow> nat \<Rightarrow> 'w mach \<Rightarrow> 'w mach" where
  "mg_uri_destroy E u m = rfree u (m\<lparr>ext := mongoc_uri_destroy E u (ext m)\<rparr>)"

definition mg_pool_close :: "('w, 'u) mg_env \<Rightarrow> nat \<Rightarrow> 'w mach \<Rightarrow> 'w mach" where
  "mg_pool_close E cp m = rfree cp (m\<lparr>ext := mongoc_client_pool_destroy E cp (ext m)\<rparr>)"

section \<open>Connections come up and go down\<close>

text \<open>A \<open>calloc\<close>ed \<open>mongo_conn_t\<close>.\<close>

definition zero_mongo_conn :: mongo_conn where
  "zero_mongo_conn = \<lparr>mg_client = None, mg_client_pool = 0, mg_index = 0, in_use = False, worker = 0, slot_mutex = 0,
     slot_cond = 0, slot_filled = False, op_kind = 0, mg_db = None, mg_coll = None, doc1 = None, doc1_len = 0,
     doc2 = None, doc2_len = 0, doc_count = 0, bulk_ordered = 0, port_id = 0, timeout_ms = 0, results = [],
     last_result = None, last_error = [], last_error_code = 0, shutdown_requested = False\<rparr>"

definition mongo_init_conn ::
  "('w, 'u) mg_env \<Rightarrow> mongo_conn \<Rightarrow> nat \<Rightarrow> int \<Rightarrow> 'w mach \<Rightarrow> int \<times> mongo_conn \<times> 'w mach" where
  "mongo_init_conn E conn cp i m =
     (let c = conn\<lparr>mg_client_pool := cp, mg_index := i, in_use := False, slot_filled := False, op_kind := 0, mg_db := None,
                mg_coll := None, doc1 := None, doc1_len := 0, doc2 := None, doc2_len := 0, doc_count := 0,
                bulk_ordered := 0, port_id := 0, timeout_ms := 0, results := [], last_result := None, last_error := [],
                last_error_code := 0, shutdown_requested := False\<rparr>
      in case mg_opened (mongoc_client_pool_pop E cp (ext m)) m of
           (None, m1) \<Rightarrow> (-1, c\<lparr>mg_client := None\<rparr>, m1)
         | (Some h, m1) \<Rightarrow>
             (case init_sync (mg_push E cp h) m1 of
                (None, m2) \<Rightarrow> (-1, c\<lparr>mg_client := None\<rparr>, m2)
              | (Some (mu, cv, th), m2) \<Rightarrow>
                  (0, c\<lparr>mg_client := Some h, slot_mutex := mu, slot_cond := cv, worker := th\<rparr>, m2)))"

definition mongo_join :: "nat \<Rightarrow> ('w, 'u) mg_env \<Rightarrow> mongo_conn \<Rightarrow> 'w mach \<Rightarrow> mongo_conn \<times> 'w mach" where
  "mongo_join fuel E conn m =
     (let (c, m1) = the (mongo_worker_end fuel E conn m) in (c, rfree (worker conn) m1))"

definition mongo_teardown_conn ::
  "nat \<Rightarrow> ('w, 'u) mg_env \<Rightarrow> mongo_conn \<Rightarrow> 'w mach \<Rightarrow> mongo_conn \<times> 'w mach" where
  "mongo_teardown_conn fuel E conn m =
     (case mg_client conn of
        None \<Rightarrow> (conn, m)
      | Some h \<Rightarrow>
          (let (c1, m1) = mongo_join fuel E conn m;
               (c2, m2) = mongo_pool_free_slot_payload c1 m1;
               (st, m3) = mongo_free_result_chain (last_result c2) (results c2) m2
           in (c2\<lparr>results := st, last_result := None, mg_client := None\<rparr>,
               mg_push E (mg_client_pool conn) h (rfree (slot_mutex conn) (rfree (slot_cond conn) m3)))))"

text \<open>Rollback of one connection: the flag, the signal and the tear-down.\<close>

definition mongo_undo_conn :: "nat \<Rightarrow> ('w, 'u) mg_env \<Rightarrow> mongo_conn \<Rightarrow> 'w mach \<Rightarrow> 'w mach" where
  "mongo_undo_conn fuel E c m =
     (let (c1, m1) = mg_stop c m in snd (mongo_teardown_conn fuel E c1 m1))"

definition mongo_bring_conn ::
  "('w, 'u) mg_env \<Rightarrow> nat \<Rightarrow> nat \<Rightarrow> 'w mach \<Rightarrow> mongo_conn option \<times> 'w mach" where
  "mongo_bring_conn E cp i m =
     (case mongo_init_conn E zero_mongo_conn cp (int i) m of
        (rc, c, m1) \<Rightarrow> (if rc \<noteq> 0 then (None, m1) else (Some c, m1)))"

definition mongo_bring_up ::
  "nat \<Rightarrow> ('w, 'u) mg_env \<Rightarrow> nat \<Rightarrow> nat \<Rightarrow> 'w mach \<Rightarrow> mongo_conn list option \<times> 'w mach" where
  "mongo_bring_up fuel E cp n m = bring_up (mongo_bring_conn E cp) (mongo_undo_conn fuel E) n [] m"

section \<open>The pool\<close>

text \<open>
  After a failing \<open>pthread_cond_init\<close> the mutex is not destroyed: \<open>create_tail\<close> gets a
  \<open>free_mu\<close> that does nothing.
\<close>

definition mongo_pool_create ::
  "nat \<Rightarrow> ('w, 'u) mg_env \<Rightarrow> bool \<Rightarrow> string option \<Rightarrow> int \<Rightarrow> int \<Rightarrow> int \<Rightarrow> 'w mach \<Rightarrow> mongo_pool option \<times> 'w mach" where
  "mongo_pool_create fuel E once uri_str min_n max_n acquire_timeout m =
     (case uri_str of
        None \<Rightarrow> (None, m)
      | Some us \<Rightarrow>
          (if max_n < 1 then (None, m)
           else (let m0 = init_mongoc_library E once m in
             case mg_opened (mongoc_uri_new_with_error E us (ext m0)) m0 of
               (None, m1) \<Rightarrow> (None, m1)
             | (Some u, m1) \<Rightarrow>
                 (case halloc () (m1\<lparr>ext := mongoc_uri_set_max_pool_size E u max_n (ext m1)\<rparr>) of
                    (None, m2) \<Rightarrow> (None, mg_uri_destroy E u m2)
                  | (Some blk, m2) \<Rightarrow>
                      (case mg_opened (mongoc_client_pool_new E u (ext m2)) m2 of
                         (None, m3) \<Rightarrow> (None, rfree (addr blk) (mg_uri_destroy E u m3))
                       | (Some cp, m3) \<Rightarrow>
                           (case create_tail (\<lambda>mu k. k) (mongo_bring_up fuel E cp (nat max_n))
                                   (\<lambda>k. rfree (addr blk) (mg_uri_destroy E u (mg_pool_close E cp k))) m3 of
                              (None, m4) \<Rightarrow> (None, m4)
                            | (Some (mu, cv, cb, cs), m4) \<Rightarrow>
                                (Some \<lparr>pool_block = addr blk, client_pool = cp, uri = u, max_size = max_n,
                                   default_acquire_timeout_ms = acquire_timeout, conns_block = cb, conns = cs, mutex = mu,
                                   free_cond = cv, shutting_down = False\<rparr>, m4)))))))"

definition mongo_pool_destroy :: "nat \<Rightarrow> ('w, 'u) mg_env \<Rightarrow> mongo_pool option \<Rightarrow> 'w mach \<Rightarrow> 'w mach" where
  "mongo_pool_destroy fuel E pool m =
     (case pool of
        None \<Rightarrow> m
      | Some p \<Rightarrow>
          (let (cs, m1) = stop_all mg_stop (conns p) m;
               m2 = fold (\<lambda>c k. snd (mongo_teardown_conn fuel E c k)) cs m1;
               m3 = mutex_unlock (mutex p) (cond_signal (free_cond p) (mutex_lock (mutex p) m2))
           in rfree (pool_block p) (mg_uri_destroy E (uri p) (mg_pool_close E (client_pool p)
                (rfree (mutex p) (rfree (free_cond p) (rfree (conns_block p) m3)))))))"

section \<open>Acquire and release\<close>

definition mongo_set_in_use :: "bool \<Rightarrow> nat \<Rightarrow> mongo_pool \<Rightarrow> mongo_pool" where
  "mongo_set_in_use b i p = p\<lparr>conns := (conns p)[i := (conns p ! i)\<lparr>in_use := b\<rparr>]\<rparr>"

definition mongo_try_acquire :: "mongo_pool \<Rightarrow> nat option \<times> mongo_pool" where
  "mongo_try_acquire p =
     (case scan_free in_use (take (nat (max_size p)) (conns p)) 0 of
        None \<Rightarrow> (None, p)
      | Some i \<Rightarrow> (Some i, mongo_set_in_use True i p))"

definition mongo_pool_acquire ::
  "timespec \<Rightarrow> mongo_pool wake list \<Rightarrow> mongo_pool option \<Rightarrow> int \<Rightarrow> acquire_result \<times> mongo_pool option" where
  "mongo_pool_acquire now ws pool timeout =
     (case pool of
        None \<Rightarrow> (Refused, None)
      | Some p \<Rightarrow>
          (if shutting_down p then (Refused, Some p)
           else (let eff = (if timeout = 0 then default_acquire_timeout_ms p else timeout);
                     (r, q) = acquire_loop shutting_down mongo_try_acquire eff
                                (mongo_deadline_from_ms now eff) ws p
                 in (r, Some q))))"

definition mongo_pool_release ::
  "mongo_pool option \<Rightarrow> nat option \<Rightarrow> 'w mach \<Rightarrow> mongo_pool option \<times> 'w mach" where
  "mongo_pool_release pool conn m =
     (case (pool, conn) of
        (Some p, Some i) \<Rightarrow>
          (Some (mongo_set_in_use False i p),
           mutex_unlock (mutex p) (cond_signal (free_cond p) (mutex_lock (mutex p) m)))
      | _ \<Rightarrow> (pool, m))"

end
