(* ===== verification/Mg_Pool_Laws.thy ===== *)
theory Mg_Pool_Laws
  imports Mg_Pool
begin

text \<open>
  The MongoDB pool: connections come up and go down with nothing lost (\<open>conn_life\<close>,
  \<open>conn_end\<close>), creation is all or nothing but for one mutex, destruction gives everything
  back, and the array of connections is a \<open>conn_array\<close>.
\<close>

section \<open>A connection comes up\<close>

lemma mg_opened_acquired: "mg_opened r m = (h, m') \<Longrightarrow> acquired m (case h of None \<Rightarrow> [] | Some a \<Rightarrow> [a]) m'"
  by (auto simp: mg_opened_def rnew_def acquired_def split: prod.splits if_splits)

definition mg_fresh_conn :: "mongo_conn \<Rightarrow> bool" where
  "mg_fresh_conn c \<longleftrightarrow> mg_client c \<noteq> None \<and> mg_payload c = [] \<and> \<not> slot_filled c \<and> results c = [] \<and>
     last_result c = None \<and> \<not> in_use c"

lemma mg_push_acquired: "ledger_ok m0 \<Longrightarrow> acquired m0 [h] m \<Longrightarrow> acquired m0 [] (mg_push E cp h m)"
  using acquired_rfree_one [of m0 h "m\<lparr>ext := mongoc_client_pool_push E cp h (ext m)\<rparr>"] by (simp add: mg_push_def)

lemma mg_bring_conn_law:
  assumes ok: "ledger_ok m" and run: "mongo_bring_conn E cp i m = (r, m')"
  shows "case r of None \<Rightarrow> acquired m [] m'
    | Some c \<Rightarrow> acquired m (mg_handles c) m' \<and> mg_fresh_conn c \<and> mg_client_pool c = cp"
proof -
  obtain k m1 where o: "mg_opened (mongoc_client_pool_pop E cp (ext m)) m = (k, m1)"
    by (cases "mg_opened (mongoc_client_pool_pop E cp (ext m)) m")
  note a0 = mg_opened_acquired [OF o]
  note defs = mongo_bring_conn_def mongo_init_conn_def Let_def o
  show ?thesis
  proof (cases k)
    case None
    with a0 run show ?thesis by (auto simp: defs)
  next
    case (Some h)
    with a0 have a1: "acquired m [h] m1" by simp
    obtain s m2 where i: "init_sync (mg_push E cp h) m1 = (s, m2)" by (cases "init_sync (mg_push E cp h) m1")
    from init_sync_law [OF ok a1 mg_push_acquired [OF ok] i] run i Some show ?thesis
      by (cases s) (auto simp: defs mg_handles_def mg_fresh_conn_def mg_payload_def zero_mongo_conn_def)
  qed
qed

section \<open>A connection goes down\<close>

definition mg_covers :: "mongo_conn \<Rightarrow> bool" where
  "mg_covers c \<longleftrightarrow> (\<exists>as. chain_at mg_next (map_of (results c)) (last_result c) as \<and> distinct as \<and>
     fst ` set (results c) = set as)"

text \<open>The clients drain a connection's results before its next request.\<close>

definition mg_tidy :: "mongo_conn \<Rightarrow> bool" where
  "mg_tidy c \<longleftrightarrow> mg_covers c \<and> (slot_filled c \<longrightarrow> results c = [])"

lemma mg_covers_none: "results c = [] \<Longrightarrow> last_result c = None \<Longrightarrow> mg_covers c"
  by (auto simp: mg_covers_def intro!: exI [of _ "[]"])

text \<open>The worker's thread after a stop: it serves what is in the slot, then ends.\<close>

lemma mg_worker_ends:
  assumes own: "mg_own E c m" and tidy: "mg_tidy c" and stop: "shutdown_requested c"
    and run: "mongo_worker_end n E c m = Some (c1, m1)"
  shows "\<exists>xs m2. acquired m xs m2 \<and> released m2 (set (mg_payload c)) m1 \<and>
    mset (mg_store (results c1)) = mset (mg_store (results c)) + mset xs \<and> mg_own E c1 m1 \<and>
    \<not> slot_filled c1 \<and> mg_handles c1 = mg_handles c \<and> mg_covers c1"
proof (cases "slot_filled c")
  case False
  then have pay: "mg_payload c = []" using mg_ownD(1) [OF own] by (simp add: mg_slot_ok_def)
  from run False stop have "c1 = c" "m1 = m" by (auto simp: mongo_worker_end_def worker_choose_def)
  with own tidy False pay show ?thesis
    by (auto simp: mg_tidy_def intro!: exI [of _ "[]"] exI [of _ m])
next
  case True
  let ?m0 = "mutex_unlock (slot_mutex c) (mutex_lock (slot_mutex c) m)"
  note D = mg_ownD [OF own]
  have a0: "acquired m [] ?m0" using D(3) by (intro lock_refused) simp
  note own0 = mg_own_acquired [OF own a0]
  have emp: "results c = []" using tidy True by (simp add: mg_tidy_def)
  from run True obtain rc c2 m2 where ex: "mongo_worker_execute n E c ?m0 = Some (rc, c2, m2)"
    and cl: "mongo_worker_clear c2 m2 = (c1, m1)"
    by (auto simp: mongo_worker_end_def worker_choose_def split: option.splits)
  from mg_execute_law [OF own0 True ex] have own2: "mg_own E c2 m2" and same: "mg_same c c2" by simp_all
  have "False \<longrightarrow> oom ?m0 = []" by simp
  from mg_execute_ran [OF own0 True this ex] have
    g: "grown mg_next mg_node_ids (results c) ?m0 (results c2) (last_result c2) m2" by (simp add: mg_ran_def)
  from g obtain xs as where xs: "acquired ?m0 xs m2" "mset (mg_store (results c2)) = mset (mg_store (results c)) + mset xs"
    and as: "chain_at mg_next (map_of (results c2)) (last_result c2) as" "distinct as" "fst ` set (results c2) = set as"
    using emp by (auto simp: grown_def)
  note CL = mg_clear_law [OF own2 cl] and F = mg_same_fields [OF same]
  have "acquired m xs m2" using acquired_trans [OF a0 xs(1)] by simp
  moreover have "mg_covers c1" using as CL by (auto simp: mg_covers_def)
  moreover have "released m2 (set (mg_payload c)) m1" using CL F(9) by simp
  moreover have "mset (mg_store (results c1)) = mset (mg_store (results c)) + mset xs" "mg_handles c1 = mg_handles c"
    using CL F(8) xs(2) by simp_all
  ultimately show ?thesis using CL by blast
qed

text \<open>What is left then is dismantled completely.\<close>

lemma mg_dismantle:
  assumes own: "mg_own E c m" and emp: "\<not> slot_filled c" and cov: "mg_covers c"
  shows "\<exists>st m3. mongo_free_result_chain (last_result c) (results c) (rfree (worker c) m) = (st, m3) \<and>
    released m (set (mg_handles c @ mg_store (results c)))
      (mg_push E cp (the (mg_client c)) (rfree (slot_mutex c) (rfree (slot_cond c) m3)))"
proof -
  note D = mg_ownD [OF own]
  let ?rest = "[slot_cond c, slot_mutex c, the (mg_client c)]"
  have pay: "mg_payload c = []" using D(1) emp by (simp add: mg_slot_ok_def)
  have ok: "mg_kept (worker c # ?rest) c m"
    by (rule store_ok_mset [OF D(5)]) (simp add: pay mg_handles_def)
  from cov obtain as where as: "chain_at mg_next (map_of (results c)) (last_result c) as" "distinct as"
    "fst ` set (results c) = set as" by (auto simp: mg_covers_def)
  from mg_res.store_dismantle [OF ok as] obtain m3 where
    m3: "mongo_free_result_chain (last_result c) (results c) (rfree (worker c) m) = ([], m3)"
    and rel: "\<forall>x. released m (set (worker c # ?rest @ mg_store (results c))) (free_all ?rest (m3\<lparr>ext := x\<rparr>))"
    by (auto simp: mongo_free_result_chain_def)
  have "mg_push E cp (the (mg_client c)) (rfree (slot_mutex c) (rfree (slot_cond c) m3)) =
      free_all ?rest (m3\<lparr>ext := mongoc_client_pool_push E cp (the (mg_client c)) (ext m3)\<rparr>)"
    by (simp add: mg_push_def rfree_frame rfree_ext_update)
  with rel m3 show ?thesis by (simp add: mg_handles_def insert_commute)
qed

lemma mg_teardown_law:
  assumes own: "mg_own E c m" and tidy: "mg_tidy c" and stop: "shutdown_requested c"
    and ends: "mongo_worker_end n E c m \<noteq> None"
  shows "released m (set (mg_handles c @ mg_payload c @ mg_store (results c))) (snd (mongo_teardown_conn n E c m))"
proof -
  note D = mg_ownD [OF own]
  from ends obtain c1 m1 where e: "mongo_worker_end n E c m = Some (c1, m1)" by auto
  from mg_worker_ends [OF own tidy stop e] obtain xs m2 where w: "acquired m xs m2"
    "released m2 (set (mg_payload c)) m1" "mset (mg_store (results c1)) = mset (mg_store (results c)) + mset xs"
    and own1: "mg_own E c1 m1" and emp: "\<not> slot_filled c1" and hs: "mg_handles c1 = mg_handles c" and cov: "mg_covers c1"
    by blast
  have pay1: "mg_payload c1 = []" using mg_ownD(1) [OF own1] emp by (simp add: mg_slot_ok_def)
  then have none: "mg_db c1 = None" "mg_coll c1 = None" "doc1 c1 = None" "doc2 c1 = None"
    by (auto simp: mg_payload_def opt_ids_def split: option.splits)
  from hs have ids: "worker c1 = worker c" "slot_mutex c1 = slot_mutex c" "slot_cond c1 = slot_cond c"
    "the (mg_client c1) = the (mg_client c)" by (simp_all add: mg_handles_def)
  from mg_dismantle [OF own1 emp cov, of "mg_client_pool c"] obtain st m3 where
    d: "mongo_free_result_chain (last_result c1) (results c1) (rfree (worker c) m1) = (st, m3)"
    "released m1 (set (mg_handles c @ mg_store (results c1)))
      (mg_push E (mg_client_pool c) (the (mg_client c)) (rfree (slot_mutex c) (rfree (slot_cond c) m3)))"
    by (auto simp: hs ids)
  from D(1) obtain h where h: "mg_client c = Some h" by (auto simp: mg_slot_ok_def)
  have t: "snd (mongo_teardown_conn n E c m) = mg_push E (mg_client_pool c) h (rfree (slot_mutex c) (rfree (slot_cond c) m3))"
    using d(1) by (simp add: mongo_teardown_conn_def mongo_join_def h e mongo_pool_free_slot_payload_def none cfree_def)
  have "set (mg_payload c) \<union> set (mg_handles c @ mg_store (results c1)) =
      set xs \<union> set (mg_handles c @ mg_payload c @ mg_store (results c))"
    using mset_eq_setD [of "mg_store (results c1)" "mg_store (results c) @ xs"] w(3) by auto
  with released_trans [OF w(2) d(2)] acquired_then_released [OF D(2) w(1)] show ?thesis by (simp add: t h)
qed

section \<open>The contracts\<close>

lemma mg_undo_law:
  assumes ok: "ledger_ok m" "held m = {}" "\<not> fault m" and fr: "mg_fresh_conn c"
    and ids: "distinct (mg_handles c)" "set (mg_handles c) \<subseteq> live m"
  shows "released m (set (mg_handles c)) (mongo_undo_conn n E c m)"
proof -
  let ?c = "c\<lparr>shutdown_requested := True\<rparr>" and ?m = "mongo_signal_stop (c\<lparr>shutdown_requested := True\<rparr>) m"
  have rel: "released m {} ?m" by (rule mg_stop_released [OF ok(2)])
  have c: "mg_payload c = []" "results c = []" "last_result c = None" "\<not> slot_filled c" "mg_client c \<noteq> None"
    using fr by (auto simp: mg_fresh_conn_def)
  have "mg_own E c m"
    using ok ids c by (auto simp: mg_own_def mg_slot_ok_def store_ok_def owned_def intro!: exI [of _ "[]"])
  then have own: "mg_own E ?c ?m" by (intro mg_own_released [OF mg_stop_own rel])
  have "mongo_worker_end n E ?c ?m \<noteq> None"
    using c by (simp add: mongo_worker_end_def worker_choose_def)
  from mg_teardown_law [OF own _ _ this] c mg_covers_none [of ?c]
  have "released ?m (set (mg_handles c)) (snd (mongo_teardown_conn n E ?c ?m))"
    by (simp add: mg_tidy_def mg_handles_def mg_payload_def)
  from released_trans [OF rel this] show ?thesis by (simp add: mongo_undo_conn_def mg_stop_def Let_def)
qed

interpretation mg_life: conn_life "mongo_bring_conn E cp" "mongo_undo_conn n E" mg_handles mg_fresh_conn
  for E :: "('w, 'u) mg_env" and cp n
proof unfold_locales
  fix m m' :: "'w mach" and i and r :: "mongo_conn option" and c :: mongo_conn
  show "case r of None \<Rightarrow> acquired m [] m' | Some c \<Rightarrow> acquired m (mg_handles c) m' \<and> mg_fresh_conn c"
    if "ledger_ok m" "mongo_bring_conn E cp i m = (r, m')"
    using mg_bring_conn_law [OF that] by (simp split: option.splits)
  show "released m (set (mg_handles c)) (mongo_undo_conn n E c m)"
    if "ledger_ok m" "held m = {}" "\<not> fault m" "mg_fresh_conn c" "distinct (mg_handles c)" "set (mg_handles c) \<subseteq> live m"
    by (rule mg_undo_law [OF that])
qed

text \<open>A worker that was told to stop, and whose last request ends.\<close>

definition mg_stopped :: "nat \<Rightarrow> ('w, 'u) mg_env \<Rightarrow> mongo_conn \<Rightarrow> bool" where
  "mg_stopped n E c \<longleftrightarrow> shutdown_requested c \<and>
     (slot_filled c \<longrightarrow> (\<forall>w. mg_outcome n E (mg_slot_request c) w \<noteq> None))"

definition mg_owns :: "('w, 'u) mg_env \<Rightarrow> mongo_conn \<Rightarrow> nat set \<Rightarrow> 'w mach \<Rightarrow> bool" where
  "mg_owns E c X m \<longleftrightarrow> mg_own E c m \<and> mg_tidy c \<and> X = set (mg_handles c @ mg_payload c @ mg_store (results c))"

lemma mg_worker_end_returns:
  assumes "mg_stopped n E c" "mg_own E c m"
  shows "mongo_worker_end n E c m \<noteq> None"
proof (cases "slot_filled c")
  case False
  with assms(1) show ?thesis by (simp add: mg_stopped_def mongo_worker_end_def worker_choose_def)
next
  case True
  let ?m0 = "mutex_unlock (slot_mutex c) (mutex_lock (slot_mutex c) m)"
  have "acquired m [] ?m0" using mg_ownD(3) [OF assms(2)] by (intro lock_refused) simp
  from mg_own_acquired [OF assms(2) this] have "mongo_worker_execute n E c ?m0 \<noteq> None"
    using assms True by (intro mg_execute_returns) (simp_all add: mg_stopped_def)
  with True show ?thesis by (auto simp: mongo_worker_end_def worker_choose_def)
qed

interpretation mg_end: conn_end "\<lambda>c m. snd (mongo_teardown_conn n E c m)" "mg_owns E" "mg_stopped n E" "\<lambda>m. True"
  for E :: "('w, 'u) mg_env" and n
proof unfold_locales
  fix m m' :: "'w mach" and c :: mongo_conn and X Y
  show "released m X (snd (mongo_teardown_conn n E c m)) \<and> True" if "mg_stopped n E c" "mg_owns E c X m"
    using that mg_worker_end_returns [of n E c m] mg_teardown_law [of E c m n]
    by (auto simp: mg_owns_def mg_stopped_def)
  show "mg_owns E c X m'" if "mg_owns E c X m" "released m Y m'" "X \<inter> Y = {}"
  proof -
    let ?ids = "mg_handles c @ mg_payload c @ mg_store (results c)"
    from that(1) have own: "mg_own E c m" and X: "X = set ?ids" by (simp_all add: mg_owns_def)
    have "owned ?ids m" using store_ok_owned [OF mg_ownD(5) [OF own]] by simp
    from owned_released [OF this that(2)] that(3) X have "owned ?ids m'" by simp
    with own that(2) have "mg_own E c m'" by (simp add: mg_own_def store_ok_def released_def)
    with that(1) show ?thesis by (simp add: mg_owns_def)
  qed
qed

interpretation mg_array: conn_array max_size conns in_use mongo_set_in_use mongo_try_acquire
  by unfold_locales (auto simp: mongo_set_in_use_def mongo_try_acquire_def nth_list_update)

section \<open>Creation and destruction\<close>

definition mg_pool_ids :: "mongo_pool \<Rightarrow> nat list" where
  "mg_pool_ids p = [uri p, pool_block p, client_pool p, mutex p, free_cond p, conns_block p]"

text \<open>Nothing is kept, or only the mutex of a failing \<open>pthread_cond_init\<close>.\<close>

definition mg_kept_nothing :: "'w mach \<Rightarrow> 'w mach \<Rightarrow> bool" where
  "mg_kept_nothing m m' \<longleftrightarrow> (\<exists>mu. acquired m mu m' \<and> length mu \<le> 1)"

lemma mg_kept_nothingI: "acquired m [] k \<Longrightarrow> mg_kept_nothing m k"
  unfolding mg_kept_nothing_def by (intro exI [of _ "[]"]) simp

text \<open>Creation from the client pool on.\<close>

lemma mongo_create_rest:
  assumes ok: "ledger_ok m" and h0: "held m = {}" and f0: "\<not> fault m" and aS: "acquired m [ur, blk, c] m3"
    and ct: "create_tail (\<lambda>mu k. k) (mongo_bring_up fuel E c N)
      (\<lambda>k. rfree blk (mg_uri_destroy E ur (mg_pool_close E c k))) m3 = (q, m4)"
  shows "case q of None \<Rightarrow> mg_kept_nothing m m4
    | Some (mu, cv, cb, cs) \<Rightarrow> acquired m ([ur, blk, c] @ [mu, cv, cb] @ concat (map mg_handles cs)) m4 \<and>
        (\<forall>c \<in> set cs. mg_fresh_conn c) \<and> length cs = N"
proof (rule create_tail_cases [where Q = "mg_kept_nothing m" and
      P = "\<lambda>cs. (\<forall>c \<in> set cs. mg_fresh_conn c) \<and> length cs = N", OF ok aS _ mg_kept_nothingI _ _ ct])
  let ?undo = "\<lambda>k. rfree blk (mg_uri_destroy E ur (mg_pool_close E c k))"
  have dS: "distinct [c, ur, blk]" using aS by (auto simp: acquired_def)
  have eq: "?undo k = free_all [c, ur, blk] (k\<lparr>ext := mongoc_uri_destroy E ur (mongoc_client_pool_destroy E c (ext k))\<rparr>)" for k
    by (simp add: mg_uri_destroy_def mg_pool_close_def rfree_ext_update rfree_frame)
  show "acquired m [] (?undo k)" if "acquired m [ur, blk, c] k" for k
    unfolding eq using that dS by (intro acquired_free_every [OF ok, of "[ur, blk, c]"]) auto
  show "mg_kept_nothing m (?undo k)" if "acquired m ([ur, blk, c] @ [mu]) k" for mu k
  proof -
    have "acquired m ([mu] @ [ur, blk, c]) k" using that by (rule acquired_perm) (use that in \<open>auto simp: acquired_def\<close>)
    then have "acquired m ([mu] @ [ur, blk, c]) (k\<lparr>ext := mongoc_uri_destroy E ur (mongoc_client_pool_destroy E c (ext k))\<rparr>)"
      by simp
    from acquired_drop [OF ok this, of "[c, ur, blk]"] dS have "acquired m [mu] (?undo k)"
      unfolding eq by (simp add: insert_commute)
    then show ?thesis unfolding mg_kept_nothing_def by (intro exI [of _ "[mu]"]) simp
  qed
  show "case cs of None \<Rightarrow> acquired k [] k'
      | Some cs \<Rightarrow> acquired k (concat (map mg_handles cs)) k' \<and> (\<forall>c \<in> set cs. mg_fresh_conn c) \<and> length cs = N"
    if "acquired m xs k" "mongo_bring_up fuel E c N k = (cs, k')" for xs k cs k'
    by (rule mg_life.bring_up_fresh [OF ok h0 f0 that(1) that(2) [unfolded mongo_bring_up_def]])
qed

lemma mongo_pool_create_cases:
  assumes ok: "ledger_ok m" and h0: "held m = {}" and f0: "\<not> fault m"
    and run: "mongo_pool_create fuel E once us mn max_n t m = (r, m')"
  shows "case r of None \<Rightarrow> mg_kept_nothing m m'
    | Some p \<Rightarrow> acquired m (mg_pool_ids p @ concat (map mg_handles (conns p))) m' \<and>
        (\<forall>c \<in> set (conns p). mg_fresh_conn c) \<and> max_size p = max_n \<and> length (conns p) = nat max_n \<and> 1 \<le> max_n \<and>
        default_acquire_timeout_ms p = t \<and> \<not> shutting_down p"
proof (cases "us = None \<or> max_n < 1")
  case True
  have "mg_kept_nothing m m" by (rule mg_kept_nothingI) simp
  with True run show ?thesis by (auto simp: mongo_pool_create_def split: option.splits)
next
  case False
  then obtain s where s: "us = Some s" by auto
  let ?m0 = "init_mongoc_library E once m"
  have m0: "acquired m [] ?m0" by (simp add: init_mongoc_library_def)
  obtain u m1 where u: "mg_opened (mongoc_uri_new_with_error E s (ext ?m0)) ?m0 = (u, m1)"
    by (cases "mg_opened (mongoc_uri_new_with_error E s (ext ?m0)) ?m0")
  have a1: "acquired m (case u of None \<Rightarrow> [] | Some a \<Rightarrow> [a]) m1" using acquired_trans [OF m0 mg_opened_acquired [OF u]] by simp
  show ?thesis
  proof (cases u)
    case None
    have "acquired m [] m1" using a1 None by simp
    then have "mg_kept_nothing m m1" by (rule mg_kept_nothingI)
    moreover have "r = None \<and> m' = m1" using run False s u None by (auto simp: mongo_pool_create_def Let_def)
    ultimately show ?thesis by simp
  next
    case u': (Some ur)
    let ?m1 = "m1\<lparr>ext := mongoc_uri_set_max_pool_size E ur max_n (ext m1)\<rparr>"
    have a1': "acquired m [ur] ?m1" using a1 u' by simp
    have uri: "acquired m [] (mg_uri_destroy E ur k)" if "acquired m [ur] k" for k
      using acquired_rfree_one [OF ok, of ur "k\<lparr>ext := mongoc_uri_destroy E ur (ext k)\<rparr>"] that by (simp add: mg_uri_destroy_def)
    obtain k m2 where k: "halloc () ?m1 = (k, m2)" by (cases "halloc () ?m1")
    show ?thesis
    proof (cases k)
      case None
      have "acquired m [ur] m2" using acquired_failed [OF a1' k [unfolded None]] .
      from mg_kept_nothingI [OF uri [OF this]] run False s u u' k None show ?thesis
        by (auto simp: mongo_pool_create_def Let_def)
    next
      case k': (Some blk)
      have a2: "acquired m [ur, addr blk] m2" using acquired_snoc [OF a1' k [unfolded k']] by simp
      obtain cp m3 where cp: "mg_opened (mongoc_client_pool_new E ur (ext m2)) m2 = (cp, m3)"
        by (cases "mg_opened (mongoc_client_pool_new E ur (ext m2)) m2")
      have a3: "acquired m ([ur, addr blk] @ (case cp of None \<Rightarrow> [] | Some a \<Rightarrow> [a])) m3"
        using acquired_trans [OF a2 mg_opened_acquired [OF cp]] .
      show ?thesis
      proof (cases cp)
        case None
        have eq: "rfree (addr blk) (mg_uri_destroy E ur m3) = free_all [ur, addr blk] (m3\<lparr>ext := mongoc_uri_destroy E ur (ext m3)\<rparr>)"
          by (simp add: mg_uri_destroy_def)
        have "distinct [ur, addr blk]" using a2 by (simp add: acquired_def)
        then have "acquired m [] (rfree (addr blk) (mg_uri_destroy E ur m3))"
          unfolding eq using a3 None by (intro acquired_free_every [OF ok, of "[ur, addr blk]"]) simp_all
        from mg_kept_nothingI [OF this] run False s u u' k k' cp None show ?thesis by (auto simp: mongo_pool_create_def Let_def)
      next
        case cp': (Some c)
        have aS: "acquired m [ur, addr blk, c] m3" using a3 cp' by simp
        obtain q m4 where ct: "create_tail (\<lambda>mu k. k) (mongo_bring_up fuel E c (nat max_n))
            (\<lambda>k. rfree (addr blk) (mg_uri_destroy E ur (mg_pool_close E c k))) m3 = (q, m4)"
          by (cases "create_tail (\<lambda>mu k. k) (mongo_bring_up fuel E c (nat max_n))
            (\<lambda>k. rfree (addr blk) (mg_uri_destroy E ur (mg_pool_close E c k))) m3")
        from mongo_create_rest [OF ok h0 f0 aS ct] run False s u u' k k' cp cp' ct show ?thesis
          by (cases q) (auto simp: mongo_pool_create_def Let_def mg_pool_ids_def)
      qed
    qed
  qed
qed

lemma mg_stop_request: "mg_slot_request (c\<lparr>shutdown_requested := True\<rparr>) = mg_slot_request c"
  by (simp add: mg_slot_request_def Let_def)

lemma mg_stop_all:
  assumes "ledger_ok m" "held m = {}" "stop_all mg_stop cs m = (cs', m')"
  shows "cs' = map (\<lambda>c. c\<lparr>shutdown_requested := True\<rparr>) cs \<and> released m {} m'"
  using stop_all_map [of cs mg_stop "\<lambda>c. c\<lparr>shutdown_requested := True\<rparr>" m] assms mg_stop_released
  by (auto simp: mg_stop_def Let_def)

lemma mongo_pool_destroy_released:
  assumes ok: "ledger_ok m" "held m = {}" and own: "all_own (mg_owns E) (conns p) Xs m"
    and ids: "distinct (mg_pool_ids p)" "set (mg_pool_ids p) \<subseteq> live m" "set (mg_pool_ids p) \<inter> \<Union> (set Xs) = {}"
    and ends: "\<And>c w. c \<in> set (conns p) \<Longrightarrow> slot_filled c \<Longrightarrow> mg_outcome n E (mg_slot_request c) w \<noteq> None"
  shows "released m (\<Union> (set Xs) \<union> set (mg_pool_ids p)) (mongo_pool_destroy n E (Some p) m)"
proof -
  let ?stop = "\<lambda>c. c\<lparr>shutdown_requested := True\<rparr>"
  obtain cs m1 where s: "stop_all mg_stop (conns p) m = (cs, m1)" by (cases "stop_all mg_stop (conns p) m")
  from mg_stop_all [OF ok(1,2) s] have cs: "cs = map ?stop (conns p)" and r1: "released m {} m1" by simp_all
  have m1: "ledger_ok m1" "held m1 = {}"
    using released_ledger_ok [OF ok(1) r1] r1 ok by (simp_all add: released_def)
  have "mg_owns E (?stop c) X m" if "mg_owns E c X m" for c X
    using that mg_stop_own [of E c m] by (simp add: mg_owns_def mg_handles_def mg_payload_def mg_tidy_def mg_covers_def)
  then have "all_own (mg_owns E) (map ?stop (conns p)) Xs m" by (rule all_own_mono [OF own])
  then have own1: "all_own (mg_owns E) cs Xs m1"
    using mg_end.all_own_released [of E cs Xs m "{}" m1] r1 cs by simp
  have "\<forall>c \<in> set cs. mg_stopped n E c"
    using ends by (simp add: cs mg_stopped_def mg_stop_request del: not_None_eq)
  from mg_end.tear_all [OF m1 TrueI this own1]
  have r2: "released m1 (\<Union> (set Xs)) (fold (\<lambda>c k. snd (mongo_teardown_conn n E c k)) cs m1)" (is "released m1 _ ?m2") .
  have "held ?m2 = {}" using r2 m1 by (simp add: released_def)
  then have r3: "released ?m2 {} (mutex_unlock (mutex p) (cond_signal (free_cond p) (mutex_lock (mutex p) ?m2)))" (is "released _ _ ?m3")
    by (simp add: lock_signal_unlock)
  have r: "released m (\<Union> (set Xs)) ?m3" using released_trans [OF released_trans [OF r1 r2] r3] by simp
  let ?ids = "[conns_block p, free_cond p, mutex p, client_pool p, uri p, pool_block p]"
  have eq: "set ?ids = set (mg_pool_ids p)" "distinct ?ids" using ids(1) by (auto simp: mg_pool_ids_def)
  have "set ?ids \<subseteq> live ?m3" using ids(2,3) r unfolding eq(1) by (auto simp: released_def)
  from released_trans [OF r free_all_released [OF eq(2) this]]
  show ?thesis unfolding eq(1)
    by (simp add: mongo_pool_destroy_def s mg_uri_destroy_def mg_pool_close_def rfree_ext_update rfree_frame Let_def)
qed

end
