(* ===== verification/Native_Mongo.thy ===== *)
theory Native_Mongo
  imports Mg_Conn Abi_Word
begin

text \<open>native_mongo.c: the ABI version word and the view of a result's document.\<close>

unbundle bit_operations_syntax

definition NATIVE_MONGO_ABI_VERSION_MAJOR :: "64 word" where "NATIVE_MONGO_ABI_VERSION_MAJOR = 1"
definition NATIVE_MONGO_ABI_VERSION_MINOR :: "64 word" where "NATIVE_MONGO_ABI_VERSION_MINOR = 1"

definition native_mongo_abi_version :: "64 word" where
  "native_mongo_abi_version = push_bit 32 NATIVE_MONGO_ABI_VERSION_MAJOR OR NATIVE_MONGO_ABI_VERSION_MINOR"

definition native_mongo_init_dart_api :: "(string \<Rightarrow> nat) \<Rightarrow> dart_api \<Rightarrow> dl_vars \<Rightarrow> unit + (int \<times> dl_vars)" where
  "native_mongo_init_dart_api dep data V = Dart_InitializeApiDL dep data V"

definition native_mongo_result_data :: "native_mongo_result option \<Rightarrow> string option" where
  "native_mongo_result_data result = (case result of None \<Rightarrow> None | Some r \<Rightarrow> Some (contents (mg_data r)))"

definition native_mongo_result_length :: "native_mongo_result option \<Rightarrow> int" where
  "native_mongo_result_length result = (case result of None \<Rightarrow> 0 | Some r \<Rightarrow> mg_len r)"

text \<open>The version word: major 1, minor 1.\<close>

lemma native_mongo_abi: "native_mongo_abi_version = 0x100000001"
  by (simp add: native_mongo_abi_version_def NATIVE_MONGO_ABI_VERSION_MAJOR_def NATIVE_MONGO_ABI_VERSION_MINOR_def)

end
