(* ===== verification/Mg_Properties.thy ===== *)
theory Mg_Properties
  imports Mg_Pool_Laws Native_Mongo
begin

text \<open>
  The properties of the MongoDB driver. The witnesses run them on \<open>demo_mg\<close>, a server whose
  cursors deliver the same document until the outside world, a count, is used up.
\<close>

section \<open>A concrete server\<close>

definition demo_doc :: string where
  "demo_doc = [CHR 0x05, CHR 0x00, CHR 0x00, CHR 0x00, CHR 0x00]"

definition demo_mg :: "(nat, unit) mg_env" where
  "demo_mg = \<lparr>bson_valid = (\<lambda>bs. 5 \<le> length bs), mongoc_init = id, mongoc_uri_new_with_error = (\<lambda>s w. (True, w)),
     mongoc_uri_set_max_pool_size = (\<lambda>u n w. w), mongoc_uri_destroy = (\<lambda>u w. w), mongoc_client_pool_new = (\<lambda>u w. (True, w)),
     mongoc_client_pool_destroy = (\<lambda>p w. w), mongoc_client_pool_pop = (\<lambda>p w. (True, w)),
     mongoc_client_pool_push = (\<lambda>p h w. w), mongoc_client_get_collection = (\<lambda>ns w. w),
     mongoc_collection_destroy = (\<lambda>ns w. w), mongoc_collection_find_with_opts = (\<lambda>ns f d w. ((), w)),
     mongoc_cursor_next = (\<lambda>u w. case w of 0 \<Rightarrow> (None, 0) | Suc k \<Rightarrow> (Some demo_doc, k)),
     mongoc_cursor_error = (\<lambda>u w. None), mongoc_cursor_destroy = (\<lambda>u w. w),
     mongoc_collection_insert_one = (\<lambda>ns d w. (None, d, w)), mongoc_collection_update_one = (\<lambda>ns s d w. (None, d, w)),
     mongoc_collection_delete_one = (\<lambda>ns s w. (None, s, w)),
     mongoc_collection_insert_many = (\<lambda>ns ds ord w. (None, demo_doc, w)),
     mongoc_client_command_simple = (\<lambda>h db cmd w. (None, cmd, w))\<rparr>"

definition mg_mach :: "nat mach" where
  "mg_mach = \<lparr>oom = [], fresh = 9, live = {0..8}, held = {}, signals = [], fault = False, ext = 2\<rparr>"

definition mg_idle_conn :: mongo_conn where
  "mg_idle_conn = zero_mongo_conn\<lparr>mg_client := Some 0, worker := 1, slot_mutex := 2, slot_cond := 3\<rparr>"

text \<open>A connection with a find in its slot.\<close>

definition mg_busy_conn :: mongo_conn where
  "mg_busy_conn = mg_idle_conn\<lparr>slot_filled := True, op_kind := MONGO_OP_FIND, mg_db := Some (Cell 4 ''db''),
     mg_coll := Some (Cell 5 ''things''), doc1 := Some (Cell 6 demo_doc), doc1_len := 5, port_id := 7\<rparr>"

lemmas mg_demo = mg_mach_def mg_idle_conn_def mg_busy_conn_def zero_mongo_conn_def

lemma mg_idle_own: "mg_own demo_mg mg_idle_conn mg_mach"
  by (auto simp: mg_own_def mg_slot_ok_def mg_handles_def mg_payload_def store_ok_def owned_def ledger_ok_def mg_demo
      intro!: exI [of _ "[]"])


definition mg_state :: "(mongo_conn, nat) drv_state" where
  "mg_state = \<lparr>st_conn = mg_idle_conn, st_mach = mg_mach, st_pc = At_top, st_accepted = [], st_posted = []\<rparr>"

lemma mg_start: "drv_start (mg_driver demo_mg) (mg_own demo_mg) mg_state"
  using mg_idle_own by (simp add: drv_start_def mg_state_def) (simp add: mg_demo)


lemma mg_run:
  "\<exists>s. (drv_step (mg_driver demo_mg) (mg_call_ok demo_mg))\<^sup>*\<^sup>* mg_state s \<and> st_posted s = [(7, 1)] \<and> st_pc s = Returned"
proof (rule mg_drv.serves_and_returns [OF mg_start])
  show "mg_call_ok demo_mg (Mg_find (Some ''db'') (Some ''c'') (Some demo_doc) 5 None 0)" by (simp add: mg_call_ok_def mg_usable_def arg_bson_def arg_bytes_def demo_mg_def demo_doc_def)
  show "map_option fst (serve_once (mg_driver demo_mg) 9 (Mg_find (Some ''db'') (Some ''c'') (Some demo_doc) 5 None 0) 7 0 (st_conn mg_state) (st_mach mg_state)) = Some 1"
    by code_simp
qed

section \<open>The connection\<close>

text \<open>C24. Whatever clients and worker of a MongoDB connection do, in whatever order: every
  accepted request is answered exactly once and in order with code 1 or 2, a worker that has
  returned has answered all of them, nothing undefined has happened, and everything the
  connection holds is live, distinct and reachable.\<close>

theorem mongo_driver_sound:
  assumes "drv_start (mg_driver E) (mg_own E) s0" "(drv_step (mg_driver E) (mg_call_ok E))\<^sup>*\<^sup>* s0 s"
  shows "map fst (st_posted s) @ in_flight (drv_abs (mg_driver E) s) = st_accepted s \<and>
    (\<forall>c \<in> set (st_posted s). snd c = 1 \<or> snd c = 2) \<and>
    (st_pc s = Returned \<longrightarrow> map fst (st_posted s) = st_accepted s \<and> \<not> slot_filled (st_conn s)) \<and>
    \<not> fault (st_mach s) \<and> held (st_mach s) = {} \<and> mg_own E (st_conn s) (st_mach s)"
  using mg_drv.exactly_once [OF assms] mg_drv.drops_nothing [OF assms] mg_drv.always_owned [OF assms]
    mg_ownD [OF mg_drv.always_owned [OF assms]] by simp

theorem mongo_driver_sound_witness:
  "\<exists>s. (drv_step (mg_driver demo_mg) (mg_call_ok demo_mg))\<^sup>*\<^sup>* mg_state s \<and> st_pc s = Returned \<and> st_accepted s = [7] \<and>
     mg_own demo_mg (st_conn s) (st_mach s) \<and> \<not> fault (st_mach s)"
proof -
  obtain s where s: "(drv_step (mg_driver demo_mg) (mg_call_ok demo_mg))\<^sup>*\<^sup>* mg_state s" "st_posted s = [(7, 1)]" "st_pc s = Returned"
    using mg_run by blast
  from mongo_driver_sound [OF mg_start s(1)] s(2,3) have "st_accepted s = [7]" "mg_own demo_mg (st_conn s) (st_mach s)" "\<not> fault (st_mach s)"
    by simp_all
  with s show ?thesis by blast
qed



section \<open>Insert-many blobs\<close>

text \<open>C15. Slicing an insert-many blob inverts concatenation: documents whose length prefixes are
  right come back as they were packed; of any blob below 2 GiB whose offsets fit in 32 bits the
  loop accepts exactly the packings of \<open>k\<close> documents, reads nothing outside the blob and
  overflows nowhere; and when the offsets do not fit, a signed addition has overflowed.\<close>

theorem mongo_insert_many_slices:
  assumes "int (length blob) < 2 ^ 31"
  shows "((\<exists>ds. concat ds = blob \<and> length ds = k \<and> (\<forall>d \<in> set ds. sound_doc (bson_valid E) d)) \<longrightarrow>
      (\<exists>ds. slice_docs k E blob (int (length blob)) 0 [] m = (True, int (length blob), ds, m) \<and>
         concat ds = blob \<and> length ds = k \<and> (\<forall>d \<in> set ds. sound_doc (bson_valid E) d))) \<and>
    (slices_fit (bson_valid E) k 0 blob \<longrightarrow>
      (\<exists>v off ds. slice_docs k E blob (int (length blob)) 0 [] m = (v, off, ds, m) \<and>
         bson_split (bson_valid E) k blob = (if v \<and> off = int (length blob) then Some ds else None))) \<and>
    (\<not> slices_fit (bson_valid E) k 0 blob \<longrightarrow> fault (snd (snd (snd (slice_docs k E blob (int (length blob)) 0 [] m)))))"
proof -
  have fits: "\<exists>v off ds. slice_docs k E blob (int (length blob)) 0 [] m = (v, off, ds, m) \<and>
      bson_split (bson_valid E) k blob = (if v \<and> off = int (length blob) then Some ds else None)"
    if "slices_fit (bson_valid E) k 0 blob"
    using slice_docs_split [of E k 0 blob "[]" m] that by simp
  have "\<exists>ds. slice_docs k E blob (int (length blob)) 0 [] m = (True, int (length blob), ds, m) \<and>
      concat ds = blob \<and> length ds = k \<and> (\<forall>d \<in> set ds. sound_doc (bson_valid E) d)"
    if "concat ds = blob" "length ds = k" "\<forall>d \<in> set ds. sound_doc (bson_valid E) d" for ds
  proof -
    have s: "bson_split (bson_valid E) k blob = Some ds" using bson_split_concat [OF that(3)] that(1,2) by simp
    from fits [OF bson_split_fits [OF s]] assms s bson_split_sound [OF s] show ?thesis by (auto split: if_splits)
  qed
  with fits slice_docs_overflow [of E k 0 blob "[]" m] assms show ?thesis by auto
qed

text \<open>Two documents, and a blob whose length prefix promises almost 2 GiB.\<close>

theorem mongo_insert_many_slices_witness:
  "(\<exists>ds. slice_docs 2 demo_mg (demo_doc @ demo_doc) 10 0 [] mg_mach = (True, 10, ds, mg_mach) \<and>
      concat ds = demo_doc @ demo_doc \<and> length ds = 2) \<and>
   fault (snd (snd (snd (slice_docs 2 demo_mg (demo_doc @ [CHR 0xFF, CHR 0xFF, CHR 0xFF, CHR 0x7F]) 9 0 [] mg_mach))))"
proof -
  have "sound_doc (bson_valid demo_mg) demo_doc"
    by (simp add: sound_doc_def demo_doc_def demo_mg_def le_int32_def)
  then have "\<exists>ds. concat ds = demo_doc @ demo_doc \<and> length ds = 2 \<and> (\<forall>d \<in> set ds. sound_doc (bson_valid demo_mg) d)"
    by (intro exI [of _ "[demo_doc, demo_doc]"]) simp
  note packed = this
  have len: "int (length (demo_doc @ demo_doc)) = 10" "int (length (demo_doc @ demo_doc)) < 2 ^ 31" by (simp_all add: demo_doc_def)
  from conjunct1 [OF mongo_insert_many_slices [OF len(2)], rule_format, OF packed, of mg_mach]
  have 1: "\<exists>ds. slice_docs 2 demo_mg (demo_doc @ demo_doc) 10 0 [] mg_mach = (True, 10, ds, mg_mach) \<and>
      concat ds = demo_doc @ demo_doc \<and> length ds = 2" unfolding len(1) by blast
  let ?bad = "demo_doc @ [CHR 0xFF, CHR 0xFF, CHR 0xFF, CHR 0x7F]"
  have bad: "\<not> slices_fit (bson_valid demo_mg) 2 0 ?bad"
    by (simp add: numeral_2_eq_2 demo_doc_def demo_mg_def le_int32_def Let_def)
  have bl: "int (length ?bad) = 9" "int (length ?bad) < 2 ^ 31" by (simp_all add: demo_doc_def)
  from conjunct2 [OF conjunct2 [OF mongo_insert_many_slices [OF bl(2)]], rule_format, OF bad, of mg_mach]
  have "fault (snd (snd (snd (slice_docs 2 demo_mg ?bad 9 0 [] mg_mach))))" unfolding bl(1) .
  with 1 show ?thesis by blast
qed

section \<open>The pool\<close>





end
