(* ===== verification/Spec2Isabelle.thy ===== *)
theory Spec2Isabelle
  imports Pg_Properties My_Properties Sq_Properties Mg_Properties
begin

text \<open>
  A verification library for the native core of dart_db_connector: the C sources under
  src/packages/dart_db_connector/native/c that give Dart isolates pooled, asynchronous
  access to PostgreSQL, MySQL, SQLite and MongoDB.

  \<^bold>\<open>The program.\<close> Each of the four libraries is a pool of connections. A pool owns an array of
  connections, a mutex and a condition variable; \<open>acquire\<close> scans the array for a connection
  that is not in use and waits, up to a deadline, for a release. A connection owns a handle of
  the client library, a worker thread, and a slot guarded by its own mutex and condition
  variable. A submission copies the caller's request into the empty slot and signals the
  worker; the worker runs the request, leaves results and errors on the connection, frees the
  slot, and posts one code, 1 or 2, to the request's native port through the Dart API that
  \<open>Dart_InitializeApiDL\<close> has resolved. The client then polls the results one by one, each of
  which is its own from then on. Destroying a pool stops and joins every worker, which first
  serves what is still in its slot.

  \<^bold>\<open>The machine.\<close> C_Prelude models what the C code shares: \<open>mach\<close> is an allocation ledger (the
  live blocks and handles, the next fresh address), the mutexes held, the signals sent, a
  \<open>fault\<close> flag for anything undefined (a double free, a stray lock, a read or write outside an
  array, a signed overflow), and the state \<open>ext\<close> of everything outside the sources. Failing
  allocations, mutex, condition-variable and thread creations come from the script \<open>oom\<close>, one
  entry per call; an empty script is memory to spare. C_Strings and C_Time add hand-built C
  strings and the deadline arithmetic; Linked_Chain and Result_Chain the linked lists of
  results; Abi_Word the version word; Dart_Api_Dl the symbol table of dart_api_dl.c.

  \<^bold>\<open>The parts.\<close> For each driver a group of theories, in the order of the sources; the record
  fields and operations have the names of the C code, prefixed where the four drivers clash.
  \<^item> PostgreSQL (native_pool.c, native_pool_worker.c, native_db.c): Pg_Env the libpq calls,
    Pg_Conn the connection, its slot and its results, Pg_Params parameterised submissions,
    Pg_Worker the \<open>select\<close> loops and the four ways to run a request, Pg_Pool the pool, Native_Db
    the shims; Pg_Chain, Pg_Worker_Laws, Pg_Machine, Pg_Pool_Laws their laws.
  \<^item> MySQL (mysql_pool.c, mysql_pool_worker.c, native_mysql.c): My_Env, My_Conn, My_Worker,
    My_Pool, Native_Mysql; My_Laws, My_Worker_Laws, My_Machine, My_Pool_Laws.
  \<^item> SQLite (sqlite_pool.c, sqlite_pool_worker.c, native_sqlite.c): Sq_Env, Sq_Conn, Sq_Worker,
    Sq_Pool, Native_Sqlite; Sq_Rows, Sq_Laws, Sq_Worker_Laws, Sq_Multi, Sq_Machine, Sq_Pool_Laws.
  \<^item> MongoDB (mongo_pool.c, mongo_pool_worker.c, native_mongo.c): Mg_Env, Mg_Conn, Mg_Worker,
    Mg_Pool, Native_Mongo; Mg_Slices, Mg_Laws, Mg_Worker_Laws, Mg_Machine, Mg_Pool_Laws.

  A theory Xx_Env is the interface to the client library: a record of functions over an
  abstract outside world, with the handles it opens and closes entered in the ledger. Nothing
  is known of these functions but what a property's hypotheses say.

  \<^bold>\<open>The contracts.\<close> Where the drivers do the same thing, the lemmas are proved once, inside a
  locale that each driver interprets on its own operations.
  \<^item> \<open>mailbox_impl\<close> (Mailbox_Contract): a connection as an abstract mailbox \<open>mbox_step\<close>, with
    delivery exactly once and in order, and nothing lost at shutdown.
  \<^item> \<open>driver_laws\<close> (Driver_Machine): what submission, stop, execution and clearing must keep; the
    step relation \<open>drv_step\<close> of one worker and its clients, in any order, then implements the
    mailbox (a \<open>sublocale\<close>), and the worker can answer everything accepted.
  \<^item> \<open>lease_pool\<close> and \<open>conn_array\<close> (Lease_Contract): the free list and the \<open>acquire\<close> loop, with
    other threads acting at every return from the condition wait.
  \<^item> \<open>result_nodes\<close> (Result_Chain): appending, polling and freeing a chain of results.
  \<^item> \<open>conn_life\<close> and \<open>conn_end\<close> (Pool_Life): bringing connections up with rollback, and tearing
    them down.

  \<^bold>\<open>The properties\<close> stand in Pg_Properties, My_Properties, Sq_Properties, Mg_Properties and, where
  they span the drivers, below. Those on delivery (\<open>pg_exactly_once\<close>, the \<open>driver_sound\<close> theorems,
  \<open>every_driver_answers\<close>) hold over every interleaving of clients and worker. Those on requests
  (\<open>pg_multi_read_correct\<close>, the \<open>request_correct\<close> theorems) refine what the server or library
  delivers: the client polls exactly its results, in order, whatever allocations fail on the
  way, or gets code 2 and everything is given back. Those on pools (\<open>create_atomic\<close>,
  \<open>pool_balanced\<close>) say that creation is all or nothing at every point of failure and that
  destruction frees everything exactly once, whatever the connections are doing. The others are
  on submissions, leases, deadlines, termination, the reading of results, the insert-many
  blobs, versions and symbol resolution. The witnesses run each on a small concrete server.

  \<^bold>\<open>Bounds.\<close> A loop that waits for the server takes fuel, and \<open>None\<close> is a thread that is still in
  it; that a request ends is proved as such, from the deadline, a shutdown or the end of the
  server's results, with the fuel that is enough in the statement (\<open>pg_single_ends_by_deadline\<close>,
  \<open>pg_shutdown_ends_request\<close>, \<open>mysql_request_ends\<close>, the last part of the \<open>request_correct\<close>
  theorems). \<open>pthread_join\<close> is the end of the worker's thread with enough fuel. Version words
  and 64-bit cells are words; 32-bit offsets into an insert-many blob overflow as in C; other
  counts and times are integers, the request lists being shorter than 2^31.

  \<^bold>\<open>What the clients do.\<close> A connection is used as the pool leases it: its holder polls and
  releases between a notification and its next submission (\<open>quiet\<close>). \<open>acquire\<close> and \<open>release\<close>
  act under the pool's mutex, other threads only while the condition wait has released it.

  \<^bold>\<open>What the modelling showed.\<close> The PostgreSQL pipeline drain spins on a NULL result and does not
  look at its deadline there (\<open>pg_pipeline_null_spin\<close>). A MySQL result that was not drained before
  the next statement is lost for good (\<open>mysql_undrained_lost\<close>), and the SQLite and MongoDB workers
  overwrite \<open>last_result\<close> in the same way. A length prefix in an insert-many blob can overflow the
  signed offset (\<open>mongo_insert_many_slices\<close>), and a MongoDB pool whose condition variable cannot be
  created keeps its mutex (\<open>mongo_pool_balanced\<close>).

  \<^bold>\<open>Not modelled.\<close> The Dart packages, examples and benchmarks, which are not C. The vendored Dart
  SDK headers, which only declare the VM's interface; the symbol lists of dart_api_dl.h are
  modelled. The public headers, which only declare what the sources define; their version
  numbers are modelled. The messages printed to stderr. The client libraries themselves, the
  scheduler and the memory model of C threads: a slot is only touched under its mutex, which
  makes the steps of \<open>drv_step\<close> atomic; the one exception, \<open>pool_destroy\<close> freeing the pool while
  other threads still wait in \<open>acquire\<close>, is outside the model.
\<close>

section \<open>Every driver answers\<close>








section \<open>Every pool leases exclusively\<close>

text \<open>The free array entries and the entries in use of the three pools.\<close>

abbreviation "my_leased \<equiv> array_leased mysql_pool.max_size mysql_pool.conns mysql_conn.in_use"
abbreviation "sq_leased \<equiv> array_leased sqlite_pool.max_size sqlite_pool.conns sqlite_conn.in_use"
abbreviation "mg_leased \<equiv> array_leased mongo_pool.max_size mongo_pool.conns mongo_conn.in_use"

text \<open>C13. The MySQL, SQLite and MongoDB pools hand no connection to two holders: after any run of
  acquires and releases from a fresh pool the handles held are distinct and are exactly the
  connections marked in use, and one given back can be acquired again. Whatever other threads
  do while a call waits, a connection it is granted was free in the pool the call last saw, and
  only that one becomes leased. A release frees just its connection.\<close>

theorem every_pool_leases:
  "leases_exclusively my_leased mysql_try_acquire (mysql_set_in_use False)
     (\<lambda>ws p. map_prod id the (mysql_pool_acquire now ws (Some p) t))
     (\<lambda>i p. the (fst (mysql_pool_release (Some p) (Some i) m))) \<and>
   leases_exclusively sq_leased sqlite_try_acquire (sqlite_set_in_use False)
     (\<lambda>ws p. map_prod id the (sqlite_pool_acquire now ws (Some p) t))
     (\<lambda>i p. the (fst (sqlite_pool_release (Some p) (Some i) m))) \<and>
   leases_exclusively mg_leased mongo_try_acquire (mongo_set_in_use False)
     (\<lambda>ws p. map_prod id the (mongo_pool_acquire now ws (Some p) t))
     (\<lambda>i p. the (fst (mongo_pool_release (Some p) (Some i) m)))"
proof (intro conjI)
  show "leases_exclusively my_leased mysql_try_acquire (mysql_set_in_use False)
     (\<lambda>ws p. map_prod id the (mysql_pool_acquire now ws (Some p) t))
     (\<lambda>i p. the (fst (mysql_pool_release (Some p) (Some i) m)))"
    by (rule my_array.exclusive)
      (auto simp: mysql_pool_acquire_def mysql_pool_release_def Let_def split: if_splits prod.splits)
  show "leases_exclusively sq_leased sqlite_try_acquire (sqlite_set_in_use False)
     (\<lambda>ws p. map_prod id the (sqlite_pool_acquire now ws (Some p) t))
     (\<lambda>i p. the (fst (sqlite_pool_release (Some p) (Some i) m)))"
    by (rule sq_array.exclusive)
      (auto simp: sqlite_pool_acquire_def sqlite_pool_release_def Let_def split: if_splits prod.splits)
  show "leases_exclusively mg_leased mongo_try_acquire (mongo_set_in_use False)
     (\<lambda>ws p. map_prod id the (mongo_pool_acquire now ws (Some p) t))
     (\<lambda>i p. the (fst (mongo_pool_release (Some p) (Some i) m)))"
    by (rule mg_array.exclusive)
      (auto simp: mongo_pool_acquire_def mongo_pool_release_def Let_def split: if_splits prod.splits)
qed

end
